(* ===== verification/Prelude.thy ===== *)
theory Prelude
  imports Main "HOL-Library.Word"
begin

text \<open>
  The vocabulary shared by every theory of the development: the result type of
  the Rust code (a value, an error value, or a panic), its sequencing operator,
  slices of a buffer that is updated in place, and the named collections that
  carry the component proofs.
\<close>

unbundle bit_operations_syntax

named_theorems outcome_simps \<open>rewriting of results\<close>
named_theorems sim_intros \<open>introduction rules of the simulation of one processor by another\<close>
named_theorems stack_simps \<open>facts on the operand stack seen as a list\<close>

section \<open>Results\<close>

text \<open>
  A Rust function returns \<open>Ok v\<close>, returns \<open>Err e\<close>, or panics (an index out of
  range, an \<open>expect\<close> on \<open>None\<close>, a failed \<open>assert\<close>).
\<close>

datatype ('e, 'a) outcome = Ok 'a | Err 'e | Panic

fun bindO :: "('e, 'a) outcome \<Rightarrow> ('a \<Rightarrow> ('e, 'b) outcome) \<Rightarrow> ('e, 'b) outcome" where
  "bindO (Ok x) f = f x"
| "bindO (Err e) f = Err e"
| "bindO Panic f = Panic"

fun map_err :: "('e \<Rightarrow> 'd) \<Rightarrow> ('e, 'a) outcome \<Rightarrow> ('d, 'a) outcome" where
  "map_err g (Ok x) = Ok x"
| "map_err g (Err e) = Err (g e)"
| "map_err g Panic = Panic"

fun is_ok :: "('e, 'a) outcome \<Rightarrow> bool" where
  "is_ok (Ok _) = True"
| "is_ok _ = False"

text \<open>A \<open>for\<close> loop whose body may fail.\<close>

fun foldO :: "('a \<Rightarrow> 's \<Rightarrow> ('e, 's) outcome) \<Rightarrow> 'a list \<Rightarrow> 's \<Rightarrow> ('e, 's) outcome" where
  "foldO f [] s = Ok s"
| "foldO f (x # xs) s = bindO (f x s) (foldO f xs)"

text \<open>\<open>ensureO c e\<close> is the early return \<open>if !c { return Err(e) }\<close>; \<open>assertO c\<close> is
  \<open>assert!(c)\<close>.\<close>

definition ensureO :: "bool \<Rightarrow> 'e \<Rightarrow> ('e, unit) outcome" where
  "ensureO c e = (if c then Ok () else Err e)"

definition assertO :: "bool \<Rightarrow> ('e, unit) outcome" where
  "assertO c = (if c then Ok () else Panic)"

lemma bindO_assoc [outcome_simps]: "bindO (bindO m f) g = bindO m (\<lambda>x. bindO (f x) g)"
  by (cases m) simp_all

lemma bindO_Ok_right [simp]: "bindO m Ok = m"
  by (cases m) simp_all

lemma bindO_eq_Ok [outcome_simps]: "bindO m f = Ok y \<longleftrightarrow> (\<exists>x. m = Ok x \<and> f x = Ok y)"
  by (cases m) simp_all

lemma bindO_eq_Err [outcome_simps]:
  "bindO m f = Err e \<longleftrightarrow> m = Err e \<or> (\<exists>x. m = Ok x \<and> f x = Err e)"
  by (cases m) simp_all

lemma bindO_eq_Panic [outcome_simps]:
  "bindO m f = Panic \<longleftrightarrow> m = Panic \<or> (\<exists>x. m = Ok x \<and> f x = Panic)"
  by (cases m) simp_all

lemma bindO_safe: "m \<noteq> Panic \<Longrightarrow> (\<And>x. m = Ok x \<Longrightarrow> f x \<noteq> Panic) \<Longrightarrow> bindO m f \<noteq> Panic"
  by (cases m) simp_all

lemma bindO_cong [fundef_cong]:
  "m = n \<Longrightarrow> (\<And>x. n = Ok x \<Longrightarrow> f x = g x) \<Longrightarrow> bindO m f = bindO n g"
  by (cases n) simp_all

lemma bindO_ensureO [simp]: "bindO (ensureO c e) f = (if c then f () else Err e)"
  by (simp add: ensureO_def)

lemma bindO_assertO [simp]: "bindO (assertO c) f = (if c then f () else Panic)"
  by (simp add: assertO_def)

lemma bindO_map_err: "bindO (map_err g m) f = (case m of Ok x \<Rightarrow> f x | Err e \<Rightarrow> Err (g e) | Panic \<Rightarrow> Panic)"
  by (cases m) simp_all

lemma map_err_eq_Ok [simp]: "map_err g m = Ok x \<longleftrightarrow> m = Ok x"
  by (cases m) simp_all

lemma map_err_eq_Panic [simp]: "map_err g m = Panic \<longleftrightarrow> m = Panic"
  by (cases m) simp_all

lemma is_ok_iff: "is_ok m \<longleftrightarrow> (\<exists>x. m = Ok x)"
  by (cases m) simp_all

text \<open>
  \<open>sim R m n\<close>: the two computations return values related by \<open>R\<close>, or the same error, and neither
  panics. It is compatible with every construct the operations are written with, so that the simulation
  of an operation follows from the simulation of the methods it calls.
\<close>

fun sim :: "('a \<Rightarrow> 'b \<Rightarrow> bool) \<Rightarrow> ('e, 'a) outcome \<Rightarrow> ('e, 'b) outcome \<Rightarrow> bool" where
  "sim R (Ok x) n = (\<exists>y. n = Ok y \<and> R x y)"
| "sim R (Err e) n = (n = Err e)"
| "sim R Panic n = False"

lemma sim_cases:
  assumes "sim R m n"
  obtains x y where "m = Ok x" "n = Ok y" "R x y" | e where "m = Err e" "n = Err e"
  using assms by (cases m) auto

lemma sim_mono: "sim R m n \<Longrightarrow> (\<And>x y. R x y \<Longrightarrow> S x y) \<Longrightarrow> sim S m n"
  by (cases m) auto

lemma sim_Ok [sim_intros]: "R x y \<Longrightarrow> sim R (Ok x) (Ok y)"
  by simp

lemma sim_Err [sim_intros]: "sim R (Err e) (Err e)"
  by simp

lemma sim_bind:
  "sim R m n \<Longrightarrow> (\<And>x y. R x y \<Longrightarrow> sim S (f x) (g y)) \<Longrightarrow> sim S (bindO m f) (bindO n g)"
  by (cases m) auto

lemma sim_bind_eq:
  "sim (=) m n \<Longrightarrow> (\<And>x. m = Ok x \<Longrightarrow> sim S (f x) (g x)) \<Longrightarrow> sim S (bindO m f) (bindO n g)"
  by (cases m) auto

lemma sim_value:
  "m \<noteq> Panic \<Longrightarrow> (\<And>x. m = Ok x \<Longrightarrow> sim U (f x) (g x)) \<Longrightarrow> sim U (bindO m f) (bindO m g)"
  by (cases m) auto

lemma sim_if [sim_intros]:
  "(c \<Longrightarrow> sim R a b) \<Longrightarrow> (\<not> c \<Longrightarrow> sim R a' b') \<Longrightarrow> sim R (if c then a else a') (if c then b else b')"
  by simp

lemma sim_let [sim_intros]: "(\<And>x. sim R (f x) (g x)) \<Longrightarrow> sim R (Let x f) (Let x g)"
  by (simp add: Let_def)

lemma sim_case_prod [sim_intros]:
  "(\<And>a b. x = (a, b) \<Longrightarrow> sim R (f a b) (g a b)) \<Longrightarrow> sim R (case_prod f x) (case_prod g x)"
  by (cases x) simp

lemma sim_map_err: "sim R m n \<Longrightarrow> sim R (map_err h m) (map_err h n)"
  by (cases m) auto

section \<open>Buffers\<close>

text \<open>\<open>xs[i..i + n]\<close> and \<open>xs[i..].copy_from_slice(ys)\<close>, for ranges inside the buffer; \<open>fetch\<close> and
  \<open>store\<close> are the checked accesses.\<close>

definition slice :: "nat \<Rightarrow> nat \<Rightarrow> 'a list \<Rightarrow> 'a list" where
  "slice i n xs = take n (drop i xs)"

definition overlay :: "'a list \<Rightarrow> nat \<Rightarrow> 'a list \<Rightarrow> 'a list" where
  "overlay xs i ys = take i xs @ ys @ drop (i + length ys) xs"

definition fetch :: "'a list \<Rightarrow> nat \<Rightarrow> ('e, 'a) outcome" where
  "fetch xs i = (if i < length xs then Ok (xs ! i) else Panic)"

definition store :: "'a list \<Rightarrow> nat \<Rightarrow> 'a \<Rightarrow> ('e, 'a list) outcome" where
  "store xs i x = (if i < length xs then Ok (xs[i := x]) else Panic)"

definition fetch_range :: "'a list \<Rightarrow> nat \<Rightarrow> nat \<Rightarrow> ('e, 'a list) outcome" where
  "fetch_range xs i n = (if i + n \<le> length xs then Ok (slice i n xs) else Panic)"

definition store_range :: "'a list \<Rightarrow> nat \<Rightarrow> 'a list \<Rightarrow> ('e, 'a list) outcome" where
  "store_range xs i ys = (if i + length ys \<le> length xs then Ok (overlay xs i ys) else Panic)"

text \<open>\<open>a - b\<close> on \<open>usize\<close>: an underflow is a panic.\<close>

definition usub :: "nat \<Rightarrow> nat \<Rightarrow> ('e, nat) outcome" where
  "usub a b = (if b \<le> a then Ok (a - b) else Panic)"

lemma usub_Ok: "b \<le> a \<Longrightarrow> usub a b = Ok (a - b)"
  by (simp add: usub_def)

lemma length_slice [simp]: "i + n \<le> length xs \<Longrightarrow> length (slice i n xs) = n"
  by (simp add: slice_def)

lemma nth_slice [simp]: "i + n \<le> length xs \<Longrightarrow> k < n \<Longrightarrow> slice i n xs ! k = xs ! (i + k)"
  by (simp add: slice_def)

lemma length_overlay [simp]: "i + length ys \<le> length xs \<Longrightarrow> length (overlay xs i ys) = length xs"
  by (simp add: overlay_def)

lemma nth_overlay:
  assumes "i + length ys \<le> length xs" "k < length xs"
  shows "overlay xs i ys ! k = (if i \<le> k \<and> k < i + length ys then ys ! (k - i) else xs ! k)"
  using assms by (auto simp: overlay_def nth_append min_def)

section \<open>Machine words\<close>

text \<open>A \<open>usize\<close> is a natural number; its checked and saturating operations are written out.\<close>

definition WORD_SIZE :: nat where
  "WORD_SIZE = 4"

definition usize_max :: nat where
  "usize_max = 18446744073709551615"

definition div_ceil :: "nat \<Rightarrow> nat \<Rightarrow> nat" where
  "div_ceil a b = (if a mod b = 0 then a div b else a div b + 1)"

definition checked_add :: "nat \<Rightarrow> nat \<Rightarrow> nat option" where
  "checked_add a b = (if a + b \<le> usize_max then Some (a + b) else None)"

definition checked_mul :: "nat \<Rightarrow> nat \<Rightarrow> nat option" where
  "checked_mul a b = (if a * b \<le> usize_max then Some (a * b) else None)"

definition saturating_add :: "nat \<Rightarrow> nat \<Rightarrow> nat" where
  "saturating_add a b = min (a + b) usize_max"

definition saturating_mul :: "nat \<Rightarrow> nat \<Rightarrow> nat" where
  "saturating_mul a b = min (a * b) usize_max"

lemma unat_u64_less: "unat (w :: 64 word) < 18446744073709551616"
  by (rule order_less_le_trans [OF unsigned_less]) simp

lemma unat_u32_less: "unat (w :: 32 word) < 4294967296"
  by (rule order_less_le_trans [OF unsigned_less]) simp

lemma unat_ucast_32_64 [simp]: "unat (ucast (w :: 32 word) :: 64 word) = unat w"
  using unat_u32_less [of w] by (simp add: unsigned_ucast_eq take_bit_eq_mod)

lemma unat_ucast_16_64 [simp]: "unat (ucast (w :: 16 word) :: 64 word) = unat w"
proof -
  have "unat w < 65536" by (rule order_less_le_trans [OF unsigned_less]) simp
  then show ?thesis by (simp add: unsigned_ucast_eq take_bit_eq_mod)
qed

end
