(* ===== verification/Felt.thy ===== *)
theory Felt
  imports Prelude
begin

text \<open>
  The field element \<open>Felt\<close> of \<open>crates/field/src/native/mod.rs\<close>: an element of the
  prime field of order \<open>2^64 - 2^32 + 1\<close>. The Rust type delegates its arithmetic to
  Plonky3's \<open>Goldilocks\<close>; the type here is that field itself, with the canonical
  representative as its value. That the ring of residues is a field is proved, so
  inverses are those of the Isabelle class \<open>field\<close>.
\<close>

section \<open>The modulus\<close>

definition ORDER :: int where
  "ORDER = 18446744069414584321"

lemmas ORDER_num = ORDER_def

lemma ORDER_eq: "ORDER = 2 ^ 64 - 2 ^ 32 + 1"
  by (simp add: ORDER_num)

lemma ORDER_pos [simp]: "0 < ORDER" "1 < ORDER" "0 \<le> ORDER" "ORDER \<noteq> 0"
  by (simp_all add: ORDER_num)

text \<open>Iterated squaring modulo \<open>ORDER\<close>; \<open>root_of_unity\<close> has order \<open>2^32\<close>, because its
  \<open>2^31\<close>-th power is \<open>-1\<close>.\<close>

fun squarings :: "nat \<Rightarrow> int \<Rightarrow> int" where
  "squarings 0 x = x"
| "squarings (Suc n) x = squarings n (x * x mod ORDER)"

definition root_of_unity :: int where
  "root_of_unity = 1753635133440165772"

lemma squarings_power: "squarings n x mod ORDER = x ^ (2 ^ n) mod ORDER"
proof (induction n arbitrary: x)
  case (Suc n)
  have "squarings (Suc n) x mod ORDER = (x * x) ^ (2 ^ n) mod ORDER"
    by (simp add: Suc power_mod)
  then show ?case
    by (simp add: power_mult power2_eq_square)
qed simp

lemma squarings_root: "squarings 31 root_of_unity = ORDER - 1"
  by code_simp

lemma root_power: "ORDER dvd root_of_unity ^ (2 ^ 31) + 1"
proof -
  have "root_of_unity ^ (2 ^ 31) mod ORDER = (ORDER - 1) mod ORDER"
    using squarings_power [of 31 root_of_unity] unfolding squarings_root by (rule sym)
  then show ?thesis
    by (simp add: mod_eq_dvd_iff)
qed

text \<open>The order argument, for any divisor \<open>d\<close> of the modulus: an element with
  \<open>b^(2^n) = -1\<close> has \<open>2^(n+1)\<close> distinct powers modulo \<open>d\<close>.\<close>

lemma two_power_odd: "0 < k \<Longrightarrow> \<exists>s m. odd m \<and> k = 2 ^ s * (m :: nat)"
proof (induction k rule: less_induct)
  case (less k)
  show ?case
  proof (cases "odd k")
    case True
    then show ?thesis by (intro exI [of _ 0] exI [of _ k]) simp
  next
    case False
    then obtain h where h: "k = 2 * h" by blast
    have "0 < h" "h < k" using h less.prems by simp_all
    then obtain s m where "odd m" "h = 2 ^ s * m" using less.IH by blast
    with h show ?thesis by (intro exI [of _ "Suc s"] exI [of _ m]) simp
  qed
qed

lemma minus_one_power_not_one:
  fixes b d :: int
  assumes d: "1 < d" "odd d" and b: "d dvd b ^ (2 ^ n) + 1" and k: "0 < k" "k < 2 ^ Suc n"
  shows "\<not> d dvd b ^ k - 1"
proof
  assume one: "d dvd b ^ k - 1"
  obtain s m where m: "odd m" "k = 2 ^ s * m"
    using two_power_odd k(1) by blast
  have "2 ^ s \<le> k" using m by (cases m) simp_all
  then have "(2::nat) ^ s < 2 ^ Suc n" using k(2) by linarith
  then have s: "s \<le> n" by (simp add: less_Suc_eq_le del: power_Suc)
  have "b ^ (2 ^ n) mod d = (- 1) mod d"
    using b by (simp add: mod_eq_dvd_iff)
  then have "(b ^ (2 ^ n)) ^ m mod d = (- 1) ^ m mod d"
    by (metis power_mod)
  moreover have "(b ^ (2 ^ n)) ^ m = (b ^ k) ^ (2 ^ (n - s))"
    using m(2) s by (simp flip: power_mult power_add add: ac_simps)
  moreover have "b ^ k mod d = 1 mod d"
    using one by (simp add: mod_eq_dvd_iff)
  then have "(b ^ k) ^ (2 ^ (n - s)) mod d = 1 mod d"
    by (metis power_mod power_one)
  ultimately have "(1 :: int) mod d = (- 1) mod d"
    using m(1) by simp
  then have "d dvd 2"
    by (simp add: mod_eq_dvd_iff)
  then show False
    using d zdvd_imp_le [of d 2] by (cases "d = 2") auto
qed

lemma minus_one_coprime:
  fixes b d :: int
  assumes "d dvd b ^ (2 ^ n) + 1"
  shows "coprime d b"
proof (rule coprimeI)
  fix c assume c: "c dvd d" "c dvd b"
  then have "c dvd b ^ (2 ^ n)" by (simp add: dvd_power_iff_le dvd_trans [OF _ dvd_power])
  moreover have "c dvd b ^ (2 ^ n) + 1" using c(1) assms by (rule dvd_trans)
  ultimately show "is_unit c" by (simp add: dvd_add_right_iff)
qed

lemma powers_inj:
  fixes b d :: int
  assumes d: "1 < d" "odd d" and b: "d dvd b ^ (2 ^ n) + 1"
  shows "inj_on (\<lambda>i. b ^ i mod d) {..<2 ^ Suc n}"
proof (rule linorder_inj_onI)
  fix i j :: nat
  assume ij: "i < j" "j \<in> {..<2 ^ Suc n}"
  have "coprime d (b ^ i)"
    using minus_one_coprime [OF b] by simp
  moreover have "b ^ j - b ^ i = b ^ i * (b ^ (j - i) - 1)"
    using ij(1) by (simp add: right_diff_distrib flip: power_add)
  moreover have "\<not> d dvd b ^ (j - i) - 1"
    using minus_one_power_not_one [OF d b] ij by simp
  ultimately have "\<not> d dvd b ^ j - b ^ i"
    by (simp add: coprime_dvd_mult_right_iff)
  then show "b ^ i mod d \<noteq> b ^ j mod d"
    by (metis mod_eq_dvd_iff)
qed auto

lemma divisor_large:
  assumes "1 < d" "d dvd ORDER"
  shows "2 ^ 32 < d"
proof -
  let ?f = "\<lambda>i. root_of_unity ^ i mod d"
  have odd: "odd d"
  proof
    assume "even d"
    with assms(2) have "even ORDER" by (metis dvd_trans)
    then show False by (simp add: ORDER_num)
  qed
  have root: "d dvd root_of_unity ^ (2 ^ 31) + 1"
    using assms(2) root_power by (rule dvd_trans)
  have "inj_on ?f {..<2 ^ Suc 31}"
    using assms(1) odd root by (rule powers_inj)
  moreover have "?f ` {..<2 ^ Suc 31} \<subseteq> {0..<d}"
    using assms(1) by auto
  ultimately have "card {..<2 ^ Suc 31 :: nat} \<le> card {0..<d}"
    by (intro card_inj_on_le) auto
  then have le: "2 ^ 32 \<le> d"
    using assms(1) by simp
  have "d \<noteq> 2 ^ 32" using odd by auto
  with le show ?thesis by simp
qed

lemma coprime_ORDER:
  assumes "0 < a" "a < ORDER"
  shows "coprime a ORDER"
proof (rule ccontr)
  assume "\<not> coprime a ORDER"
  then have "gcd a ORDER \<noteq> 1"
    by (simp add: coprime_iff_gcd_eq_1)
  moreover have pos: "0 < gcd a ORDER"
    using assms(1) by simp
  ultimately have g: "1 < gcd a ORDER"
    by linarith
  obtain e where e: "ORDER = gcd a ORDER * e"
    using gcd_dvd2 [of a ORDER] by (rule dvdE)
  have "gcd a ORDER < ORDER"
    using assms by (meson gcd_le1_int le_less_trans)
  then have "e \<noteq> 1" using e by auto
  moreover have "0 < e"
    using zero_less_mult_pos [OF _ pos, of e] e ORDER_pos(1) by simp
  ultimately have "1 < e" by simp
  moreover have "e dvd ORDER" using dvd_triv_right [of e "gcd a ORDER"] e by simp
  ultimately have "2 ^ 32 < e" by (rule divisor_large)
  moreover have "2 ^ 32 < gcd a ORDER" using g by (intro divisor_large) simp_all
  ultimately have "2 ^ 32 * 2 ^ 32 < gcd a ORDER * e"
    by (intro mult_strict_mono) simp_all
  then show False
    using e by (simp add: ORDER_num)
qed

section \<open>The field\<close>

typedef felt = "{0..<ORDER}"
  by (rule exI [of _ 0]) simp

setup_lifting type_definition_felt

instantiation felt :: equal
begin

lift_definition equal_felt :: "felt \<Rightarrow> felt \<Rightarrow> bool" is "\<lambda>x y. x = y" .

instance
  by standard (simp add: equal_felt_def Rep_felt_inject)

end

instantiation felt :: comm_ring_1
begin

lift_definition zero_felt :: felt is 0 by simp
lift_definition one_felt :: felt is 1 by simp
lift_definition plus_felt :: "felt \<Rightarrow> felt \<Rightarrow> felt" is "\<lambda>x y. (x + y) mod ORDER" by simp
lift_definition minus_felt :: "felt \<Rightarrow> felt \<Rightarrow> felt" is "\<lambda>x y. (x - y) mod ORDER" by simp
lift_definition uminus_felt :: "felt \<Rightarrow> felt" is "\<lambda>x. (- x) mod ORDER" by simp
lift_definition times_felt :: "felt \<Rightarrow> felt \<Rightarrow> felt" is "\<lambda>x y. x * y mod ORDER" by simp

instance
  by standard (transfer; simp add: mod_simps algebra_simps)+

end

lemma bezw_inverse:
  assumes "0 < a" "a < ORDER"
  shows "fst (bezw (nat a) (nat ORDER)) * a mod ORDER = 1"
proof -
  let ?u = "fst (bezw (nat a) (nat ORDER))" and ?v = "snd (bezw (nat a) (nat ORDER))"
  have "int (gcd (nat a) (nat ORDER)) = gcd a ORDER"
    using assms by (simp add: gcd_int_def nat_abs_int_diff)
  then have "?u * a + ?v * ORDER = 1"
    using bezw_aux [of "nat a" "nat ORDER"] coprime_ORDER [OF assms] assms
    by (simp add: coprime_iff_gcd_eq_1)
  then have "(?u * a + ?v * ORDER) mod ORDER = 1"
    by simp
  then show ?thesis
    by simp
qed

instantiation felt :: field
begin

lift_definition inverse_felt :: "felt \<Rightarrow> felt" is
  "\<lambda>x. fst (bezw (nat x) (nat ORDER)) mod ORDER" by simp

definition divide_felt :: "felt \<Rightarrow> felt \<Rightarrow> felt" where
  "divide_felt x y = x * inverse y"

instance
proof
  fix a b :: felt
  show "a \<noteq> 0 \<Longrightarrow> inverse a * a = 1"
    by transfer (simp add: mod_simps bezw_inverse)
  show "inverse (0 :: felt) = 0"
    by transfer (simp add: bezw.simps ORDER_num)
qed (rule divide_felt_def)

end

section \<open>Values\<close>

type_synonym u64 = "64 word"
type_synonym u32 = "32 word"
type_synonym u16 = "16 word"

text \<open>The canonical representative, as a natural number and (\<open>as_canonical_u64\<close>) as a machine
  word; and \<open>new_unchecked\<close>, which accepts every \<open>u64\<close> and stands for its residue.\<close>

lift_definition val :: "felt \<Rightarrow> nat" is nat .

definition as_canonical_u64 :: "felt \<Rightarrow> u64" where
  "as_canonical_u64 x = word_of_nat (val x)"

definition new_unchecked :: "u64 \<Rightarrow> felt" where
  "new_unchecked w = of_nat (unat w)"

definition from_u16 :: "u16 \<Rightarrow> felt" where
  "from_u16 w = new_unchecked (ucast w)"

definition from_u32 :: "u32 \<Rightarrow> felt" where
  "from_u32 w = new_unchecked (ucast w)"

definition from_bool :: "bool \<Rightarrow> felt" where
  "from_bool b = new_unchecked (if b then 1 else 0)"

text \<open>\<open>Felt::new\<close>: only canonical values are accepted.\<close>

definition felt_new :: "u64 \<Rightarrow> (u64, felt) outcome" where
  "felt_new w = (if unat w < nat ORDER then Ok (new_unchecked w) else Err w)"

text \<open>\<open>as_canonical_u64_ct\<close>, on the raw representation: one conditional subtraction.\<close>

definition as_canonical_u64_ct :: "u64 \<Rightarrow> u64" where
  "as_canonical_u64_ct raw =
    (let reduced = raw - word_of_int ORDER in
     if \<not> raw < word_of_int ORDER then reduced else raw)"

lemma Rep_felt_of_nat: "Rep_felt (of_nat n) = int n mod ORDER"
proof (induction n)
  case (Suc n)
  have "Rep_felt (of_nat (Suc n)) = (1 + Rep_felt (of_nat n)) mod ORDER"
    by (simp add: plus_felt.rep_eq one_felt.rep_eq)
  then show ?case
    by (simp add: Suc mod_simps)
qed (simp add: zero_felt.rep_eq)

lemma val_of_nat [simp]: "val (of_nat n) = n mod 18446744069414584321"
  by (simp add: val.rep_eq Rep_felt_of_nat ORDER_num nat_mod_distrib)

lemma of_nat_val [simp]: "of_nat (val x) = x"
proof -
  have "Rep_felt x \<in> {0..<ORDER}" by (rule Rep_felt)
  then have "Rep_felt (of_nat (val x)) = Rep_felt x"
    unfolding Rep_felt_of_nat by (simp add: val.rep_eq)
  then show ?thesis by (simp add: Rep_felt_inject)
qed

lemma val_less: "val x < 18446744069414584321"
  using Rep_felt [of x] by (simp add: val.rep_eq ORDER_num nat_less_iff)

lemma val_less_u64: "val x < 2 ^ 64"
  using val_less [of x] by simp

lemma val_inject: "val x = val y \<longleftrightarrow> x = y"
  by (metis of_nat_val)

lemma val_numeral [simp]: "val (numeral k) = numeral k mod 18446744069414584321"
  using val_of_nat [of "numeral k"] by simp

lemma val_0 [simp]: "val 0 = 0" and val_1 [simp]: "val 1 = 1"
  using val_of_nat [of 0] val_of_nat [of 1] by simp_all

lemma val_eq_0 [simp]: "val x = 0 \<longleftrightarrow> x = 0"
  using val_inject [of x 0] by simp

lemma numeral_felt_eq [simp]:
  "(numeral j :: felt) = numeral k \<longleftrightarrow>
    (numeral j mod 18446744069414584321 :: nat) = numeral k mod 18446744069414584321"
  "(numeral j :: felt) = 0 \<longleftrightarrow> (numeral j mod 18446744069414584321 :: nat) = 0"
  "(0 :: felt) = numeral j \<longleftrightarrow> (numeral j mod 18446744069414584321 :: nat) = 0"
  "(numeral j :: felt) = 1 \<longleftrightarrow> (numeral j mod 18446744069414584321 :: nat) = 1"
  "(1 :: felt) = numeral j \<longleftrightarrow> (numeral j mod 18446744069414584321 :: nat) = 1"
  by (auto simp flip: val_inject)

lemma val_add: "val (x + y) = (val x + val y) mod 18446744069414584321"
  using val_of_nat [of "val x + val y"] by simp

lemma val_mult: "val (x * y) = val x * val y mod 18446744069414584321"
  using val_of_nat [of "val x * val y"] by simp

lemma unat_as_canonical [simp]: "unat (as_canonical_u64 x) = val x"
  using val_less_u64 [of x] by (simp add: as_canonical_u64_def unat_of_nat)

lemma val_new_unchecked: "val (new_unchecked w) = unat w mod 18446744069414584321"
  unfolding new_unchecked_def by (rule val_of_nat)

lemma as_canonical_inject [simp]: "as_canonical_u64 x = as_canonical_u64 y \<longleftrightarrow> x = y"
  by (metis unat_as_canonical val_inject)

lemma new_unchecked_as_canonical [simp]: "new_unchecked (as_canonical_u64 x) = x"
  by (simp add: new_unchecked_def)

lemma from_bool_simps [simp]: "from_bool True = 1" "from_bool False = 0"
  by (simp_all add: from_bool_def new_unchecked_def)

lemma val_from_u32 [simp]: "val (from_u32 w) = unat w"
proof -
  show ?thesis
    using unat_u32_less [of w] by (simp add: from_u32_def val_new_unchecked unat_ucast_32_64)
qed

lemma from_u32_inject [simp]: "from_u32 v = from_u32 w \<longleftrightarrow> v = w"
  by (metis val_from_u32 word_unat_eq_iff)

text \<open>The constant-time reduction of the raw representation yields the canonical value.\<close>

lemma as_canonical_u64_ct_correct: "as_canonical_u64_ct raw = as_canonical_u64 (new_unchecked raw)"
proof -
  have "unat (as_canonical_u64_ct raw) = unat raw mod 18446744069414584321"
    using unat_u64_less [of raw]
    by (auto simp: as_canonical_u64_ct_def ORDER_num word_less_nat_alt unat_sub_if' le_mod_geq
        unat_word_ariths)
  then show ?thesis
    by (simp add: word_unat_eq_iff val_new_unchecked)
qed

text \<open>The order on field elements is the order of the canonical values.\<close>

instantiation felt :: linorder
begin

definition less_eq_felt :: "felt \<Rightarrow> felt \<Rightarrow> bool" where
  "x \<le> y \<longleftrightarrow> val x \<le> val y"

definition less_felt :: "felt \<Rightarrow> felt \<Rightarrow> bool" where
  "x < y \<longleftrightarrow> val x < val y"

instance
  by standard (auto simp: less_eq_felt_def less_felt_def val_inject)

end

section \<open>Correctness\<close>

text \<open>C36: The constant-time \<open>as_canonical_u64_ct\<close>, one conditional subtraction on the raw
  representation, returns for every 64-bit value the same word as \<open>as_canonical_u64\<close> on the element that
  value stands for.\<close>

theorem canonical_ct_equiv: "as_canonical_u64_ct raw = as_canonical_u64 (new_unchecked raw)"
  by (rule as_canonical_u64_ct_correct)

end
