(* ===== verification/QuadFelt.thy ===== *)
theory QuadFelt
  imports Felt
begin

text \<open>
  The quadratic extension \<open>QuadFelt\<close> used by the FRI, Horner and circuit operations:
  pairs \<open>[c0, c1]\<close> of field elements standing for \<open>c0 + c1 * x\<close> modulo \<open>x^2 - 7\<close>
  (\<open>docs/src/user_docs/assembly/instruction_reference.md\<close>).
\<close>

datatype quad = Quad (c0: felt) (c1: felt)

instantiation quad :: comm_ring_1
begin

definition zero_quad :: quad where
  "zero_quad = Quad 0 0"

definition one_quad :: quad where
  "one_quad = Quad 1 0"

definition plus_quad :: "quad \<Rightarrow> quad \<Rightarrow> quad" where
  "plus_quad a b = Quad (c0 a + c0 b) (c1 a + c1 b)"

definition minus_quad :: "quad \<Rightarrow> quad \<Rightarrow> quad" where
  "minus_quad a b = Quad (c0 a - c0 b) (c1 a - c1 b)"

definition uminus_quad :: "quad \<Rightarrow> quad" where
  "uminus_quad a = Quad (- c0 a) (- c1 a)"

definition times_quad :: "quad \<Rightarrow> quad \<Rightarrow> quad" where
  "times_quad a b = Quad (c0 a * c0 b + 7 * (c1 a * c1 b)) (c0 a * c1 b + c1 a * c0 b)"

lemmas quad_defs = zero_quad_def one_quad_def plus_quad_def minus_quad_def uminus_quad_def
  times_quad_def

instance
  by standard (auto simp: quad_defs algebra_simps)

end

lemma quad_sel [simp]:
  "c0 (a + b) = c0 a + c0 b" "c1 (a + b) = c1 a + c1 b"
  "c0 (a - b) = c0 a - c0 b" "c1 (a - b) = c1 a - c1 b"
  "c0 (- a) = - c0 a" "c1 (- a) = - c1 a"
  "c0 (0 :: quad) = 0" "c1 (0 :: quad) = 0" "c0 (1 :: quad) = 1" "c1 (1 :: quad) = 0"
  "c0 (a * b) = c0 a * c0 b + 7 * (c1 a * c1 b)" "c1 (a * b) = c0 a * c1 b + c1 a * c0 b"
  by (simp_all add: quad_defs)

text \<open>The embedding \<open>QuadFelt::from\<close> and the product of an extension element with a base element.\<close>

definition quad_of :: "felt \<Rightarrow> quad" where
  "quad_of x = Quad x 0"

definition quad_scale :: "quad \<Rightarrow> felt \<Rightarrow> quad" where
  "quad_scale q x = Quad (c0 q * x) (c1 q * x)"

lemma quad_of_sel [simp]: "c0 (quad_of x) = x" "c1 (quad_of x) = 0"
  by (simp_all add: quad_of_def)

lemma quad_of_hom [simp]:
  "quad_of (x + y) = quad_of x + quad_of y" "quad_of (x - y) = quad_of x - quad_of y"
  "quad_of (- x) = - quad_of x" "quad_of (x * y) = quad_of x * quad_of y"
  "quad_of 0 = 0" "quad_of 1 = 1"
  by (auto intro: quad.expand)

lemma quad_of_numeral [simp]: "quad_of (numeral k) = numeral k"
  by (induction k) (simp_all only: numeral.simps quad_of_hom)

lemma quad_numeral_sel [simp]: "c0 (numeral k) = numeral k" "c1 (numeral k) = 0"
  by (simp_all flip: quad_of_numeral)

lemma quad_of_power [simp]: "quad_of (x ^ n) = quad_of x ^ n"
  by (induction n) simp_all

lemma quad_scale_eq: "quad_scale q x = q * quad_of x"
  by (auto simp: quad_scale_def intro: quad.expand)

lemma quad_of_inject [simp]: "quad_of x = quad_of y \<longleftrightarrow> x = y"
  by (simp add: quad_of_def)

end
