(* ===== verification/Vm_Types.thy ===== *)
theory Vm_Types
  imports QuadFelt "HOL-Library.Product_Lexorder"
begin

text \<open>
  The data the processor exchanges: words of four field elements
  (\<open>crates/field/src/word/mod.rs\<close>), the error values of \<open>processor/src/errors.rs\<close> and
  \<open>processor/src/host/advice/errors.rs\<close>, and the helper registers an operation hands to the
  trace (\<open>processor/src/tracer.rs\<close>). Source locations and messages attached to an
  error for diagnostics are left out, so the wrappers \<open>IoError\<close>, \<open>CryptoError\<close> and
  \<open>AceEvalError\<close>, which only forward an error, are the error they forward.
\<close>

section \<open>Words\<close>

datatype qword = QWord (word_a: felt) (word_b: felt) (word_c: felt) (word_d: felt)

definition into_elements :: "qword \<Rightarrow> felt list" where
  "into_elements w = [word_a w, word_b w, word_c w, word_d w]"

fun word_get :: "qword \<Rightarrow> nat \<Rightarrow> felt" where
  "word_get (QWord a b c d) i = [a, b, c, d] ! i"

definition word_set :: "qword \<Rightarrow> nat \<Rightarrow> felt \<Rightarrow> qword" where
  "word_set w i x =
    (let e = (into_elements w)[i := x] in QWord (e ! 0) (e ! 1) (e ! 2) (e ! 3))"

definition EMPTY_WORD :: qword where
  "EMPTY_WORD = QWord 0 0 0 0"

text \<open>A word from the four elements of a slice; any other length is the failed \<open>expect\<close>.\<close>

fun word_of_list :: "felt list \<Rightarrow> ('e, qword) outcome" where
  "word_of_list [a, b, c, d] = Ok (QWord a b c d)"
| "word_of_list _ = Panic"

lemma length_into_elements [simp]: "length (into_elements w) = 4"
  by (simp add: into_elements_def)

lemma into_elements_QWord [simp]: "into_elements (QWord a b c d) = [a, b, c, d]"
  by (simp add: into_elements_def)

lemma word_of_list_into_elements [simp]: "word_of_list (into_elements w) = Ok w"
  by (cases w) simp

lemma into_elements_inject [simp]: "into_elements v = into_elements w \<longleftrightarrow> v = w"
  by (cases v; cases w) simp

lemma word_get_eq_nth: "i < 4 \<Longrightarrow> word_get w i = into_elements w ! i"
  by (cases w) simp

lemma less_4_cases: "(i :: nat) < 4 \<longleftrightarrow> i = 0 \<or> i = 1 \<or> i = 2 \<or> i = 3"
  by auto

lemma word_get_word_set [simp]:
  "i < 4 \<Longrightarrow> j < 4 \<Longrightarrow> word_get (word_set w i x) j = (if i = j then x else word_get w j)"
  by (cases w) (auto simp: word_set_def Let_def less_4_cases)

lemma word_of_list_length4: "length xs = 4 \<Longrightarrow> \<exists>w. word_of_list xs = Ok w \<and> into_elements w = xs"
  by (auto simp: length_Suc_conv numeral_eq_Suc)

text \<open>Words are ordered by their elements, the last one first.\<close>

definition word_key :: "qword \<Rightarrow> felt \<times> felt \<times> felt \<times> felt" where
  "word_key w = (word_d w, word_c w, word_b w, word_a w)"

lemma word_key_inject: "word_key v = word_key w \<longleftrightarrow> v = w"
  by (cases v; cases w) (auto simp: word_key_def)

instantiation qword :: linorder
begin

definition less_eq_qword :: "qword \<Rightarrow> qword \<Rightarrow> bool" where
  "v \<le> w \<longleftrightarrow> word_key v \<le> word_key w"

definition less_qword :: "qword \<Rightarrow> qword \<Rightarrow> bool" where
  "v < w \<longleftrightarrow> word_key v < word_key w"

instance
proof
  fix u v w :: qword
  show "(u < v) = (u \<le> v \<and> \<not> v \<le> u)"
    unfolding less_eq_qword_def less_qword_def by (rule less_le_not_le)
  show "u \<le> u"
    by (simp add: less_eq_qword_def)
  show "u \<le> w" if "u \<le> v" "v \<le> w"
    using that unfolding less_eq_qword_def by (rule order_trans)
  show "u = v" if "u \<le> v" "v \<le> u"
    using that unfolding less_eq_qword_def by (simp flip: word_key_inject add: antisym)
  show "u \<le> v \<or> v \<le> u"
    unfolding less_eq_qword_def by (rule linear)
qed

end

section \<open>Identifiers\<close>

type_synonym context_id = u32
type_synonym row_index = u32
type_synonym merkle_path = "qword list"

text \<open>A sponge state: the two rate words and the capacity word (\<open>RATE0_RANGE\<close>, \<open>RATE1_RANGE\<close> and
  \<open>CAPACITY_RANGE\<close> of the hasher).\<close>

type_synonym hasher_state = "qword \<times> qword \<times> qword"

section \<open>Errors\<close>

datatype memory_error =
    AddressOutOfBounds u64
  | IllegalMemoryAccess context_id u32 felt
  | InvalidMemoryRange u64 u64
  | UnalignedWordAccess u32 context_id
  | MemoryReadFailed string
  | MemoryElementLimitExceeded context_id u32 nat

datatype merkle_error =
    ConflictingRoots qword qword
  | DepthTooSmall nat
  | DepthTooBig u64
  | DuplicateValuesForIndex u64
  | EntryIsNotLeaf nat u64
  | InvalidNodeIndex nat u64
  | InvalidNodeIndexDepth nat nat
  | InvalidPathLength nat
  | SubtreeDepthExceedsDepth nat nat
  | TooManyEntries nat
  | TooManyLeafEntries nat
  | NodeIndexNotFoundInTree nat u64
  | NodeIndexNotFoundInStore qword nat u64
  | NumLeavesNotPowerOfTwo nat
  | RootNotInStore qword
  | UntrackedKey qword
  | InternalError string

datatype advice_error =
    MapKeyAlreadyPresent qword "felt list" "felt list"
  | MapKeyNotFound qword
  | StackReadFailed
  | SizeBudgetExceeded nat nat nat
  | DeferredStateInitializationFailed
  | InvalidMerkleTreeDepth felt
  | InvalidMerkleTreeNodeIndex felt felt
  | MerkleStoreLookupFailed merkle_error
  | MerkleStoreMergeFailed merkle_error
  | MerkleStoreUpdateFailed merkle_error

datatype binary_value_context = CtxOperation | CtxIf | CtxLoop

datatype fri_error =
    CosetExceeds3 u64
  | DomainSizeZero
  | InconsistentProjection u64 nat quad quad

datatype ace_error =
    TooManyWires u64
  | VarsNotAligned u64
  | EvalsNotAligned u64
  | DecodeFailed
  | WireReadFailed
  | CircuitNotZero

datatype operation_error =
    CircularExternalNode qword
  | DivideByZero
  | DeferredFailed
  | FailedAssertion felt
  | U32AssertionFailed felt "felt list"
  | FriError fri_error
  | InvalidHornerEvaluationPointWord context_id u64
  | InvalidMerklePathLength nat felt
  | InvalidStackDepthOnReturn nat
  | LogArgumentZero
  | MalformedMastForestInHost qword
  | MerkleDepthOutOfRange felt
  | MerklePathVerificationFailed qword felt qword felt
  | NotBinaryValue binary_value_context felt
  | NotU32Values "felt list"
  | SyscallTargetNotInKernel qword
  | OpInternal string

datatype execution_error =
    AceChipError ace_error
  | AdviceErr advice_error
  | CycleLimitExceeded u32
  | EventErr felt
  | DeferredErr
  | Internal string
  | StackDepthLimitExceeded nat nat
  | TraceLenExceeded nat
  | ProverMemoryExceeded u64 u64
  | MemoryErr memory_error
  | OperationErr operation_error
  | OutputStackOverflow nat
  | ProcedureNotFound qword
  | ProvingError string
  | HostErr
  | PackageDebugInfoErr

type_synonym 'a exec = "(execution_error, 'a) outcome"

section \<open>Helper registers\<close>

datatype op_helpers =
    HEq felt felt
  | HU32Split felt felt
  | HEqz felt
  | HExpacc felt
  | HFriExt2Fold4 quad quad felt felt
  | HU32Add felt felt
  | HU32Add3 felt felt
  | HU32Sub felt
  | HU32Mul felt felt
  | HU32Madd felt felt
  | HU32Div felt felt felt
  | HU32Assert2 felt felt
  | HHPerm felt
  | HMerklePath felt
  | HHornerEvalBase quad quad quad
  | HHornerEvalExt quad quad
  | HLogDeferred felt qword
  | HEmpty

end
