(* ===== verification/Operation_Set.thy ===== *)
theory Operation_Set
  imports Vm_Types
begin

text \<open>
  The instruction set of \<open>core/src/operations/mod.rs\<close>: the enumeration of the
  operations a basic block may hold, their opcodes, the classification of their effect on the
  depth of the stack, and their byte encoding.
\<close>

section \<open>Operations and opcodes\<close>

datatype (plugins only: ) operation =
    Noop
  | Assert felt
  | SDepth
  | Caller
  | Clk
  | Emit
  | Add
  | Neg
  | Mul
  | Inv
  | Incr
  | And
  | Or
  | NotOp
  | Eq
  | Eqz
  | Expacc
  | Ext2Mul
  | U32split
  | U32add
  | U32assert2 felt
  | U32add3
  | U32sub
  | U32mul
  | U32madd
  | U32div
  | U32and
  | U32xor
  | Pad
  | Drop
  | Dup0
  | Dup1
  | Dup2
  | Dup3
  | Dup4
  | Dup5
  | Dup6
  | Dup7
  | Dup9
  | Dup11
  | Dup13
  | Dup15
  | Swap
  | SwapW
  | SwapW2
  | SwapW3
  | SwapDW
  | MovUp2
  | MovUp3
  | MovUp4
  | MovUp5
  | MovUp6
  | MovUp7
  | MovUp8
  | MovDn2
  | MovDn3
  | MovDn4
  | MovDn5
  | MovDn6
  | MovDn7
  | MovDn8
  | CSwap
  | CSwapW
  | Push felt
  | AdvPop
  | AdvPopW
  | MLoadW
  | MStoreW
  | MLoad
  | MStore
  | MStream
  | Pipe
  | CryptoStream
  | HPerm
  | MpVerify felt
  | MrUpdate
  | FriE2F4
  | HornerBase
  | HornerExt
  | EvalCircuit
  | LogDeferred

type_synonym u8 = "8 word"

primrec op_code :: "operation \<Rightarrow> u8" where
  "op_code Noop = 0b00000000"
| "op_code (Assert x) = 0b00100000"
| "op_code SDepth = 0b00111110"
| "op_code Caller = 0b00001001"
| "op_code Clk = 0b00111111"
| "op_code Emit = 0b00011111"
| "op_code Add = 0b00100010"
| "op_code Neg = 0b00000010"
| "op_code Mul = 0b00100011"
| "op_code Inv = 0b00000011"
| "op_code Incr = 0b00000100"
| "op_code And = 0b00100100"
| "op_code Or = 0b00100101"
| "op_code NotOp = 0b00000101"
| "op_code Eq = 0b00100001"
| "op_code Eqz = 0b00000001"
| "op_code Expacc = 0b00001111"
| "op_code Ext2Mul = 0b00011001"
| "op_code U32split = 0b01001000"
| "op_code U32add = 0b01000000"
| "op_code (U32assert2 x) = 0b01001010"
| "op_code U32add3 = 0b01001100"
| "op_code U32sub = 0b01000010"
| "op_code U32mul = 0b01000100"
| "op_code U32madd = 0b01001110"
| "op_code U32div = 0b01000110"
| "op_code U32and = 0b00100110"
| "op_code U32xor = 0b00100111"
| "op_code Pad = 0b00110000"
| "op_code Drop = 0b00101001"
| "op_code Dup0 = 0b00110001"
| "op_code Dup1 = 0b00110010"
| "op_code Dup2 = 0b00110011"
| "op_code Dup3 = 0b00110100"
| "op_code Dup4 = 0b00110101"
| "op_code Dup5 = 0b00110110"
| "op_code Dup6 = 0b00110111"
| "op_code Dup7 = 0b00111000"
| "op_code Dup9 = 0b00111001"
| "op_code Dup11 = 0b00111010"
| "op_code Dup13 = 0b00111011"
| "op_code Dup15 = 0b00111100"
| "op_code Swap = 0b00001000"
| "op_code SwapW = 0b00011000"
| "op_code SwapW2 = 0b00011100"
| "op_code SwapW3 = 0b00011101"
| "op_code SwapDW = 0b00011110"
| "op_code MovUp2 = 0b00001010"
| "op_code MovUp3 = 0b00001100"
| "op_code MovUp4 = 0b00010000"
| "op_code MovUp5 = 0b00010010"
| "op_code MovUp6 = 0b00010100"
| "op_code MovUp7 = 0b00010110"
| "op_code MovUp8 = 0b00011010"
| "op_code MovDn2 = 0b00001011"
| "op_code MovDn3 = 0b00001101"
| "op_code MovDn4 = 0b00010001"
| "op_code MovDn5 = 0b00010011"
| "op_code MovDn6 = 0b00010101"
| "op_code MovDn7 = 0b00010111"
| "op_code MovDn8 = 0b00011011"
| "op_code CSwap = 0b00101010"
| "op_code CSwapW = 0b00101011"
| "op_code (Push x) = 0b01011011"
| "op_code AdvPop = 0b00111101"
| "op_code AdvPopW = 0b00001110"
| "op_code MLoadW = 0b00101100"
| "op_code MStoreW = 0b00101110"
| "op_code MLoad = 0b00000111"
| "op_code MStore = 0b00101101"
| "op_code MStream = 0b01010011"
| "op_code Pipe = 0b01010010"
| "op_code CryptoStream = 0b01100100"
| "op_code HPerm = 0b01010000"
| "op_code (MpVerify x) = 0b01010001"
| "op_code MrUpdate = 0b01100000"
| "op_code FriE2F4 = 0b00101000"
| "op_code HornerBase = 0b01011001"
| "op_code HornerExt = 0b01011010"
| "op_code EvalCircuit = 0b01011101"
| "op_code LogDeferred = 0b01011110"

definition imm_value :: "operation \<Rightarrow> felt option" where
  "imm_value op = (case op of Push imm \<Rightarrow> Some imm | _ \<Rightarrow> None)"

definition increments_stack_size :: "operation \<Rightarrow> bool" where
  "increments_stack_size op = (case op of
    Push _ \<Rightarrow> True
  | Pad \<Rightarrow> True
  | Dup0 \<Rightarrow> True
  | Dup1 \<Rightarrow> True
  | Dup2 \<Rightarrow> True
  | Dup3 \<Rightarrow> True
  | Dup4 \<Rightarrow> True
  | Dup5 \<Rightarrow> True
  | Dup6 \<Rightarrow> True
  | Dup7 \<Rightarrow> True
  | Dup9 \<Rightarrow> True
  | Dup11 \<Rightarrow> True
  | Dup13 \<Rightarrow> True
  | Dup15 \<Rightarrow> True
  | U32split \<Rightarrow> True
  | SDepth \<Rightarrow> True
  | Clk \<Rightarrow> True
  | AdvPop \<Rightarrow> True
  | _ \<Rightarrow> False)"

definition decrements_stack_size :: "operation \<Rightarrow> bool" where
  "decrements_stack_size op = (case op of
    Drop \<Rightarrow> True
  | Assert _ \<Rightarrow> True
  | Add \<Rightarrow> True
  | Mul \<Rightarrow> True
  | And \<Rightarrow> True
  | Or \<Rightarrow> True
  | Eq \<Rightarrow> True
  | U32add3 \<Rightarrow> True
  | U32madd \<Rightarrow> True
  | U32and \<Rightarrow> True
  | U32xor \<Rightarrow> True
  | CSwap \<Rightarrow> True
  | CSwapW \<Rightarrow> True
  | MLoadW \<Rightarrow> True
  | MStoreW \<Rightarrow> True
  | MStore \<Rightarrow> True
  | FriE2F4 \<Rightarrow> True
  | _ \<Rightarrow> False)"

end
