(* ===== verification/Processor_If.thy ===== *)
theory Processor_If
  imports Vm_Types
begin

text \<open>
  The traits of \<open>processor/src/processor.rs\<close>. A trait is the record of its methods over
  the state \<open>'p\<close> of the type that implements it; a \<open>&mut self\<close> method returns the updated
  state. The operations of the virtual machine are written once against these records, as the
  Rust handlers are generic in \<open>P: Processor\<close>, and are run both by the fast processor and by
  the reference machine on lists. The tracer is a pure observer (it receives copies and returns
  nothing the handlers use), so its calls are not part of the model.
\<close>

section \<open>The operand stack\<close>

record 'p stack_interface =
  stk_get :: "'p \<Rightarrow> nat \<Rightarrow> felt exec"
  stk_get_word :: "'p \<Rightarrow> nat \<Rightarrow> qword exec"
  stk_depth :: "'p \<Rightarrow> u32 exec"
  stk_set :: "'p \<Rightarrow> nat \<Rightarrow> felt \<Rightarrow> 'p exec"
  stk_set_word :: "'p \<Rightarrow> nat \<Rightarrow> qword \<Rightarrow> 'p exec"
  stk_swap :: "'p \<Rightarrow> nat \<Rightarrow> nat \<Rightarrow> 'p exec"
  stk_swapw_nth :: "'p \<Rightarrow> nat \<Rightarrow> 'p exec"
  stk_rotate_left :: "'p \<Rightarrow> nat \<Rightarrow> 'p exec"
  stk_rotate_right :: "'p \<Rightarrow> nat \<Rightarrow> 'p exec"
  stk_increment_size :: "'p \<Rightarrow> 'p exec"
  stk_decrement_size :: "'p \<Rightarrow> 'p exec"
  stk_start_context :: "'p \<Rightarrow> 'p exec"
  stk_restore_context :: "'p \<Rightarrow> 'p exec"

text \<open>The provided method \<open>get_double_word\<close>: eight reads.\<close>

definition stk_get_double_word ::
    "'p stack_interface \<Rightarrow> 'p \<Rightarrow> nat \<Rightarrow> (qword \<times> qword) exec" where
  "stk_get_double_word S p i =
    bindO (stk_get S p i) (\<lambda>a0. bindO (stk_get S p (i + 1)) (\<lambda>a1.
    bindO (stk_get S p (i + 2)) (\<lambda>a2. bindO (stk_get S p (i + 3)) (\<lambda>a3.
    bindO (stk_get S p (i + 4)) (\<lambda>a4. bindO (stk_get S p (i + 5)) (\<lambda>a5.
    bindO (stk_get S p (i + 6)) (\<lambda>a6. bindO (stk_get S p (i + 7)) (\<lambda>a7.
      Ok (QWord a0 a1 a2 a3, QWord a4 a5 a6 a7)))))))))"

section \<open>System registers, advice, memory, hasher\<close>

record 'p system_interface =
  sys_caller_hash :: "'p \<Rightarrow> qword"
  sys_clock :: "'p \<Rightarrow> row_index"
  sys_ctx :: "'p \<Rightarrow> context_id"
  sys_deferred_root :: "'p \<Rightarrow> qword"
  sys_set_caller_hash :: "'p \<Rightarrow> qword \<Rightarrow> 'p"
  sys_set_ctx :: "'p \<Rightarrow> context_id \<Rightarrow> 'p"
  sys_increment_clock :: "'p \<Rightarrow> 'p"
  sys_log_deferred_statement :: "'p \<Rightarrow> qword \<Rightarrow> qword \<Rightarrow> 'p exec"
  sys_save_call_state :: "'p \<Rightarrow> 'p"
  sys_restore_call_state :: "'p \<Rightarrow> 'p exec"

record 'p advice_interface =
  adv_pop_stack :: "'p \<Rightarrow> (felt \<times> 'p) exec"
  adv_pop_stack_word :: "'p \<Rightarrow> (qword \<times> 'p) exec"
  adv_pop_stack_dword :: "'p \<Rightarrow> ((qword \<times> qword) \<times> 'p) exec"
  adv_get_merkle_path :: "'p \<Rightarrow> qword \<Rightarrow> felt \<Rightarrow> felt \<Rightarrow> merkle_path option exec"
  adv_update_merkle_node ::
    "'p \<Rightarrow> qword \<Rightarrow> felt \<Rightarrow> felt \<Rightarrow> qword \<Rightarrow> (merkle_path option \<times> 'p) exec"

record 'p memory_interface =
  mem_read_element :: "'p \<Rightarrow> context_id \<Rightarrow> felt \<Rightarrow> felt exec"
  mem_read_word :: "'p \<Rightarrow> context_id \<Rightarrow> felt \<Rightarrow> row_index \<Rightarrow> qword exec"
  mem_write_element :: "'p \<Rightarrow> context_id \<Rightarrow> felt \<Rightarrow> felt \<Rightarrow> 'p exec"
  mem_write_word :: "'p \<Rightarrow> context_id \<Rightarrow> felt \<Rightarrow> row_index \<Rightarrow> qword \<Rightarrow> 'p exec"

record 'p hasher_interface =
  hsh_permute :: "'p \<Rightarrow> hasher_state \<Rightarrow> (felt \<times> hasher_state) exec"
  hsh_verify_merkle_root ::
    "'p \<Rightarrow> qword \<Rightarrow> qword \<Rightarrow> merkle_path option \<Rightarrow> felt \<Rightarrow> operation_error \<Rightarrow> felt exec"
  hsh_update_merkle_root ::
    "'p \<Rightarrow> qword \<Rightarrow> qword \<Rightarrow> qword \<Rightarrow> merkle_path option \<Rightarrow> felt \<Rightarrow> operation_error
      \<Rightarrow> (felt \<times> qword) exec"

record 'p processor =
  stack :: "'p stack_interface"
  system :: "'p system_interface"
  advice_provider :: "'p advice_interface"
  memory :: "'p memory_interface"
  hasher :: "'p hasher_interface"

end
