(* ===== verification/Memory.thy ===== *)
theory Memory
  imports Vm_Types "HOL-Library.Finite_Map" "HOL-Library.Product_Lexorder"
begin

text \<open>
  The random access memory of \<open>processor/src/fast/memory.rs\<close>: a map from a context and a
  word-aligned address to a word, with a bound on the number of words. The memory a program sees
  is a function from a context and an address to an element, \<open>peek\<close>; the locale \<open>ram\<close> states what
  every operation does to it, and the interpretation at the end of the theory discharges it.
\<close>

section \<open>State and operations\<close>

record memory =
  mem_map :: "(context_id \<times> u32, qword) fmap"
  max_entries :: nat

definition memory_new :: "nat \<Rightarrow> memory" where
  "memory_new max_elements = \<lparr>mem_map = fmempty, max_entries = div_ceil max_elements WORD_SIZE\<rparr>"

definition set_max_elements :: "memory \<Rightarrow> nat \<Rightarrow> memory" where
  "set_max_elements m max_elements = m\<lparr>max_entries := div_ceil max_elements WORD_SIZE\<rparr>"

definition clean_addr :: "felt \<Rightarrow> (memory_error, u32) outcome" where
  "clean_addr a =
    (let addr = as_canonical_u64 a in
     if unat addr < 2 ^ 32 then Ok (ucast addr) else Err (AddressOutOfBounds addr))"

definition split_addr :: "u32 \<Rightarrow> u32 \<times> u32" where
  "split_addr addr = (let idx = addr mod 4 in (addr - idx, idx))"

definition enforce_word_aligned_addr :: "context_id \<Rightarrow> u32 \<Rightarrow> (memory_error, u32) outcome" where
  "enforce_word_aligned_addr ctx addr =
    (if addr mod 4 \<noteq> 0 then Err (UnalignedWordAccess addr ctx) else Ok addr)"

definition max_element_limit :: "memory \<Rightarrow> nat" where
  "max_element_limit m = min (max_entries m * WORD_SIZE) usize_max"

definition read_element_impl :: "memory \<Rightarrow> context_id \<Rightarrow> u32 \<Rightarrow> felt option" where
  "read_element_impl m ctx addr =
    (let (word_addr, idx) = split_addr addr in
     map_option (\<lambda>w. word_get w (unat idx)) (fmlookup (mem_map m) (ctx, word_addr)))"

definition read_word_impl ::
    "memory \<Rightarrow> context_id \<Rightarrow> u32 \<Rightarrow> (memory_error, qword option) outcome" where
  "read_word_impl m ctx addr =
    bindO (enforce_word_aligned_addr ctx addr) (\<lambda>addr. Ok (fmlookup (mem_map m) (ctx, addr)))"

definition read_element :: "memory \<Rightarrow> context_id \<Rightarrow> felt \<Rightarrow> (memory_error, felt) outcome" where
  "read_element m ctx addr =
    bindO (clean_addr addr) (\<lambda>addr.
      Ok (case read_element_impl m ctx addr of Some x \<Rightarrow> x | None \<Rightarrow> 0))"

definition read_word :: "memory \<Rightarrow> context_id \<Rightarrow> felt \<Rightarrow> (memory_error, qword) outcome" where
  "read_word m ctx addr =
    bindO (clean_addr addr) (\<lambda>addr. bindO (read_word_impl m ctx addr) (\<lambda>w.
      Ok (case w of Some w \<Rightarrow> w | None \<Rightarrow> EMPTY_WORD)))"

text \<open>Growing the map beyond \<open>max_entries\<close> is refused; changing an entry never is.\<close>

definition would_exceed :: "memory \<Rightarrow> context_id \<times> u32 \<Rightarrow> bool" where
  "would_exceed m k \<longleftrightarrow> k |\<notin>| fmdom (mem_map m) \<and> fcard (fmdom (mem_map m)) \<ge> max_entries m"

definition write_element ::
    "memory \<Rightarrow> context_id \<Rightarrow> felt \<Rightarrow> felt \<Rightarrow> (memory_error, memory) outcome" where
  "write_element m ctx addr element =
    bindO (clean_addr addr) (\<lambda>addr.
      let (word_addr, idx) = split_addr addr in
      if would_exceed m (ctx, word_addr)
      then Err (MemoryElementLimitExceeded ctx word_addr (max_element_limit m))
      else
        let word = (case fmlookup (mem_map m) (ctx, word_addr) of
                      Some w \<Rightarrow> word_set w (unat idx) element
                    | None \<Rightarrow> word_set EMPTY_WORD (unat idx) element)
        in Ok (m\<lparr>mem_map := fmupd (ctx, word_addr) word (mem_map m)\<rparr>))"

definition write_word ::
    "memory \<Rightarrow> context_id \<Rightarrow> felt \<Rightarrow> qword \<Rightarrow> (memory_error, memory) outcome" where
  "write_word m ctx addr word =
    bindO (clean_addr addr) (\<lambda>addr. bindO (enforce_word_aligned_addr ctx addr) (\<lambda>addr.
      if would_exceed m (ctx, addr)
      then Err (MemoryElementLimitExceeded ctx addr (max_element_limit m))
      else Ok (m\<lparr>mem_map := fmupd (ctx, addr) word (mem_map m)\<rparr>)))"

text \<open>The elements of a context, word by word in the order of the addresses.\<close>

definition get_memory_state :: "memory \<Rightarrow> context_id \<Rightarrow> (u32 \<times> felt) list" where
  "get_memory_state m ctx =
    concat (map (\<lambda>(c, addr).
        let word = the (fmlookup (mem_map m) (c, addr)) in
        [(addr, word_get word 0), (addr + 1, word_get word 1),
         (addr + 2, word_get word 2), (addr + 3, word_get word 3)])
      (filter (\<lambda>(c, addr). c = ctx) (sorted_list_of_fset (fmdom (mem_map m)))))"

section \<open>Addresses\<close>

lemma clean_addr_from_u32 [simp]: "clean_addr (from_u32 a) = Ok a"
  using unat_u32_less [of a]
  by (simp add: clean_addr_def Let_def word_unat_eq_iff unsigned_ucast_eq take_bit_eq_mod)

lemma clean_addr_Ok: "clean_addr x = Ok a \<longleftrightarrow> x = from_u32 a"
proof
  assume "clean_addr x = Ok a"
  then have "val x < 4294967296" "a = ucast (as_canonical_u64 x)"
    by (auto simp: clean_addr_def Let_def split: if_splits)
  then have "val (from_u32 a) = val x"
    by (simp add: unsigned_ucast_eq take_bit_eq_mod)
  then show "x = from_u32 a"
    by (metis val_inject)
qed simp

lemma clean_addr_cases:
  obtains (bad) "val x \<ge> 2 ^ 32" "clean_addr x = Err (AddressOutOfBounds (as_canonical_u64 x))"
    | (ok) a where "x = from_u32 a" "clean_addr x = Ok a"
proof (cases "val x < 2 ^ 32")
  case True
  then have "clean_addr x = Ok (ucast (as_canonical_u64 x))"
    by (simp add: clean_addr_def Let_def)
  with clean_addr_Ok ok show ?thesis by blast
next
  case False
  then show ?thesis
    by (intro bad) (auto simp: clean_addr_def Let_def)
qed

lemma unat_mod_4: "unat ((a :: u32) mod 4) = unat a mod 4"
  by (simp add: unat_mod)

lemma unat_split_addr:
  "unat (fst (split_addr a)) = 4 * (unat a div 4)" "unat (snd (split_addr a)) = unat a mod 4"
proof -
  have "a mod 4 \<le> a"
    by (simp add: word_le_nat_alt unat_mod_4)
  then have "unat (a - a mod 4) = unat a - unat a mod 4"
    by (simp add: unat_sub unat_mod_4)
  then show "unat (fst (split_addr a)) = 4 * (unat a div 4)"
    by (simp add: split_addr_def Let_def minus_mod_eq_mult_div)
qed (simp add: split_addr_def Let_def unat_mod_4)

lemma split_addr_inject:
  "split_addr a = split_addr b \<longleftrightarrow> a = b"
proof
  assume "split_addr a = split_addr b"
  then have "4 * (unat a div 4) + unat a mod 4 = 4 * (unat b div 4) + unat b mod 4"
    using unat_split_addr [of a] unat_split_addr [of b] by simp
  then show "a = b"
    by (simp add: word_unat_eq_iff)
qed simp

lemma snd_split_addr_less: "unat (snd (split_addr a)) < 4"
  by (simp add: unat_split_addr)

section \<open>The memory a program sees\<close>

definition peek :: "memory \<Rightarrow> context_id \<Rightarrow> u32 \<Rightarrow> felt" where
  "peek m ctx a =
    (case fmlookup (mem_map m) (ctx, fst (split_addr a)) of
       None \<Rightarrow> 0 | Some w \<Rightarrow> word_get w (unat (snd (split_addr a))))"

definition wf_memory :: "memory \<Rightarrow> bool" where
  "wf_memory m \<longleftrightarrow>
    fcard (fmdom (mem_map m)) \<le> max_entries m \<and> fBall (fmdom (mem_map m)) (\<lambda>(c, a). a mod 4 = 0)"

definition aligned :: "u32 \<Rightarrow> bool" where
  "aligned a \<longleftrightarrow> a mod 4 = 0"

lemma word_get_EMPTY_WORD [simp]: "i < 4 \<Longrightarrow> word_get EMPTY_WORD i = 0"
  by (auto simp: EMPTY_WORD_def less_4_cases)

lemma aligned_split:
  assumes "aligned a" "i < 4"
  shows "split_addr (a + word_of_nat i) = (a, word_of_nat i)"
proof -
  have a: "unat a mod 4 = 0"
    using assms(1) unat_mod_4 [of a] by (simp add: aligned_def)
  have "unat a + i < 4294967296"
    using a assms(2) unat_u32_less [of a] by presburger
  then have "unat (a + word_of_nat i) = unat a + i"
    using assms(2) by (simp add: unat_word_ariths unat_of_nat)
  then have "unat (fst (split_addr (a + word_of_nat i))) = unat a"
    "unat (snd (split_addr (a + word_of_nat i))) = i"
    using a assms(2) unfolding unat_split_addr by presburger+
  moreover have "unat (word_of_nat i :: u32) = i"
    using assms(2) by (simp add: unat_of_nat)
  ultimately show ?thesis
    by (simp add: prod_eq_iff word_unat_eq_iff)
qed

lemma aligned_fst_split: "aligned (fst (split_addr a))"
  using unat_split_addr(1) [of a] unat_mod_4 [of "fst (split_addr a)"]
  by (simp add: aligned_def word_unat_eq_iff)

lemma peek_aligned:
  assumes "aligned a" "i < 4"
  shows "peek m ctx (a + word_of_nat i) =
    word_get (case fmlookup (mem_map m) (ctx, a) of None \<Rightarrow> EMPTY_WORD | Some w \<Rightarrow> w) i"
proof -
  have "unat (word_of_nat i :: u32) = i"
    using assms(2) by (simp add: unat_of_nat)
  then show ?thesis
    using assms by (simp add: peek_def aligned_split split: option.split)
qed

lemma peek_fmupd [simp]:
  "peek (m\<lparr>mem_map := fmupd (c, k) w (mem_map m)\<rparr>) d b =
    (if d = c \<and> fst (split_addr b) = k then word_get w (unat (snd (split_addr b))) else peek m d b)"
  by (simp add: peek_def)

lemma peek_word_get:
  "peek m c b = word_get (case fmlookup (mem_map m) (c, fst (split_addr b)) of
    None \<Rightarrow> EMPTY_WORD | Some w \<Rightarrow> w) (unat (snd (split_addr b)))"
  using snd_split_addr_less [of b] by (simp add: peek_def split: option.split)

section \<open>The contract\<close>

text \<open>
  What the processor relies on: reads return what the memory holds, a write changes exactly the
  addressed element or word of the addressed context, and an address beyond 32 bits or an unaligned
  word is an error.
\<close>

locale ram =
  fixes look :: "'m \<Rightarrow> context_id \<Rightarrow> u32 \<Rightarrow> felt"
    and ok :: "'m \<Rightarrow> bool"
    and rd :: "'m \<Rightarrow> context_id \<Rightarrow> felt \<Rightarrow> (memory_error, felt) outcome"
    and rdw :: "'m \<Rightarrow> context_id \<Rightarrow> felt \<Rightarrow> (memory_error, qword) outcome"
    and wr :: "'m \<Rightarrow> context_id \<Rightarrow> felt \<Rightarrow> felt \<Rightarrow> (memory_error, 'm) outcome"
    and wrw :: "'m \<Rightarrow> context_id \<Rightarrow> felt \<Rightarrow> qword \<Rightarrow> (memory_error, 'm) outcome"
  assumes rd_spec: "rd m c (from_u32 a) = Ok (look m c a)"
    and rdw_spec: "aligned a \<Longrightarrow>
      rdw m c (from_u32 a) = Ok (QWord (look m c a) (look m c (a + 1)) (look m c (a + 2)) (look m c (a + 3)))"
    and wr_spec: "wr m c (from_u32 a) x = Ok m' \<Longrightarrow>
      look m' d b = (if d = c \<and> b = a then x else look m d b)"
    and wrw_spec: "wrw m c (from_u32 a) w = Ok m' \<Longrightarrow>
      look m' d b =
        (if d = c \<and> fst (split_addr b) = a then word_get w (unat (snd (split_addr b))) else look m d b)"
    and unaligned: "\<not> aligned a \<Longrightarrow>
      rdw m c (from_u32 a) = Err (UnalignedWordAccess a c) \<and>
      wrw m c (from_u32 a) w = Err (UnalignedWordAccess a c)"
    and wr_ok: "ok m \<Longrightarrow> wr m c y x = Ok m' \<Longrightarrow> ok m'"
    and wrw_ok: "ok m \<Longrightarrow> wrw m c y w = Ok m' \<Longrightarrow> ok m'"
    and oob: "2 ^ 32 \<le> val y \<Longrightarrow>
      rd m c y = Err (AddressOutOfBounds (as_canonical_u64 y)) \<and>
      rdw m c y = Err (AddressOutOfBounds (as_canonical_u64 y)) \<and>
      wr m c y x = Err (AddressOutOfBounds (as_canonical_u64 y)) \<and>
      wrw m c y w = Err (AddressOutOfBounds (as_canonical_u64 y))"
begin

lemma addr_of_ok:
  assumes "wr m c y x = Ok m' \<or> wrw m c y w = Ok m'"
  obtains a where "y = from_u32 a"
  using assms oob [of y m c x w] by (cases rule: clean_addr_cases [of y]) auto

lemma read_after_write:
  assumes "wr m c y x = Ok m'"
  shows "rd m' c y = Ok x"
proof -
  obtain a where a: "y = from_u32 a"
    using assms by (blast intro: addr_of_ok)
  then show ?thesis
    using wr_spec [of m c a x m' c a] assms rd_spec by simp
qed

lemma read_other:
  assumes w: "wr m c y x = Ok m'" and other: "d \<noteq> c \<or> z \<noteq> y"
  shows "rd m' d z = rd m d z"
proof (cases rule: clean_addr_cases [of z])
  case bad
  then show ?thesis
    using oob [of z] by metis
next
  case (ok b)
  obtain a where "y = from_u32 a"
    using w by (blast intro: addr_of_ok)
  then show ?thesis
    using wr_spec [of m c a x m' d b] w other ok rd_spec by auto
qed

lemma read_word_after_write_word:
  assumes "wrw m c y w = Ok m'"
  shows "rdw m' c y = Ok w"
proof -
  obtain a where y: "y = from_u32 a"
    using assms by (blast intro: addr_of_ok)
  then have al: "aligned a" using assms unaligned [of a m c w] by auto
  have "look m' c (a + word_of_nat i) = word_get w i" if "i < 4" for i
  proof -
    have "unat (word_of_nat i :: u32) = i" using that by (simp add: unat_of_nat)
    then show ?thesis
      using wrw_spec [of m c a w m' c "a + word_of_nat i"] assms y aligned_split [OF al that] by simp
  qed
  from this [of 0] this [of 1] this [of 2] this [of 3]
  show ?thesis
    using rdw_spec [OF al, of m' c] y by (cases w) simp
qed

lemma write_word_other_context:
  assumes w: "wrw m c y w = Ok m'" and "d \<noteq> c"
  shows "rd m' d z = rd m d z" "rdw m' d z = rdw m d z"
proof -
  obtain a where y: "y = from_u32 a"
    using w by (blast intro: addr_of_ok)
  have same: "look m' d b = look m d b" for b
    using wrw_spec [of m c a w m' d b] w y assms(2) by simp
  show "rd m' d z = rd m d z"
    by (cases rule: clean_addr_cases [of z]) (use oob [of z] same rd_spec in \<open>metis+\<close>)
  show "rdw m' d z = rdw m d z"
  proof (cases rule: clean_addr_cases [of z])
    case bad
    then show ?thesis using oob [of z] by metis
  next
    case (ok b)
    then show ?thesis
      using rdw_spec [of b] unaligned [of b] same by (cases "aligned b") simp_all
  qed
qed

end

section \<open>The memory satisfies it\<close>

lemma enforce_aligned: "enforce_word_aligned_addr c a = (if aligned a then Ok a else Err (UnalignedWordAccess a c))"
  by (simp add: enforce_word_aligned_addr_def aligned_def)

lemma write_element_Ok:
  "write_element m c (from_u32 a) x = Ok m' \<longleftrightarrow>
    \<not> would_exceed m (c, fst (split_addr a)) \<and>
    m' = m\<lparr>mem_map := fmupd (c, fst (split_addr a))
      (word_set (case fmlookup (mem_map m) (c, fst (split_addr a)) of None \<Rightarrow> EMPTY_WORD | Some w \<Rightarrow> w)
        (unat (snd (split_addr a))) x) (mem_map m)\<rparr>"
  by (cases "split_addr a") (auto simp: write_element_def Let_def split: option.split)

lemma write_word_Ok:
  "write_word m c (from_u32 a) w = Ok m' \<longleftrightarrow>
    aligned a \<and> \<not> would_exceed m (c, a) \<and> m' = m\<lparr>mem_map := fmupd (c, a) w (mem_map m)\<rparr>"
  by (auto simp: write_word_def enforce_aligned)

lemma would_exceed_wf:
  assumes "wf_memory m" "\<not> would_exceed m (c, a)" "aligned a"
  shows "wf_memory (m\<lparr>mem_map := fmupd (c, a) w (mem_map m)\<rparr>)"
proof -
  have "fcard (finsert (c, a) (fmdom (mem_map m))) \<le> max_entries m"
    using assms(1,2) by (auto simp: wf_memory_def would_exceed_def fcard_finsert_if)
  then show ?thesis
    using assms by (simp add: wf_memory_def aligned_def)
qed

interpretation mem: ram peek wf_memory read_element read_word write_element write_word
proof
  show "read_element m c (from_u32 a) = Ok (peek m c a)" for m c a
    by (simp add: read_element_def read_element_impl_def peek_def case_prod_beta
        option.case_distrib [of Ok] split: option.split)
  show "read_word m c (from_u32 a) =
      Ok (QWord (peek m c a) (peek m c (a + 1)) (peek m c (a + 2)) (peek m c (a + 3)))"
    if al: "aligned a" for m c a
  proof -
    let ?w = "case fmlookup (mem_map m) (c, a) of None \<Rightarrow> EMPTY_WORD | Some w \<Rightarrow> w"
    have "QWord (peek m c a) (peek m c (a + 1)) (peek m c (a + 2)) (peek m c (a + 3)) = ?w"
      using peek_aligned [OF al, of 0 m c] peek_aligned [OF al, of 1 m c]
        peek_aligned [OF al, of 2 m c] peek_aligned [OF al, of 3 m c]
      by (cases ?w) simp
    then show ?thesis
      using al by (simp add: read_word_def read_word_impl_def enforce_aligned)
  qed
  show "peek m' d b = (if d = c \<and> b = a then x else peek m d b)"
    if "write_element m c (from_u32 a) x = Ok m'" for m c a x m' d b
  proof -
    have eq: "b = a \<longleftrightarrow> fst (split_addr b) = fst (split_addr a) \<and>
        unat (snd (split_addr a)) = unat (snd (split_addr b))"
      using split_addr_inject [of a b] by (metis prod_eq_iff word_unat_eq_iff)
    from that have m': "m' = m\<lparr>mem_map := fmupd (c, fst (split_addr a))
      (word_set (case fmlookup (mem_map m) (c, fst (split_addr a)) of None \<Rightarrow> EMPTY_WORD | Some w \<Rightarrow> w)
        (unat (snd (split_addr a))) x) (mem_map m)\<rparr>"
      by (simp only: write_element_Ok)
    show ?thesis
      unfolding m' peek_fmupd eq
      using snd_split_addr_less [of a] snd_split_addr_less [of b]
      by (simp add: peek_word_get)
  qed
  show "peek m' d b =
      (if d = c \<and> fst (split_addr b) = a then word_get w (unat (snd (split_addr b))) else peek m d b)"
    if "write_word m c (from_u32 a) w = Ok m'" for m c a w m' d b
    using that by (auto simp: write_word_Ok)
  show "read_word m c (from_u32 a) = Err (UnalignedWordAccess a c) \<and>
      write_word m c (from_u32 a) w = Err (UnalignedWordAccess a c)"
    if "\<not> aligned a" for a m c w
    using that by (simp add: read_word_def read_word_impl_def write_word_def enforce_aligned)
  show "wf_memory m'" if wf: "wf_memory m" and w: "write_element m c y x = Ok m'" for m c y x m'
  proof (cases rule: clean_addr_cases [of y])
    case bad
    with w show ?thesis by (simp add: write_element_def)
  next
    case (ok a)
    with w wf show ?thesis
      by (auto simp: write_element_Ok intro!: would_exceed_wf aligned_fst_split)
  qed
  show "wf_memory m'" if wf: "wf_memory m" and w: "write_word m c y x = Ok m'" for m c y x m'
  proof (cases rule: clean_addr_cases [of y])
    case bad
    with w show ?thesis by (simp add: write_word_def)
  next
    case (ok a)
    with w wf show ?thesis
      by (auto simp: write_word_Ok intro!: would_exceed_wf)
  qed
  show "read_element m c y = Err (AddressOutOfBounds (as_canonical_u64 y)) \<and>
      read_word m c y = Err (AddressOutOfBounds (as_canonical_u64 y)) \<and>
      write_element m c y x = Err (AddressOutOfBounds (as_canonical_u64 y)) \<and>
      write_word m c y w = Err (AddressOutOfBounds (as_canonical_u64 y))"
    if "2 ^ 32 \<le> val y" for y m c x w
    using that
    by (simp add: read_element_def read_word_def write_element_def write_word_def clean_addr_def Let_def)
qed

section \<open>Correctness\<close>

text \<open>C23: A successful write of an element is what a later read of that address in that context returns, and
  every other address, in this context and in the others, reads as before.\<close>

theorem memory_element_write:
  "write_element m c y x = Ok m' \<Longrightarrow>
    read_element m' d z = (if d = c \<and> z = y then Ok x else read_element m d z)"
  using mem.read_after_write mem.read_other by (cases "d = c \<and> z = y") auto

theorem memory_element_write_witness:
  "\<exists>m. write_element (memory_new 8) 1 (from_u32 5) 7 = Ok m \<and> read_element m 1 (from_u32 5) = Ok 7 \<and>
    read_element m 2 (from_u32 5) = Ok 0"
proof -
  have "\<exists>m. write_element (memory_new 8) 1 (from_u32 5) 7 = Ok m"
    by (simp add: write_element_Ok memory_new_def would_exceed_def div_ceil_def WORD_SIZE_def fcard.rep_eq)
  then obtain m where m: "write_element (memory_new 8) 1 (from_u32 5) 7 = Ok m" ..
  then show ?thesis
    using memory_element_write [OF m, of 1 "from_u32 5"] memory_element_write [OF m, of 2 "from_u32 5"]
      mem.rd_spec [of "memory_new 8" 2 5]
    by (simp add: peek_def memory_new_def)
qed

text \<open>C24: A successful write of a word is what a later read of that word returns, the memory of every other
  context is untouched, and the bound on the number of words and the alignment of their addresses are kept by
  both kinds of writes.\<close>

theorem memory_word_write:
  assumes "wf_memory m" "write_word m c y w = Ok m'"
  shows "read_word m' c y = Ok w \<and> wf_memory m' \<and>
    (\<forall>d z. d \<noteq> c \<longrightarrow> read_word m' d z = read_word m d z \<and> read_element m' d z = read_element m d z) \<and>
    (\<forall>d z x m''. write_element m' d z x = Ok m'' \<longrightarrow> wf_memory m'')"
  using mem.wrw_ok [OF assms] mem.wr_ok mem.read_word_after_write_word [OF assms(2)]
    mem.write_word_other_context [OF assms(2)]
  by blast

theorem memory_word_write_witness:
  "\<exists>m. write_word (memory_new 8) 1 (from_u32 4) (QWord 1 2 3 4) = Ok m \<and>
    read_word m 1 (from_u32 4) = Ok (QWord 1 2 3 4) \<and> wf_memory m"
proof -
  have wf: "wf_memory (memory_new 8)"
    by (simp add: wf_memory_def memory_new_def fcard.rep_eq)
  have "\<exists>m. write_word (memory_new 8) 1 (from_u32 4) (QWord 1 2 3 4) = Ok m"
    by (simp add: write_word_Ok memory_new_def would_exceed_def div_ceil_def WORD_SIZE_def aligned_def fcard.rep_eq)
  then obtain m where m: "write_word (memory_new 8) 1 (from_u32 4) (QWord 1 2 3 4) = Ok m" ..
  then show ?thesis
    using memory_word_write [OF wf m] m by blast
qed

end
