(* ===== verification/Sponge.thy ===== *)
theory Sponge
  imports Vm_Types
begin

text \<open>
  The algebraic sponge of \<open>crates/crypto/src/hash/algebraic_sponge/mod.rs\<close>: hashing of
  field elements and of pairs of digests. The Poseidon2 permutation comes from Plonky3 and is the
  parameter \<open>perm\<close> of every definition.
\<close>

section \<open>Sponge states\<close>

text \<open>Writing rate element \<open>i\<close> (of eight) of a state.\<close>

definition rate_set :: "hasher_state \<Rightarrow> nat \<Rightarrow> felt \<Rightarrow> hasher_state" where
  "rate_set st i x =
    (case st of (r0, r1, cap) \<Rightarrow>
      if i < 4 then (word_set r0 i x, r1, cap) else (r0, word_set r1 (i - 4) x, cap))"

definition RATE_WIDTH :: nat where
  "RATE_WIDTH = 8"

definition digest_of :: "hasher_state \<Rightarrow> qword" where
  "digest_of st = fst st"

section \<open>Hashing\<close>

definition merge :: "(hasher_state \<Rightarrow> hasher_state) \<Rightarrow> qword \<Rightarrow> qword \<Rightarrow> qword" where
  "merge perm a b = digest_of (perm (a, b, EMPTY_WORD))"

definition merge_in_domain ::
    "(hasher_state \<Rightarrow> hasher_state) \<Rightarrow> qword \<Rightarrow> qword \<Rightarrow> felt \<Rightarrow> qword" where
  "merge_in_domain perm a b domain = digest_of (perm (a, b, QWord 0 domain 0 0))"

text \<open>The absorbing loop: element by element, with a permutation each time the rate is full.
  It returns the state and the number of elements not yet permuted.\<close>

fun absorb ::
    "(hasher_state \<Rightarrow> hasher_state) \<Rightarrow> nat \<Rightarrow> hasher_state \<Rightarrow> felt list \<Rightarrow> hasher_state \<times> nat" where
  "absorb perm i st [] = (st, i)"
| "absorb perm i st (x # xs) =
    (let st = rate_set st i x; i = i + 1 in
     if i mod RATE_WIDTH = 0 then absorb perm 0 (perm st) xs else absorb perm i st xs)"

text \<open>The padding loop: zeros up to the end of the rate.\<close>

function pad_rate :: "nat \<Rightarrow> hasher_state \<Rightarrow> hasher_state" where
  "pad_rate i st = (if i \<ge> RATE_WIDTH then st else pad_rate (i + 1) (rate_set st i 0))"
  by auto
termination
  by (relation "measure (\<lambda>(i, _). RATE_WIDTH - i)") auto

declare pad_rate.simps [simp del]

definition hash_elements_internal ::
    "(hasher_state \<Rightarrow> hasher_state) \<Rightarrow> felt list \<Rightarrow> hasher_state \<Rightarrow> qword" where
  "hash_elements_internal perm elements st =
    (case st of (r0, r1, cap) \<Rightarrow>
      let total_len = length elements;
          cap = word_set cap 0 (of_nat (total_len mod RATE_WIDTH));
          (st, i) = absorb perm 0 (r0, r1, cap) elements in
      if i > 0 then digest_of (perm (pad_rate i st))
      else if total_len = 0 \<and> word_get (snd (snd st)) 1 \<noteq> 0
      then (case st of (r0, r1, cap) \<Rightarrow> digest_of (perm (r0, r1, word_set cap 2 1)))
      else digest_of st)"

definition hash_elements :: "(hasher_state \<Rightarrow> hasher_state) \<Rightarrow> felt list \<Rightarrow> qword" where
  "hash_elements perm elements =
    hash_elements_internal perm elements (EMPTY_WORD, EMPTY_WORD, EMPTY_WORD)"

definition hash_elements_in_domain ::
    "(hasher_state \<Rightarrow> hasher_state) \<Rightarrow> felt list \<Rightarrow> felt \<Rightarrow> qword" where
  "hash_elements_in_domain perm elements domain =
    hash_elements_internal perm elements (EMPTY_WORD, EMPTY_WORD, word_set EMPTY_WORD 1 domain)"

definition merge_many :: "(hasher_state \<Rightarrow> hasher_state) \<Rightarrow> qword list \<Rightarrow> qword" where
  "merge_many perm ws = hash_elements perm (concat (map into_elements ws))"

section \<open>The sponge, block by block\<close>

text \<open>The reference: cut the input into blocks of eight, pad the last one with zeros, and
  overwrite the rate with each block before a permutation.\<close>

definition block_state :: "felt list \<Rightarrow> qword \<Rightarrow> hasher_state" where
  "block_state b cap =
    (QWord (b ! 0) (b ! 1) (b ! 2) (b ! 3), QWord (b ! 4) (b ! 5) (b ! 6) (b ! 7), cap)"

function absorb_blocks ::
    "(hasher_state \<Rightarrow> hasher_state) \<Rightarrow> hasher_state \<Rightarrow> felt list \<Rightarrow> hasher_state" where
  "absorb_blocks perm st xs =
    (if xs = [] then st
     else absorb_blocks perm
       (perm (block_state (take 8 (take 8 xs @ replicate 8 0)) (snd (snd st)))) (drop 8 xs))"
  by auto
termination
  by (relation "measure (\<lambda>(_, _, xs). length xs)") auto

declare absorb_blocks.simps [simp del]

lemma word_set_simps [simp]:
  "word_set (QWord a b c d) 0 x = QWord x b c d"
  "word_set (QWord a b c d) (Suc 0) x = QWord a x c d"
  "word_set (QWord a b c d) 2 x = QWord a b x d"
  "word_set (QWord a b c d) (Suc (Suc 0)) x = QWord a b x d"
  "word_set (QWord a b c d) 3 x = QWord a b c x"
  "word_set (QWord a b c d) (Suc (Suc (Suc 0))) x = QWord a b c x"
  by (simp_all add: word_set_def Let_def)

text \<open>Writing a list of rate elements from position \<open>i\<close>.\<close>

fun rate_write :: "nat \<Rightarrow> felt list \<Rightarrow> hasher_state \<Rightarrow> hasher_state" where
  "rate_write i [] st = st"
| "rate_write i (x # xs) st = rate_write (Suc i) xs (rate_set st i x)"

lemma absorb_partial:
  "i + length xs < 8 \<Longrightarrow> absorb perm i st xs = (rate_write i xs st, i + length xs)"
  by (induction xs arbitrary: i st) (auto simp: Let_def RATE_WIDTH_def)

lemma absorb_full:
  "xs \<noteq> [] \<Longrightarrow> i + length xs = 8 \<Longrightarrow>
    absorb perm i st (xs @ ys) = absorb perm 0 (perm (rate_write i xs st)) ys"
proof (induction xs arbitrary: i st)
  case (Cons x xs)
  then show ?case
    by (cases xs) (auto simp: Let_def RATE_WIDTH_def)
qed simp

lemma rate_write_append: "rate_write i (xs @ ys) st = rate_write (i + length xs) ys (rate_write i xs st)"
  by (induction xs arbitrary: i st) simp_all

lemma pad_rate_write: "i \<le> 8 \<Longrightarrow> pad_rate i st = rate_write i (replicate (8 - i) 0) st"
proof (induction "8 - i" arbitrary: i st)
  case 0
  then show ?case by (simp add: pad_rate.simps RATE_WIDTH_def)
next
  case (Suc n)
  then have i: "i < 8" "8 - i = Suc (8 - Suc i)" by simp_all
  moreover have "pad_rate (Suc i) (rate_set st i 0) =
      rate_write (Suc i) (replicate (8 - Suc i) 0) (rate_set st i 0)"
    using Suc by simp
  ultimately show ?case
    by (subst pad_rate.simps) (simp add: RATE_WIDTH_def)
qed

lemma rate_write_block:
  assumes "length b = 8"
  shows "rate_write 0 b (r0, r1, cap) = block_state b cap"
proof -
  obtain b0 b1 b2 b3 b4 b5 b6 b7 where b: "b = [b0, b1, b2, b3, b4, b5, b6, b7]"
    using assms by (auto simp: length_Suc_conv numeral_eq_Suc)
  show ?thesis
    by (cases r0; cases r1) (simp add: b rate_set_def block_state_def)
qed

text \<open>The loops of the code compute the block-wise sponge.\<close>

definition absorb_all ::
    "(hasher_state \<Rightarrow> hasher_state) \<Rightarrow> hasher_state \<Rightarrow> felt list \<Rightarrow> hasher_state" where
  "absorb_all perm st xs =
    (case absorb perm 0 st xs of (st, i) \<Rightarrow> if i > 0 then perm (pad_rate i st) else st)"

lemma absorb_all_blocks: "absorb_all perm st xs = absorb_blocks perm st xs"
proof (induction "length xs" arbitrary: xs st rule: less_induct)
  case less
  obtain r0 r1 cap where st: "st = (r0, r1, cap)" by (cases st)
  consider "xs = []" | "0 < length xs" "length xs < 8" | "8 \<le> length xs"
    by force
  then show ?case
  proof cases
    case 1
    then show ?thesis by (simp add: absorb_all_def absorb_blocks.simps)
  next
    case 2
    let ?b = "xs @ replicate (8 - length xs) 0"
    have "absorb_all perm st xs = perm (rate_write 0 ?b st)"
      using 2 absorb_partial [of 0 xs perm st]
      by (simp add: absorb_all_def pad_rate_write rate_write_append)
    also have "\<dots> = perm (block_state ?b cap)"
      using 2 by (simp add: st rate_write_block)
    also have "?b = take 8 (take 8 xs @ replicate 8 0)"
      using 2 by simp
    finally show ?thesis
      using 2 by (auto simp: st absorb_blocks.simps [of perm _ xs] absorb_blocks.simps [of perm _ "[]"])
  next
    case 3
    have "absorb perm 0 st (take 8 xs @ drop 8 xs) =
        absorb perm 0 (perm (rate_write 0 (take 8 xs) st)) (drop 8 xs)"
      using 3 by (intro absorb_full) auto
    then have "absorb_all perm st xs = absorb_all perm (perm (block_state (take 8 xs) cap)) (drop 8 xs)"
      using 3 by (simp add: absorb_all_def st rate_write_block)
    also have "\<dots> = absorb_blocks perm (perm (block_state (take 8 xs) cap)) (drop 8 xs)"
      using 3 by (intro less) simp
    finally show ?thesis
      using 3 by (subst absorb_blocks.simps) (auto simp: st)
  qed
qed

lemma hash_elements_internal_blocks:
  assumes "xs \<noteq> []"
  shows "hash_elements_internal perm xs (r0, r1, cap) =
    digest_of (absorb_blocks perm (r0, r1, word_set cap 0 (of_nat (length xs mod 8))) xs)"
  using assms
  by (auto simp: hash_elements_internal_def RATE_WIDTH_def Let_def split: prod.split
      simp flip: absorb_all_blocks simp: absorb_all_def)

section \<open>Correctness\<close>

text \<open>C35: The hash of a sequence of elements in a domain is the sponge over its blocks of eight, the last one
  padded with zeros, started from the capacity that holds the length modulo eight and the domain; the hash of
  the empty sequence is the zero word, or one permutation of the marked capacity when a domain is set.\<close>

theorem hash_elements_sponge:
  "hash_elements_in_domain perm xs d =
    digest_of (if xs = [] then if d = 0 then (EMPTY_WORD, EMPTY_WORD, EMPTY_WORD)
                               else perm (EMPTY_WORD, EMPTY_WORD, QWord 0 d 1 0)
               else absorb_blocks perm (EMPTY_WORD, EMPTY_WORD, QWord (of_nat (length xs mod 8)) d 0 0) xs)"
proof (cases "xs = []")
  case True
  then show ?thesis
    by (simp add: hash_elements_in_domain_def hash_elements_internal_def EMPTY_WORD_def word_set_def Let_def digest_of_def)
next
  case False
  then show ?thesis
    by (simp add: hash_elements_in_domain_def hash_elements_internal_blocks EMPTY_WORD_def word_set_def Let_def)
qed

end
