(* ===== verification/Merkle.thy ===== *)
theory Merkle
  imports Sponge "HOL-Library.Finite_Map"
begin

text \<open>
  Merkle trees as the virtual machine uses them: node indices
  (\<open>crates/crypto/src/merkle/index.rs\<close>), authentication paths
  (\<open>crates/crypto/src/merkle/path.rs\<close>) and the store of inner nodes
  (\<open>crates/crypto/src/merkle/store/mod.rs\<close>). A store whose entries are hashes of their
  children returns only paths that authenticate, and an update is visible under the new root.
\<close>

section \<open>Node indices\<close>

record node_index =
  ni_depth :: nat
  ni_position :: u64

text \<open>\<open>64 - position.leading_zeros()\<close>: the number of significant bits.\<close>

fun bit_length :: "nat \<Rightarrow> nat" where
  "bit_length n = (if n = 0 then 0 else Suc (bit_length (n div 2)))"

declare bit_length.simps [simp del]

definition node_index_new :: "nat \<Rightarrow> u64 \<Rightarrow> (merkle_error, node_index) outcome" where
  "node_index_new depth position =
    (if depth > 64 then Err (DepthTooBig (word_of_nat depth))
     else if bit_length (unat position) > depth then Err (InvalidNodeIndex depth position)
     else Ok \<lparr>ni_depth = depth, ni_position = position\<rparr>)"

definition node_index_from_elements :: "felt \<Rightarrow> felt \<Rightarrow> (merkle_error, node_index) outcome" where
  "node_index_from_elements depth position =
    (let depth = as_canonical_u64 depth in
     if unat depth > 255 then Err (DepthTooBig depth)
     else node_index_new (unat depth) (as_canonical_u64 position))"

definition node_index_root :: node_index where
  "node_index_root = \<lparr>ni_depth = 0, ni_position = 0\<rparr>"

definition is_position_odd :: "node_index \<Rightarrow> bool" where
  "is_position_odd idx \<longleftrightarrow> ni_position idx AND 1 = 1"

definition is_nth_bit_odd :: "node_index \<Rightarrow> nat \<Rightarrow> bool" where
  "is_nth_bit_odd idx n \<longleftrightarrow> drop_bit n (ni_position idx) AND 1 = 1"

definition build_node :: "node_index \<Rightarrow> qword \<Rightarrow> qword \<Rightarrow> qword \<times> qword" where
  "build_node idx slf sibling = (if is_position_odd idx then (sibling, slf) else (slf, sibling))"

definition move_up :: "node_index \<Rightarrow> node_index" where
  "move_up idx = \<lparr>ni_depth = ni_depth idx - 1, ni_position = drop_bit 1 (ni_position idx)\<rparr>"

definition sibling :: "node_index \<Rightarrow> node_index" where
  "sibling idx = idx\<lparr>ni_position := ni_position idx XOR 1\<rparr>"

definition left_child :: "node_index \<Rightarrow> node_index" where
  "left_child idx = \<lparr>ni_depth = ni_depth idx + 1, ni_position = push_bit 1 (ni_position idx)\<rparr>"

definition right_child :: "node_index \<Rightarrow> node_index" where
  "right_child idx = \<lparr>ni_depth = ni_depth idx + 1, ni_position = push_bit 1 (ni_position idx) + 1\<rparr>"

section \<open>Paths\<close>

text \<open>\<open>MerklePath::depth\<close> fails beyond 255 nodes, which \<open>MerklePath::new\<close> rules out.\<close>

definition path_depth :: "merkle_path \<Rightarrow> ('e, nat) outcome" where
  "path_depth path = (if length path \<le> 255 then Ok (length path) else Panic)"

text \<open>The fold of \<open>compute_root\<close>, with the index it moves up.\<close>

fun fold_path ::
    "(hasher_state \<Rightarrow> hasher_state) \<Rightarrow> node_index \<Rightarrow> qword \<Rightarrow> merkle_path \<Rightarrow> qword" where
  "fold_path perm idx node [] = node"
| "fold_path perm idx node (sib # path) =
    (case build_node idx node sib of (l, r) \<Rightarrow> fold_path perm (move_up idx) (merge perm l r) path)"

definition compute_root ::
    "(hasher_state \<Rightarrow> hasher_state) \<Rightarrow> merkle_path \<Rightarrow> u64 \<Rightarrow> qword \<Rightarrow> (merkle_error, qword) outcome" where
  "compute_root perm path index node =
    bindO (path_depth path) (\<lambda>d. bindO (node_index_new d index) (\<lambda>idx.
      Ok (fold_path perm idx node path)))"

definition path_verify ::
    "(hasher_state \<Rightarrow> hasher_state) \<Rightarrow> merkle_path \<Rightarrow> u64 \<Rightarrow> qword \<Rightarrow> qword \<Rightarrow> (merkle_error, unit) outcome"
  where
  "path_verify perm path index node root =
    bindO (compute_root perm path index node) (\<lambda>computed_root.
      if computed_root \<noteq> root then Err (ConflictingRoots root computed_root) else Ok ())"

record inner_node =
  in_value :: qword
  in_left :: qword
  in_right :: qword

text \<open>\<open>InnerNodeIterator\<close>, run to its end: the inner nodes above \<open>node\<close>, from the leaf up. The
  iterator stops when its index reaches the root and reads the sibling at
  \<open>nodes.len() - index.depth()\<close>, that is the siblings in order.\<close>

fun inner_nodes_up ::
    "(hasher_state \<Rightarrow> hasher_state) \<Rightarrow> node_index \<Rightarrow> qword \<Rightarrow> merkle_path \<Rightarrow> inner_node list" where
  "inner_nodes_up perm idx node [] = []"
| "inner_nodes_up perm idx node (sib # path) =
    (case (if is_position_odd idx then (sib, node) else (node, sib)) of (l, r) \<Rightarrow>
      let v = merge perm l r in
      \<lparr>in_value = v, in_left = l, in_right = r\<rparr> # inner_nodes_up perm (move_up idx) v path)"

definition authenticated_nodes ::
    "(hasher_state \<Rightarrow> hasher_state) \<Rightarrow> merkle_path \<Rightarrow> u64 \<Rightarrow> qword \<Rightarrow> (merkle_error, inner_node list) outcome"
  where
  "authenticated_nodes perm path index node =
    bindO (path_depth path) (\<lambda>d. bindO (node_index_new d index) (\<lambda>idx.
      Ok (inner_nodes_up perm idx node path)))"

section \<open>The store\<close>

type_synonym merkle_store = "(qword, qword \<times> qword) fmap"

definition store_insert :: "merkle_store \<Rightarrow> inner_node \<Rightarrow> merkle_store" where
  "store_insert st n = fmupd (in_value n) (in_left n, in_right n) st"

definition store_extend :: "merkle_store \<Rightarrow> inner_node list \<Rightarrow> merkle_store" where
  "store_extend st ns = fold (\<lambda>n st. store_insert st n) ns st"

text \<open>\<open>MerkleStore::new\<close>: the table of empty subtree roots, from the root of the deepest tree to
  the empty leaf, gives each parent its two equal children.\<close>

definition store_new :: "qword list \<Rightarrow> merkle_store" where
  "store_new empty_subtrees =
    (let subtrees = rev empty_subtrees in
     store_extend fmempty
       (map (\<lambda>(child, parent). \<lparr>in_value = parent, in_left = child, in_right = child\<rparr>)
         (zip subtrees (drop 1 subtrees))))"

fun get_node_loop ::
    "merkle_store \<Rightarrow> node_index \<Rightarrow> nat \<Rightarrow> qword \<Rightarrow> (merkle_error, qword) outcome" where
  "get_node_loop st idx 0 hash = Ok hash"
| "get_node_loop st idx (Suc i) hash =
    (case fmlookup st hash of
       None \<Rightarrow> Err (NodeIndexNotFoundInStore hash (ni_depth idx) (ni_position idx))
     | Some (l, r) \<Rightarrow> get_node_loop st idx i (if is_nth_bit_odd idx i then r else l))"

definition get_node :: "merkle_store \<Rightarrow> qword \<Rightarrow> node_index \<Rightarrow> (merkle_error, qword) outcome" where
  "get_node st root idx =
    (case fmlookup st root of
       None \<Rightarrow> Err (RootNotInStore root)
     | Some _ \<Rightarrow> get_node_loop st idx (ni_depth idx) root)"

fun get_path_loop ::
    "merkle_store \<Rightarrow> node_index \<Rightarrow> nat \<Rightarrow> qword \<Rightarrow> qword list
      \<Rightarrow> (merkle_error, qword \<times> qword list) outcome" where
  "get_path_loop st idx 0 hash path = Ok (hash, path)"
| "get_path_loop st idx (Suc i) hash path =
    (case fmlookup st hash of
       None \<Rightarrow> Err (NodeIndexNotFoundInStore hash (ni_depth idx) (ni_position idx))
     | Some (l, r) \<Rightarrow>
         if is_nth_bit_odd idx i then get_path_loop st idx i r (path @ [l])
         else get_path_loop st idx i l (path @ [r]))"

definition get_path ::
    "merkle_store \<Rightarrow> qword \<Rightarrow> node_index \<Rightarrow> (merkle_error, qword \<times> merkle_path) outcome" where
  "get_path st root idx =
    (case fmlookup st root of
       None \<Rightarrow> Err (RootNotInStore root)
     | Some _ \<Rightarrow> bindO (get_path_loop st idx (ni_depth idx) root []) (\<lambda>(hash, path).
         let path = rev path in
         if length path \<le> 255 then Ok (hash, path) else Panic))"

fun has_path_loop :: "merkle_store \<Rightarrow> node_index \<Rightarrow> nat \<Rightarrow> qword \<Rightarrow> bool" where
  "has_path_loop st idx 0 hash = True"
| "has_path_loop st idx (Suc i) hash =
    (case fmlookup st hash of
       None \<Rightarrow> False
     | Some (l, r) \<Rightarrow> has_path_loop st idx i (if is_nth_bit_odd idx i then r else l))"

definition has_path :: "merkle_store \<Rightarrow> qword \<Rightarrow> node_index \<Rightarrow> bool" where
  "has_path st root idx \<longleftrightarrow> root |\<in>| fmdom st \<and> has_path_loop st idx (ni_depth idx) root"

text \<open>\<open>add_merkle_path\<close> folds over the authenticated nodes, starting from the default word; every node is asserted to
  be the hash of its children, which the nodes of the iterator are.\<close>

definition add_merkle_path ::
    "(hasher_state \<Rightarrow> hasher_state) \<Rightarrow> merkle_store \<Rightarrow> u64 \<Rightarrow> qword \<Rightarrow> merkle_path
      \<Rightarrow> (merkle_error, qword \<times> merkle_store) outcome" where
  "add_merkle_path perm st index node path =
    bindO (authenticated_nodes perm path index node) (\<lambda>ns.
      foldO (\<lambda>n (_, st).
        bindO (assertO (merge perm (in_left n) (in_right n) = in_value n)) (\<lambda>_.
          Ok (in_value n, store_insert st n))) ns (EMPTY_WORD, st))"

definition set_node ::
    "(hasher_state \<Rightarrow> hasher_state) \<Rightarrow> merkle_store \<Rightarrow> qword \<Rightarrow> node_index \<Rightarrow> qword
      \<Rightarrow> (merkle_error, (qword \<times> merkle_path) \<times> merkle_store) outcome" where
  "set_node perm st root idx node =
    bindO (get_path st root idx) (\<lambda>(value, path).
      if node \<noteq> value
      then bindO (add_merkle_path perm st (ni_position idx) node path) (\<lambda>(root, st). Ok ((root, path), st))
      else Ok ((root, path), st))"

definition merge_roots ::
    "(hasher_state \<Rightarrow> hasher_state) \<Rightarrow> merkle_store \<Rightarrow> qword \<Rightarrow> qword \<Rightarrow> qword \<times> merkle_store" where
  "merge_roots perm st l r =
    (let parent = merge perm l r in
     (parent, store_insert st \<lparr>in_value = parent, in_left = l, in_right = r\<rparr>))"

section \<open>Bits of an index\<close>

lemma bit_length_le: "bit_length n \<le> d \<longleftrightarrow> n < 2 ^ d"
proof (induction d arbitrary: n)
  case 0
  then show ?case by (subst bit_length.simps) simp
next
  case (Suc d)
  then show ?case
    by (subst bit_length.simps) (simp add: div_less_iff_less_mult mult.commute)
qed

lemma less_bit_length: "d < bit_length n \<longleftrightarrow> 2 ^ d \<le> n"
  using bit_length_le [of n d] by (simp flip: not_le)

lemma node_index_new_Ok:
  "node_index_new d pos = Ok idx \<longleftrightarrow>
    d \<le> 64 \<and> unat pos < 2 ^ d \<and> idx = \<lparr>ni_depth = d, ni_position = pos\<rparr>"
  by (auto simp: node_index_new_def less_bit_length)

lemma node_index_new_le: "node_index_new d pos = Ok idx \<Longrightarrow> d \<le> 255"
  by (simp add: node_index_new_Ok)

lemma is_nth_bit_odd_bit: "is_nth_bit_odd idx n \<longleftrightarrow> bit (ni_position idx) n"
  by (simp add: is_nth_bit_odd_def and_one_eq mod_2_eq_odd bit_iff_odd_drop_bit)

lemma is_position_odd_bit: "is_position_odd idx \<longleftrightarrow> bit (ni_position idx) 0"
  by (simp add: is_position_odd_def and_one_eq mod_2_eq_odd bit_0)

lemma ni_position_move_up: "ni_position ((move_up ^^ n) idx) = drop_bit n (ni_position idx)"
  by (induction n) (simp_all add: move_up_def)

lemma move_up_odd: "is_position_odd ((move_up ^^ n) idx) \<longleftrightarrow> is_nth_bit_odd idx n"
  by (simp add: is_position_odd_bit is_nth_bit_odd_bit ni_position_move_up bit_drop_bit_eq)

section \<open>Paths, one level at a time\<close>

lemma fold_path_append:
  "fold_path perm idx node (p @ q) = fold_path perm ((move_up ^^ length p) idx) (fold_path perm idx node p) q"
  by (induction p arbitrary: idx node) (simp_all add: funpow_swap1 split: prod.split)

lemma inner_nodes_up_append:
  "inner_nodes_up perm idx node (p @ q) =
    inner_nodes_up perm idx node p @
    inner_nodes_up perm ((move_up ^^ length p) idx) (fold_path perm idx node p) q"
  by (induction p arbitrary: idx node) (simp_all add: funpow_swap1 Let_def build_node_def)

lemma inner_nodes_up_merge:
  "n \<in> set (inner_nodes_up perm idx node path) \<Longrightarrow> in_value n = merge perm (in_left n) (in_right n)"
  by (induction path arbitrary: idx node) (auto simp: Let_def split: if_splits)

lemma inner_nodes_up_Nil [simp]: "inner_nodes_up perm idx node path = [] \<longleftrightarrow> path = []"
  by (cases path) (simp_all add: Let_def split: prod.split)

lemma last_inner_nodes_up:
  "path \<noteq> [] \<Longrightarrow> in_value (last (inner_nodes_up perm idx node path)) = fold_path perm idx node path"
  by (cases path rule: rev_exhaust)
    (simp_all add: inner_nodes_up_append fold_path_append Let_def build_node_def)

section \<open>Paths read from a store\<close>

text \<open>A store is authentic when every key is the hash of the children stored under it.\<close>

definition wf_store :: "(hasher_state \<Rightarrow> hasher_state) \<Rightarrow> merkle_store \<Rightarrow> bool" where
  "wf_store perm st \<longleftrightarrow> (\<forall>k l r. fmlookup st k = Some (l, r) \<longrightarrow> k = merge perm l r)"

lemma get_path_loop_extends:
  "get_path_loop st idx i hash acc = Ok (v, path) \<Longrightarrow> \<exists>s. path = acc @ s \<and> length s = i"
proof (induction i arbitrary: hash acc)
  case (Suc i)
  then show ?case
    by (fastforce split: option.splits if_splits)
qed simp

lemma get_path_loop_authentic:
  assumes "wf_store perm st" "get_path_loop st idx i hash acc = Ok (v, acc @ s)"
  shows "fold_path perm idx v (rev s) = hash"
  using assms(2)
proof (induction i arbitrary: hash acc s)
  case 0
  then show ?case by simp
next
  case (Suc i)
  obtain l r where lr: "fmlookup st hash = Some (l, r)"
    using Suc.prems by (auto split: option.splits)
  let ?sib = "if is_nth_bit_odd idx i then l else r"
  let ?child = "if is_nth_bit_odd idx i then r else l"
  have step: "get_path_loop st idx i ?child (acc @ [?sib]) = Ok (v, acc @ s)"
    using Suc.prems lr by (auto split: if_splits)
  then obtain t where t: "s = ?sib # t" "length t = i"
    using get_path_loop_extends [OF step] by auto
  have "fold_path perm idx v (rev t) = ?child"
    using step t(1) by (intro Suc.IH [of _ "acc @ [?sib]"]) simp
  then have "fold_path perm idx v (rev s) =
      (case build_node ((move_up ^^ i) idx) ?child ?sib of (a, b) \<Rightarrow> merge perm a b)"
    using t by (simp add: fold_path_append split: prod.split)
  also have "\<dots> = merge perm l r"
    by (simp add: build_node_def move_up_odd)
  also have "\<dots> = hash"
    using assms(1) lr by (simp add: wf_store_def)
  finally show ?case .
qed

lemma get_path_length: "get_path st root idx = Ok (v, path) \<Longrightarrow> length path = ni_depth idx"
  by (auto simp: get_path_def outcome_simps Let_def dest!: get_path_loop_extends
      split: option.splits if_splits)

lemma get_path_authentic:
  assumes "wf_store perm st" "get_path st root idx = Ok (v, path)"
  shows "fold_path perm idx v path = root"
proof -
  obtain s where s: "get_path_loop st idx (ni_depth idx) root [] = Ok (v, s)" "path = rev s"
    using assms(2) by (auto simp: get_path_def outcome_simps Let_def split: option.splits if_splits)
  then show ?thesis
    using get_path_loop_authentic [OF assms(1), of idx _ root "[]" v s] by simp
qed

text \<open>A store that holds the inner nodes above a leaf returns that leaf and its path.\<close>

lemma get_path_loop_complete:
  assumes "\<forall>n \<in> set (inner_nodes_up perm idx node path).
    fmlookup st (in_value n) = Some (in_left n, in_right n)"
  shows "get_path_loop st idx (length path) (fold_path perm idx node path) acc = Ok (node, acc @ rev path)"
  using assms
proof (induction path arbitrary: acc rule: rev_induct)
  case (snoc sib path)
  let ?up = "(move_up ^^ length path) idx" and ?child = "fold_path perm idx node path"
  have all: "\<forall>n \<in> set (inner_nodes_up perm idx node path).
      fmlookup st (in_value n) = Some (in_left n, in_right n)"
    using snoc.prems by (simp add: inner_nodes_up_append)
  have top: "fmlookup st (fold_path perm idx node (path @ [sib])) =
      Some (if is_nth_bit_odd idx (length path) then (sib, ?child) else (?child, sib))"
    using snoc.prems
    by (simp add: inner_nodes_up_append fold_path_append Let_def build_node_def move_up_odd
        split: if_splits)
  show ?case
    using snoc.IH [OF all] by (simp add: top)
qed simp

section \<open>Updates of a store\<close>

lemma add_path_fold:
  "fold (\<lambda>n (_, st). (in_value n, store_insert st n)) ns (r, st) =
    (if ns = [] then r else in_value (last ns), store_extend st ns)"
  by (induction ns arbitrary: r st) (simp_all add: store_extend_def)

lemma authenticated_nodes_valid:
  assumes "node_index_new (length path) pos = Ok idx"
  shows "authenticated_nodes perm path pos node = Ok (inner_nodes_up perm idx node path)"
  using assms node_index_new_le [OF assms] by (simp add: authenticated_nodes_def path_depth_def)

lemma compute_root_valid:
  assumes "node_index_new (length path) pos = Ok idx"
  shows "compute_root perm path pos node = Ok (fold_path perm idx node path)"
  using assms node_index_new_le [OF assms] by (simp add: compute_root_def path_depth_def)

lemma add_merkle_path_fold:
  "add_merkle_path perm st index node path =
    bindO (authenticated_nodes perm path index node) (\<lambda>ns.
      Ok (fold (\<lambda>n (_, st). (in_value n, store_insert st n)) ns (EMPTY_WORD, st)))"
proof -
  have "foldO (\<lambda>n (_, st). bindO (assertO (merge perm (in_left n) (in_right n) = in_value n)) (\<lambda>_.
      Ok (in_value n, store_insert st n))) (inner_nodes_up perm idx v path) acc =
    (Ok (fold (\<lambda>n (_, st). (in_value n, store_insert st n)) (inner_nodes_up perm idx v path) acc)
      :: (merkle_error, _) outcome)" for idx v acc
    by (induction path arbitrary: idx v acc) (auto simp: Let_def)
  then show ?thesis
    by (auto simp: add_merkle_path_def authenticated_nodes_def outcome_simps intro!: bindO_cong)
qed

lemma add_merkle_path_valid:
  assumes "node_index_new (length path) pos = Ok idx"
  shows "add_merkle_path perm st pos node path =
    Ok (if path = [] then EMPTY_WORD else fold_path perm idx node path,
        store_extend st (inner_nodes_up perm idx node path))"
  using authenticated_nodes_valid [OF assms]
  by (simp add: add_merkle_path_fold add_path_fold last_inner_nodes_up)

text \<open>Setting a node of depth zero to a new value returns the default word as the root and stores nothing.\<close>

lemma set_node_at_root:
  assumes "get_path st root idx = Ok (value, [])" "node \<noteq> value" "node_index_new 0 (ni_position idx) = Ok i"
  shows "set_node perm st root idx node = Ok ((EMPTY_WORD, []), st)"
  using add_merkle_path_valid [of "[]" "ni_position idx" i perm st node] assms
  by (simp add: set_node_def store_extend_def)

lemma fmlookup_store_extend_notin:
  "k \<notin> in_value ` set ns \<Longrightarrow> fmlookup (store_extend st ns) k = fmlookup st k"
  by (induction ns arbitrary: st) (auto simp: store_extend_def store_insert_def)

lemma fmlookup_store_extend:
  assumes "inj_on in_value (set ns)" "n \<in> set ns"
  shows "fmlookup (store_extend st ns) (in_value n) = Some (in_left n, in_right n)"
  using assms
proof (induction ns arbitrary: st)
  case (Cons m ns)
  show ?case
  proof (cases "n \<in> set ns")
    case True
    with Cons show ?thesis by (simp add: store_extend_def)
  next
    case False
    with Cons.prems have "n = m" by simp
    moreover have "in_value m \<notin> in_value ` set ns"
      using Cons.prems(1) False \<open>n = m\<close> by auto
    ultimately show ?thesis
      using fmlookup_store_extend_notin [of "in_value m" ns "store_insert st m"]
      by (simp add: store_extend_def store_insert_def)
  qed
qed simp

lemma wf_store_insert:
  "wf_store perm st \<Longrightarrow> in_value n = merge perm (in_left n) (in_right n) \<Longrightarrow> wf_store perm (store_insert st n)"
  by (auto simp: wf_store_def store_insert_def split: if_splits)

lemma wf_store_extend:
  assumes "wf_store perm st" "\<forall>n \<in> set ns. in_value n = merge perm (in_left n) (in_right n)"
  shows "wf_store perm (store_extend st ns)"
  using assms by (induction ns arbitrary: st) (simp_all add: store_extend_def wf_store_insert)

lemma fmdom_store_extend: "fmdom (store_extend st ns) = fmdom st |\<union>| fset_of_list (map in_value ns)"
  by (induction ns arbitrary: st) (auto simp: store_extend_def store_insert_def)

lemma get_path_add_merkle_path:
  assumes idx: "node_index_new (length path) pos = Ok idx"
    and path: "path \<noteq> []"
    and inj: "inj_on in_value (set (inner_nodes_up perm idx node path))"
    and add: "add_merkle_path perm st pos node path = Ok (root, st')"
  shows "get_path st' root idx = Ok (node, path)"
proof -
  let ?ns = "inner_nodes_up perm idx node path"
  have st': "root = fold_path perm idx node path" "st' = store_extend st ?ns"
    using add add_merkle_path_valid [OF idx, of perm st node] path by simp_all
  have all: "\<forall>n \<in> set ?ns. fmlookup st' (in_value n) = Some (in_left n, in_right n)"
    using fmlookup_store_extend [OF inj] st' by simp
  have "root |\<in>| fmdom st'"
    using last_inner_nodes_up [OF path, of perm idx node] path all st'(1)
    by (metis fmdomI inner_nodes_up_Nil last_in_set)
  moreover have "ni_depth idx = length path" "length path \<le> 255"
    using idx by (auto simp: node_index_new_Ok)
  ultimately show ?thesis
    using get_path_loop_complete [OF all, of "[]"] st'(1)
    by (auto simp: get_path_def Let_def fmlookup_dom_iff)
qed

section \<open>Correctness\<close>

text \<open>C25: A path read from a store whose keys are the hashes of the children stored under them has the length of
  the depth asked for, and \<open>MerklePath::verify\<close> accepts it for the node it came with and the root it was read
  under: the store never returns a path that does not authenticate.\<close>

theorem store_path_verifies:
  assumes "wf_store perm st" "node_index_new d pos = Ok idx" "get_path st root idx = Ok (v, path)"
  shows "length path = d \<and> path_verify perm path pos v root = Ok ()"
proof -
  have idx: "ni_depth idx = d" "ni_position idx = pos"
    using assms(2) by (auto simp: node_index_new_Ok)
  then have "length path = d"
    using get_path_length [OF assms(3)] by simp
  then show ?thesis
    using get_path_authentic [OF assms(1,3)] compute_root_valid [of path pos idx perm v] assms(2)
    by (simp add: path_verify_def)
qed

theorem store_path_verifies_witness:
  "path_verify (\<lambda>s. s) [QWord 5 6 7 8] 0 (QWord 1 2 3 4) (QWord 1 2 3 4) = Ok ()"
proof -
  define st where "st = store_insert fmempty \<lparr>in_value = QWord 1 2 3 4, in_left = QWord 1 2 3 4, in_right = QWord 5 6 7 8\<rparr>"
  have wf: "wf_store (\<lambda>s. s) st"
    by (simp add: wf_store_def st_def store_insert_def merge_def digest_of_def)
  have idx: "node_index_new 1 0 = Ok \<lparr>ni_depth = 1, ni_position = 0\<rparr>"
    by (simp add: node_index_new_def bit_length.simps)
  have "get_path st (QWord 1 2 3 4) \<lparr>ni_depth = 1, ni_position = 0\<rparr> = Ok (QWord 1 2 3 4, [QWord 5 6 7 8])"
    by (simp add: get_path_def st_def store_insert_def is_nth_bit_odd_def Let_def)
  then show ?thesis
    using store_path_verifies [OF wf idx] by blast
qed

text \<open>C26: After \<open>add_merkle_path\<close> of a path that is not empty and on which different inner nodes have different hashes,
  the store returns under the new root exactly the node and the path that were added.\<close>

theorem added_path_is_found:
  assumes "node_index_new (length path) pos = Ok idx" "path \<noteq> []"
    "inj_on in_value (set (inner_nodes_up perm idx node path))"
    "add_merkle_path perm st pos node path = Ok (root, st')"
  shows "get_path st' root idx = Ok (node, path)"
  using assms by (rule get_path_add_merkle_path)

theorem added_path_is_found_witness:
  "\<exists>st. add_merkle_path (\<lambda>s. s) fmempty 0 (QWord 1 2 3 4) [QWord 5 6 7 8] = Ok (QWord 1 2 3 4, st) \<and>
    get_path st (QWord 1 2 3 4) \<lparr>ni_depth = 1, ni_position = 0\<rparr> = Ok (QWord 1 2 3 4, [QWord 5 6 7 8])"
proof -
  have idx: "node_index_new (length [QWord 5 6 7 8]) 0 = Ok \<lparr>ni_depth = 1, ni_position = 0\<rparr>"
    by (simp add: node_index_new_def bit_length.simps)
  have root: "fold_path (\<lambda>s. s) \<lparr>ni_depth = 1, ni_position = 0\<rparr> (QWord 1 2 3 4) [QWord 5 6 7 8] = QWord 1 2 3 4"
    by (simp add: build_node_def is_position_odd_def merge_def digest_of_def)
  obtain st where st: "add_merkle_path (\<lambda>s. s) fmempty 0 (QWord 1 2 3 4) [QWord 5 6 7 8] = Ok (QWord 1 2 3 4, st)"
    using add_merkle_path_valid [OF idx, of "\<lambda>s. s" fmempty "QWord 1 2 3 4"] root by simp
  then show ?thesis
    using added_path_is_found [OF idx _ _ st] by (simp split: prod.split)
qed

end
