(* ===== verification/Advice.thy ===== *)
theory Advice
  imports Merkle
begin

text \<open>
  The advice provider of \<open>processor/src/host/advice/mod.rs\<close> with its stack
  (\<open>core/src/advice/stack.rs\<close>), its map (\<open>core/src/advice/map.rs\<close>) and its Merkle store. The
  provider keeps a running count of the bytes it holds; the lemmas show that the count is exact,
  that it stays within the budget, and that a batch of mutations is applied entirely or not at all.
\<close>

section \<open>Advice stack\<close>

type_synonym advice_stack = "felt list"

definition consume_element :: "advice_stack \<Rightarrow> (felt \<times> advice_stack) option" where
  "consume_element s = (case s of [] \<Rightarrow> None | x # s \<Rightarrow> Some (x, s))"

definition consume_word :: "advice_stack \<Rightarrow> (qword \<times> advice_stack) option" where
  "consume_word s =
    (case s of a # b # c # d # s \<Rightarrow> Some (QWord a b c d, s) | _ \<Rightarrow> None)"

definition consume_dword :: "advice_stack \<Rightarrow> ((qword \<times> qword) \<times> advice_stack) option" where
  "consume_dword s =
    (if length s < 8 then None
     else case consume_word s of
       None \<Rightarrow> None
     | Some (v, s) \<Rightarrow> (case consume_word s of None \<Rightarrow> None | Some (w, s) \<Rightarrow> Some ((v, w), s)))"

text \<open>\<open>prepend_elements\<close> pushes the reversed elements to the front one by one.\<close>

definition prepend_elements :: "advice_stack \<Rightarrow> felt list \<Rightarrow> advice_stack" where
  "prepend_elements s xs = fold (\<lambda>x s. x # s) (rev xs) s"

section \<open>Advice map\<close>

type_synonym advice_map = "(qword, felt list) fmap"

definition map_entries :: "advice_map \<Rightarrow> (qword \<times> felt list) list" where
  "map_entries m = map (\<lambda>k. (k, the (fmlookup m k))) (sorted_list_of_fset (fmdom m))"

fun total_count_loop :: "nat \<Rightarrow> (qword \<times> felt list) list \<Rightarrow> nat option" where
  "total_count_loop n [] = Some n"
| "total_count_loop n ((k, vs) # es) =
    (case checked_add WORD_SIZE (length vs) of
       None \<Rightarrow> None
     | Some e \<Rightarrow> (case checked_add n e of None \<Rightarrow> None | Some t \<Rightarrow> total_count_loop t es))"

definition total_element_count :: "advice_map \<Rightarrow> nat option" where
  "total_element_count m = total_count_loop 0 (map_entries m)"

fun find_conflict :: "advice_map \<Rightarrow> (qword \<times> felt list) list \<Rightarrow> (qword \<times> felt list \<times> felt list) option" where
  "find_conflict m [] = None"
| "find_conflict m ((k, new) # es) =
    (case fmlookup m k of
       Some old \<Rightarrow> if old \<noteq> new then Some (k, old, new) else find_conflict m es
     | None \<Rightarrow> find_conflict m es)"

definition merge_new :: "advice_map \<Rightarrow> (qword \<times> felt list) list \<Rightarrow> advice_map" where
  "merge_new m es = fold (\<lambda>(k, v) m. if k |\<in>| fmdom m then m else fmupd k v m) es m"

definition map_merge ::
    "advice_map \<Rightarrow> advice_map \<Rightarrow> (qword \<times> felt list \<times> felt list, advice_map) outcome" where
  "map_merge m other =
    (case find_conflict m (map_entries other) of
       Some c \<Rightarrow> Err c
     | None \<Rightarrow> Ok (merge_new m (map_entries other)))"

section \<open>The provider\<close>

record advice =
  adv_stack :: advice_stack
  adv_map :: advice_map
  adv_store :: merkle_store
  merkle_store_node_count :: nat
  advice_size_bytes :: nat
  max_advice_size_bytes :: nat

datatype advice_mutation =
    ExtendStack advice_stack
  | ExtendMap advice_map
  | ExtendMerkleStore "inner_node list"

definition FELT_SIZE_BYTES :: nat where
  "FELT_SIZE_BYTES = 8"

definition WORD_SIZE_BYTES :: nat where
  "WORD_SIZE_BYTES = 32"

definition INTERNAL_NODE_SIZE_BYTES :: nat where
  "INTERNAL_NODE_SIZE_BYTES = 96"

definition contains_internal_node :: "merkle_store \<Rightarrow> qword \<Rightarrow> bool" where
  "contains_internal_node st root = is_ok (get_node st root node_index_root)"

fun count_new :: "merkle_store \<Rightarrow> qword fset \<Rightarrow> nat \<Rightarrow> qword list \<Rightarrow> nat" where
  "count_new st seen count [] = count"
| "count_new st seen count (r # rs) =
    count_new st (finsert r seen)
      (if r |\<notin>| seen \<and> \<not> contains_internal_node st r then count + 1 else count) rs"

definition new_internal_node_count :: "merkle_store \<Rightarrow> qword list \<Rightarrow> nat" where
  "new_internal_node_count st roots = count_new st {||} 0 roots"

definition new_path_node_count ::
    "(hasher_state \<Rightarrow> hasher_state) \<Rightarrow> merkle_store \<Rightarrow> u64 \<Rightarrow> qword \<Rightarrow> merkle_path
      \<Rightarrow> (merkle_error, nat) outcome" where
  "new_path_node_count perm st index node path =
    bindO (authenticated_nodes perm path index node) (\<lambda>ns.
      Ok (new_internal_node_count st (map in_value ns)))"

text \<open>Sizes and the budget.\<close>

definition budget_error :: "advice \<Rightarrow> nat \<Rightarrow> advice_error" where
  "budget_error a added = SizeBudgetExceeded (advice_size_bytes a) added (max_advice_size_bytes a)"

definition overflow_error :: advice_error where
  "overflow_error = SizeBudgetExceeded 0 usize_max 0"

definition felt_bytes :: "nat \<Rightarrow> (advice_error, nat) outcome" where
  "felt_bytes count =
    (case checked_mul count FELT_SIZE_BYTES of Some b \<Rightarrow> Ok b | None \<Rightarrow> Err overflow_error)"

definition map_entry_bytes :: "nat \<Rightarrow> (advice_error, nat) outcome" where
  "map_entry_bytes value_len =
    bindO (felt_bytes value_len) (\<lambda>b.
      case checked_add b WORD_SIZE_BYTES of Some b \<Rightarrow> Ok b | None \<Rightarrow> Err overflow_error)"

definition merkle_node_bytes :: "nat \<Rightarrow> (advice_error, nat) outcome" where
  "merkle_node_bytes count =
    (case checked_mul count INTERNAL_NODE_SIZE_BYTES of
       Some b \<Rightarrow> Ok b | None \<Rightarrow> Err overflow_error)"

definition compute_advice_size_bytes :: "advice \<Rightarrow> (advice_error, nat) outcome" where
  "compute_advice_size_bytes a =
    bindO (felt_bytes (length (adv_stack a))) (\<lambda>stack.
    case total_element_count (adv_map a) of
      None \<Rightarrow> Err overflow_error
    | Some map_elements \<Rightarrow>
        bindO (felt_bytes map_elements) (\<lambda>map.
        bindO (merkle_node_bytes (merkle_store_node_count a)) (\<lambda>store.
        case Option.bind (checked_add stack map) (\<lambda>sz. checked_add sz store) of
          Some sz \<Rightarrow> Ok sz
        | None \<Rightarrow> Err (SizeBudgetExceeded 0 usize_max (max_advice_size_bytes a)))))"

definition check_advice_size_addition :: "advice \<Rightarrow> nat \<Rightarrow> (advice_error, unit) outcome" where
  "check_advice_size_addition a added =
    (case checked_add (advice_size_bytes a) added of
       None \<Rightarrow> Err (budget_error a added)
     | Some new_total \<Rightarrow>
         if new_total > max_advice_size_bytes a then Err (budget_error a added) else Ok ())"

definition check_merkle_store_node_addition :: "advice \<Rightarrow> nat \<Rightarrow> (advice_error, unit) outcome" where
  "check_merkle_store_node_addition a added =
    bindO (merkle_node_bytes added) (check_advice_size_addition a)"

definition check_stack_capacity :: "advice \<Rightarrow> nat \<Rightarrow> (advice_error, unit) outcome" where
  "check_stack_capacity a count = bindO (felt_bytes count) (check_advice_size_addition a)"

section \<open>Operations\<close>

definition advice_empty :: "qword list \<Rightarrow> nat \<Rightarrow> advice" where
  "advice_empty empty_subtrees max_bytes =
    (let store = store_new empty_subtrees; n = fcard (fmdom store) in
     \<lparr>adv_stack = [], adv_map = fmempty, adv_store = store, merkle_store_node_count = n,
      advice_size_bytes = n * INTERNAL_NODE_SIZE_BYTES, max_advice_size_bytes = max_bytes\<rparr>)"

definition set_options :: "advice \<Rightarrow> nat \<Rightarrow> (advice_error, advice) outcome" where
  "set_options a max_bytes =
    bindO (compute_advice_size_bytes a) (\<lambda>sz.
      if sz > max_bytes then Err (SizeBudgetExceeded sz 0 max_bytes)
      else Ok (a\<lparr>advice_size_bytes := sz, max_advice_size_bytes := max_bytes\<rparr>))"

text \<open>The advice stack.\<close>

definition pop_stack :: "advice \<Rightarrow> (advice_error, felt \<times> advice) outcome" where
  "pop_stack a =
    (case consume_element (adv_stack a) of
       None \<Rightarrow> Err StackReadFailed
     | Some (x, s) \<Rightarrow> bindO (usub (advice_size_bytes a) FELT_SIZE_BYTES) (\<lambda>n.
         Ok (x, a\<lparr>adv_stack := s, advice_size_bytes := n\<rparr>)))"

definition pop_stack_word :: "advice \<Rightarrow> (advice_error, qword \<times> advice) outcome" where
  "pop_stack_word a =
    (case consume_word (adv_stack a) of
       None \<Rightarrow> Err StackReadFailed
     | Some (w, s) \<Rightarrow> bindO (usub (advice_size_bytes a) WORD_SIZE_BYTES) (\<lambda>n.
         Ok (w, a\<lparr>adv_stack := s, advice_size_bytes := n\<rparr>)))"

definition pop_stack_dword :: "advice \<Rightarrow> (advice_error, (qword \<times> qword) \<times> advice) outcome" where
  "pop_stack_dword a =
    (case consume_dword (adv_stack a) of
       None \<Rightarrow> Err StackReadFailed
     | Some (w, s) \<Rightarrow> bindO (usub (advice_size_bytes a) (2 * WORD_SIZE_BYTES)) (\<lambda>n.
         Ok (w, a\<lparr>adv_stack := s, advice_size_bytes := n\<rparr>)))"

definition push_stack :: "advice \<Rightarrow> felt \<Rightarrow> (advice_error, advice) outcome" where
  "push_stack a x =
    bindO (check_stack_capacity a 1) (\<lambda>_.
      Ok (a\<lparr>adv_stack := x # adv_stack a, advice_size_bytes := advice_size_bytes a + FELT_SIZE_BYTES\<rparr>))"

definition push_stack_word :: "advice \<Rightarrow> qword \<Rightarrow> (advice_error, advice) outcome" where
  "push_stack_word a w =
    bindO (check_stack_capacity a 4) (\<lambda>_.
      Ok (a\<lparr>adv_stack := prepend_elements (adv_stack a) (into_elements w),
            advice_size_bytes := advice_size_bytes a + WORD_SIZE_BYTES\<rparr>))"

definition next_multiple_of :: "nat \<Rightarrow> nat \<Rightarrow> nat" where
  "next_multiple_of n k = (if n mod k = 0 then n else n + (k - n mod k))"

definition push_from_map :: "advice \<Rightarrow> qword \<Rightarrow> bool \<Rightarrow> nat \<Rightarrow> (advice_error, advice) outcome" where
  "push_from_map a key include_len pad_to =
    (case fmlookup (adv_map a) key of
       None \<Rightarrow> Err (MapKeyNotFound key)
     | Some values \<Rightarrow>
         let num_pad = (if pad_to \<noteq> 0 then next_multiple_of (length values) pad_to - length values else 0) in
         (case Option.bind (checked_add (length values) num_pad)
                 (\<lambda>n. checked_add n (if include_len then 1 else 0)) of
            None \<Rightarrow> Err (budget_error a usize_max)
          | Some total_push \<Rightarrow>
              bindO (check_stack_capacity a total_push) (\<lambda>_.
              let stack = (if include_len then [of_nat (length values)] else []) @ values @ replicate num_pad 0 in
              bindO (felt_bytes total_push) (\<lambda>b.
              Ok (a\<lparr>adv_stack := prepend_elements (adv_stack a) stack,
                    advice_size_bytes := advice_size_bytes a + b\<rparr>)))))"

definition extend_advice_stack :: "advice \<Rightarrow> advice_stack \<Rightarrow> (advice_error, advice) outcome" where
  "extend_advice_stack a stack =
    bindO (check_stack_capacity a (length stack)) (\<lambda>_.
    bindO (felt_bytes (length stack)) (\<lambda>added.
      Ok (a\<lparr>adv_stack := prepend_elements (adv_stack a) stack,
            advice_size_bytes := advice_size_bytes a + added\<rparr>)))"

text \<open>The advice map.\<close>

definition insert_into_map :: "advice \<Rightarrow> qword \<Rightarrow> felt list \<Rightarrow> (advice_error, advice) outcome" where
  "insert_into_map a key values =
    (case fmlookup (adv_map a) key of
       Some existing \<Rightarrow>
         if existing \<noteq> values then Err (MapKeyAlreadyPresent key existing values) else Ok a
     | None \<Rightarrow>
         bindO (map_entry_bytes (length values)) (\<lambda>added.
         bindO (check_advice_size_addition a added) (\<lambda>_.
           Ok (a\<lparr>adv_map := fmupd key values (adv_map a),
                 advice_size_bytes := advice_size_bytes a + added\<rparr>))))"

fun extend_map_added ::
    "advice \<Rightarrow> nat \<Rightarrow> (qword \<times> felt list) list \<Rightarrow> (advice_error, nat) outcome" where
  "extend_map_added a added [] = Ok added"
| "extend_map_added a added ((key, values) # es) =
    (case fmlookup (adv_map a) key of
       Some existing \<Rightarrow>
         if existing \<noteq> values then Err (MapKeyAlreadyPresent key existing values)
         else extend_map_added a added es
     | None \<Rightarrow>
         bindO (map_entry_bytes (length values)) (\<lambda>entry_bytes.
         case checked_add added entry_bytes of
           None \<Rightarrow> Err (budget_error a usize_max)
         | Some added \<Rightarrow> extend_map_added a added es))"

definition extend_map :: "advice \<Rightarrow> advice_map \<Rightarrow> (advice_error, advice) outcome" where
  "extend_map a other =
    bindO (extend_map_added a 0 (map_entries other)) (\<lambda>added.
    bindO (check_advice_size_addition a added) (\<lambda>_.
    bindO (map_err (\<lambda>(k, old, new). MapKeyAlreadyPresent k old new) (map_merge (adv_map a) other)) (\<lambda>m.
      Ok (a\<lparr>adv_map := m, advice_size_bytes := advice_size_bytes a + added\<rparr>))))"

text \<open>The Merkle store.\<close>

definition to_node_index :: "felt \<Rightarrow> felt \<Rightarrow> (advice_error, node_index) outcome" where
  "to_node_index depth index =
    map_err (\<lambda>_. InvalidMerkleTreeNodeIndex depth index) (node_index_from_elements depth index)"

definition get_tree_node :: "advice \<Rightarrow> qword \<Rightarrow> felt \<Rightarrow> felt \<Rightarrow> (advice_error, qword) outcome" where
  "get_tree_node a root depth index =
    bindO (to_node_index depth index) (\<lambda>idx.
      map_err MerkleStoreLookupFailed (get_node (adv_store a) root idx))"

definition has_merkle_path :: "advice \<Rightarrow> qword \<Rightarrow> felt \<Rightarrow> felt \<Rightarrow> (advice_error, bool) outcome" where
  "has_merkle_path a root depth index =
    bindO (to_node_index depth index) (\<lambda>idx. Ok (has_path (adv_store a) root idx))"

definition get_merkle_path ::
    "advice \<Rightarrow> qword \<Rightarrow> felt \<Rightarrow> felt \<Rightarrow> (advice_error, merkle_path) outcome" where
  "get_merkle_path a root depth index =
    bindO (to_node_index depth index) (\<lambda>idx.
    bindO (map_err MerkleStoreLookupFailed (get_path (adv_store a) root idx)) (\<lambda>(v, path). Ok path))"

definition update_merkle_node ::
    "(hasher_state \<Rightarrow> hasher_state) \<Rightarrow> advice \<Rightarrow> qword \<Rightarrow> felt \<Rightarrow> felt \<Rightarrow> qword
      \<Rightarrow> (advice_error, (merkle_path \<times> qword) \<times> advice) outcome" where
  "update_merkle_node perm a root depth index value =
    bindO (to_node_index depth index) (\<lambda>idx.
    bindO (map_err MerkleStoreUpdateFailed (get_path (adv_store a) root idx)) (\<lambda>(v, path).
    if v = value then Ok ((path, root), a)
    else
      bindO (map_err MerkleStoreUpdateFailed
        (new_path_node_count perm (adv_store a) (ni_position idx) value path)) (\<lambda>added.
      bindO (check_merkle_store_node_addition a added) (\<lambda>_.
      bindO (map_err MerkleStoreUpdateFailed
        (add_merkle_path perm (adv_store a) (ni_position idx) value path)) (\<lambda>(new_root, st).
      bindO (merkle_node_bytes added) (\<lambda>b.
        Ok ((path, new_root),
            a\<lparr>adv_store := st, merkle_store_node_count := merkle_store_node_count a + added,
              advice_size_bytes := advice_size_bytes a + b\<rparr>)))))))"

definition advice_merge_roots ::
    "(hasher_state \<Rightarrow> hasher_state) \<Rightarrow> advice \<Rightarrow> qword \<Rightarrow> qword
      \<Rightarrow> (advice_error, qword \<times> advice) outcome" where
  "advice_merge_roots perm a lhs rhs =
    (let root = merge perm lhs rhs; added = new_internal_node_count (adv_store a) [root] in
     bindO (check_merkle_store_node_addition a added) (\<lambda>_.
     case merge_roots perm (adv_store a) lhs rhs of (root, st) \<Rightarrow>
     bindO (merkle_node_bytes added) (\<lambda>b.
       Ok (root,
           a\<lparr>adv_store := st, merkle_store_node_count := merkle_store_node_count a + added,
             advice_size_bytes := advice_size_bytes a + b\<rparr>))))"

definition extend_merkle_store :: "advice \<Rightarrow> inner_node list \<Rightarrow> (advice_error, advice) outcome" where
  "extend_merkle_store a nodes =
    (let added = new_internal_node_count (adv_store a) (map in_value nodes) in
     bindO (check_merkle_store_node_addition a added) (\<lambda>_.
     bindO (merkle_node_bytes added) (\<lambda>b.
       Ok (a\<lparr>adv_store := store_extend (adv_store a) nodes,
             merkle_store_node_count := merkle_store_node_count a + added,
             advice_size_bytes := advice_size_bytes a + b\<rparr>))))"

section \<open>Batches of mutations\<close>

text \<open>\<open>validate_mutations\<close> walks the batch with the bytes added so far, the map entries and the
  Merkle nodes the batch introduces.\<close>

fun validate_map_entries ::
    "advice \<Rightarrow> nat \<times> advice_map \<Rightarrow> (qword \<times> felt list) list \<Rightarrow> (advice_error, nat \<times> advice_map) outcome"
  where
  "validate_map_entries a (added, new_map) [] = Ok (added, new_map)"
| "validate_map_entries a (added, new_map) ((key, values) # es) =
    (case (case fmlookup (adv_map a) key of Some e \<Rightarrow> Some e | None \<Rightarrow> fmlookup new_map key) of
       Some existing \<Rightarrow>
         if existing \<noteq> values then Err (MapKeyAlreadyPresent key existing values)
         else validate_map_entries a (added, new_map) es
     | None \<Rightarrow>
         bindO (map_entry_bytes (length values)) (\<lambda>b.
         case checked_add added b of
           None \<Rightarrow> Err (budget_error a usize_max)
         | Some added \<Rightarrow> validate_map_entries a (added, fmupd key values new_map) es))"

fun validate_nodes ::
    "advice \<Rightarrow> nat \<times> qword fset \<Rightarrow> inner_node list \<Rightarrow> (advice_error, nat \<times> qword fset) outcome" where
  "validate_nodes a (added, new_nodes) [] = Ok (added, new_nodes)"
| "validate_nodes a (added, new_nodes) (n # ns) =
    (if \<not> contains_internal_node (adv_store a) (in_value n) \<and> in_value n |\<notin>| new_nodes
     then case checked_add added INTERNAL_NODE_SIZE_BYTES of
            None \<Rightarrow> Err (budget_error a usize_max)
          | Some added \<Rightarrow> validate_nodes a (added, finsert (in_value n) new_nodes) ns
     else validate_nodes a (added, new_nodes) ns)"

fun validate_loop ::
    "advice \<Rightarrow> nat \<times> advice_map \<times> qword fset \<Rightarrow> advice_mutation list \<Rightarrow> (advice_error, nat) outcome" where
  "validate_loop a (added, new_map, new_nodes) [] = Ok added"
| "validate_loop a (added, new_map, new_nodes) (ExtendStack s # ms) =
    bindO (felt_bytes (length s)) (\<lambda>b.
    case checked_add added b of
      None \<Rightarrow> Err (budget_error a usize_max)
    | Some added \<Rightarrow> validate_loop a (added, new_map, new_nodes) ms)"
| "validate_loop a (added, new_map, new_nodes) (ExtendMap m # ms) =
    bindO (validate_map_entries a (added, new_map) (map_entries m)) (\<lambda>(added, new_map).
      validate_loop a (added, new_map, new_nodes) ms)"
| "validate_loop a (added, new_map, new_nodes) (ExtendMerkleStore ns # ms) =
    bindO (validate_nodes a (added, new_nodes) ns) (\<lambda>(added, new_nodes).
      validate_loop a (added, new_map, new_nodes) ms)"

definition validate_mutations :: "advice \<Rightarrow> advice_mutation list \<Rightarrow> (advice_error, unit) outcome" where
  "validate_mutations a ms =
    bindO (validate_loop a (0, fmempty, {||}) ms) (check_advice_size_addition a)"

definition apply_mutation :: "advice \<Rightarrow> advice_mutation \<Rightarrow> (advice_error, advice) outcome" where
  "apply_mutation a m =
    (case m of
       ExtendStack s \<Rightarrow> extend_advice_stack a s
     | ExtendMap other \<Rightarrow> extend_map a other
     | ExtendMerkleStore ns \<Rightarrow> extend_merkle_store a ns)"

fun apply_all :: "advice \<Rightarrow> advice_mutation list \<Rightarrow> (advice_error, advice) outcome" where
  "apply_all a [] = Ok a"
| "apply_all a (m # ms) = bindO (apply_mutation a m) (\<lambda>a. apply_all a ms)"

definition apply_mutations :: "advice \<Rightarrow> advice_mutation list \<Rightarrow> (advice_error, advice) outcome" where
  "apply_mutations a ms = bindO (validate_mutations a ms) (\<lambda>_. apply_all a ms)"

text \<open>\<open>AdviceProvider::new\<close> and \<open>extend_from_inputs\<close>, from the stack, the map and the inner nodes
  of the store of the inputs.\<close>

definition advice_new ::
    "qword list \<Rightarrow> nat \<Rightarrow> advice_stack \<Rightarrow> advice_map \<Rightarrow> inner_node list \<Rightarrow> (advice_error, advice) outcome"
  where
  "advice_new empty_subtrees max_bytes stack mp nodes =
    (let a = advice_empty empty_subtrees max_bytes in
     bindO (check_advice_size_addition a 0) (\<lambda>_.
     bindO (extend_advice_stack a stack) (\<lambda>a.
     bindO (extend_merkle_store a nodes) (\<lambda>a. extend_map a mp))))"

definition extend_from_inputs ::
    "advice \<Rightarrow> advice_stack \<Rightarrow> advice_map \<Rightarrow> inner_node list \<Rightarrow> (advice_error, advice) outcome" where
  "extend_from_inputs a stack mp nodes =
    apply_mutations a [ExtendStack stack, ExtendMerkleStore nodes, ExtendMap mp]"

section \<open>The byte count\<close>

lemmas byte_sizes = FELT_SIZE_BYTES_def WORD_SIZE_BYTES_def INTERNAL_NODE_SIZE_BYTES_def

text \<open>What the provider holds, in bytes.\<close>

definition map_bytes :: "advice_map \<Rightarrow> nat" where
  "map_bytes m = (\<Sum>k \<in> fset (fmdom m). 32 + 8 * length (the (fmlookup m k)))"

definition held_bytes :: "advice \<Rightarrow> nat" where
  "held_bytes a =
    8 * length (adv_stack a) + map_bytes (adv_map a) + 96 * fcard (fmdom (adv_store a))"

definition wf_advice :: "advice \<Rightarrow> bool" where
  "wf_advice a \<longleftrightarrow>
    merkle_store_node_count a = fcard (fmdom (adv_store a)) \<and>
    advice_size_bytes a = held_bytes a \<and>
    held_bytes a \<le> max_advice_size_bytes a \<and> max_advice_size_bytes a \<le> usize_max"

lemma contains_internal_node_iff [simp]: "contains_internal_node st r \<longleftrightarrow> r |\<in>| fmdom st"
  by (auto simp: contains_internal_node_def get_node_def node_index_root_def fmlookup_dom_iff
      split: option.split)

lemma count_new_fcard:
  "count_new st seen c rs = c + fcard ((fset_of_list rs |-| seen) |-| fmdom st)"
proof (induction rs arbitrary: seen c)
  case (Cons r rs)
  have eq: "(fset_of_list (r # rs) |-| seen) |-| fmdom st =
      (if r |\<notin>| seen \<and> r |\<notin>| fmdom st
       then finsert r ((fset_of_list rs |-| finsert r seen) |-| fmdom st)
       else (fset_of_list rs |-| finsert r seen) |-| fmdom st)"
    by auto
  have "r |\<notin>| (fset_of_list rs |-| finsert r seen) |-| fmdom st" by simp
  then show ?case
    unfolding eq by (simp add: Cons.IH fcard_finsert_disjoint)
qed simp

lemma new_internal_node_count_eq:
  "new_internal_node_count st rs = fcard (fset_of_list rs |-| fmdom st)"
  by (simp add: new_internal_node_count_def count_new_fcard)

lemma fcard_funion_diff: "fcard (A |\<union>| B) = fcard A + fcard (B |-| A)"
  using card_Un_disjoint [of "fset A" "fset B - fset A"] by (simp add: fcard.rep_eq Un_Diff_cancel)

lemma fcard_store_extend:
  "fcard (fmdom (store_extend st ns)) =
    fcard (fmdom st) + new_internal_node_count st (map in_value ns)"
  by (simp only: fmdom_store_extend fcard_funion_diff new_internal_node_count_eq)

lemma check_advice_size_addition_Ok:
  "check_advice_size_addition a n = Ok u \<longleftrightarrow>
    advice_size_bytes a + n \<le> usize_max \<and> advice_size_bytes a + n \<le> max_advice_size_bytes a"
  by (auto simp: check_advice_size_addition_def checked_add_def split: option.split if_splits)

lemma felt_bytes_Ok: "felt_bytes n = Ok b \<longleftrightarrow> b = 8 * n \<and> 8 * n \<le> usize_max"
  by (auto simp: felt_bytes_def checked_mul_def byte_sizes mult.commute split: option.split if_splits)

lemma merkle_node_bytes_Ok: "merkle_node_bytes n = Ok b \<longleftrightarrow> b = 96 * n \<and> 96 * n \<le> usize_max"
  by (auto simp: merkle_node_bytes_def checked_mul_def byte_sizes mult.commute split: option.split if_splits)

lemma map_entry_bytes_Ok:
  "map_entry_bytes n = Ok b \<longleftrightarrow> b = 32 + 8 * n \<and> 32 + 8 * n \<le> usize_max"
  by (auto simp: map_entry_bytes_def outcome_simps felt_bytes_Ok checked_add_def byte_sizes
      split: option.split if_splits)

lemmas budget_Ok = check_advice_size_addition_Ok felt_bytes_Ok merkle_node_bytes_Ok
  map_entry_bytes_Ok check_stack_capacity_def check_merkle_store_node_addition_def outcome_simps

lemma prepend_elements_eq [simp]: "prepend_elements s xs = xs @ s"
proof -
  have "fold (\<lambda>x s. x # s) ys s = rev ys @ s" for ys
    by (induction ys arbitrary: s) simp_all
  then show ?thesis by (simp add: prepend_elements_def)
qed

lemma next_multiple_of_ge: "n \<le> next_multiple_of n k"
  by (simp add: next_multiple_of_def)

lemma map_bytes_fmupd:
  assumes "k |\<notin>| fmdom m"
  shows "map_bytes (fmupd k vs m) = map_bytes m + 32 + 8 * length vs"
proof -
  have "(\<Sum>j \<in> fset (fmdom m). 32 + 8 * length (the (fmlookup (fmupd k vs m) j))) = map_bytes m"
    unfolding map_bytes_def using assms by (intro sum.cong) auto
  then show ?thesis
    using assms by (simp add: map_bytes_def)
qed

section \<open>Every operation keeps the count exact\<close>

lemma advice_empty_wf:
  assumes "96 * fcard (fmdom (store_new tbl)) \<le> max_bytes" "max_bytes \<le> usize_max"
  shows "wf_advice (advice_empty tbl max_bytes)"
  using assms by (simp add: wf_advice_def advice_empty_def Let_def held_bytes_def map_bytes_def byte_sizes)

lemma consume_word_Some: "consume_word s = Some (w, t) \<longleftrightarrow> s = into_elements w @ t"
  by (cases w) (auto simp: consume_word_def split: list.splits)

lemma consume_word_append [simp]: "consume_word (into_elements w @ t) = Some (w, t)"
  by (simp add: consume_word_Some)

lemma consume_dword_Some:
  "consume_dword s = Some ((v, w), t) \<longleftrightarrow> s = into_elements v @ into_elements w @ t"
  by (auto simp: consume_dword_def consume_word_Some split: option.splits)

lemma pop_stack_wf:
  assumes "wf_advice a"
  shows "pop_stack a = (case adv_stack a of [] \<Rightarrow> Err StackReadFailed
      | x # s \<Rightarrow> Ok (x, a\<lparr>adv_stack := s, advice_size_bytes := advice_size_bytes a - 8\<rparr>))"
    and "pop_stack a = Ok (x, a') \<Longrightarrow> wf_advice a'"
  using assms
  by (auto simp: pop_stack_def consume_element_def usub_def wf_advice_def held_bytes_def byte_sizes
      split: list.splits)

lemma pop_stack_word_wf:
  assumes "wf_advice a" "pop_stack_word a = Ok (w, a')"
  shows "wf_advice a'" "adv_stack a = into_elements w @ adv_stack a'"
  using assms
  by (auto simp: pop_stack_word_def consume_word_Some usub_def wf_advice_def held_bytes_def byte_sizes
      split: option.splits if_splits)

lemma pop_stack_dword_wf:
  assumes "wf_advice a" "pop_stack_dword a = Ok ((v, w), a')"
  shows "wf_advice a'" "adv_stack a = into_elements v @ into_elements w @ adv_stack a'"
  using assms
  by (auto simp: pop_stack_dword_def consume_dword_Some usub_def wf_advice_def held_bytes_def byte_sizes
      split: option.splits if_splits)

lemma push_stack_wf: "wf_advice a \<Longrightarrow> push_stack a x = Ok a' \<Longrightarrow> wf_advice a'"
  by (auto simp: push_stack_def budget_Ok wf_advice_def held_bytes_def byte_sizes)

lemma push_stack_word_wf: "wf_advice a \<Longrightarrow> push_stack_word a w = Ok a' \<Longrightarrow> wf_advice a'"
  by (auto simp: push_stack_word_def budget_Ok wf_advice_def held_bytes_def byte_sizes)

lemma extend_advice_stack_wf: "wf_advice a \<Longrightarrow> extend_advice_stack a s = Ok a' \<Longrightarrow> wf_advice a'"
  by (auto simp: extend_advice_stack_def budget_Ok wf_advice_def held_bytes_def byte_sizes)

lemma push_from_map_wf: "wf_advice a \<Longrightarrow> push_from_map a key il pad = Ok a' \<Longrightarrow> wf_advice a'"
  using next_multiple_of_ge [of "length (the (fmlookup (adv_map a) key))" pad]
  by (auto simp: push_from_map_def budget_Ok wf_advice_def held_bytes_def byte_sizes checked_add_def Let_def
      split: option.splits if_splits bind_splits)

lemma insert_into_map_wf: "wf_advice a \<Longrightarrow> insert_into_map a key vs = Ok a' \<Longrightarrow> wf_advice a'"
  by (auto simp: insert_into_map_def budget_Ok wf_advice_def held_bytes_def byte_sizes map_bytes_fmupd
      fmlookup_dom_iff split: option.splits if_splits)

lemma extend_merkle_store_wf: "wf_advice a \<Longrightarrow> extend_merkle_store a ns = Ok a' \<Longrightarrow> wf_advice a'"
  by (auto simp: extend_merkle_store_def budget_Ok wf_advice_def held_bytes_def byte_sizes
      fcard_store_extend Let_def)

text \<open>The loop of \<open>extend_map\<close> charges exactly the entries the merge inserts.\<close>

definition fresh_bytes :: "advice_map \<Rightarrow> (qword \<times> felt list) list \<Rightarrow> nat" where
  "fresh_bytes m es = sum_list (map (\<lambda>(k, vs). 32 + 8 * length vs) (filter (\<lambda>(k, vs). k |\<notin>| fmdom m) es))"

lemma fresh_bytes_Cons:
  "fresh_bytes m ((k, vs) # es) =
    (if k |\<in>| fmdom m then 0 else 32 + 8 * length vs) + fresh_bytes m es"
  by (simp add: fresh_bytes_def)

lemma extend_map_added_Ok:
  "extend_map_added a added es = Ok total_added \<Longrightarrow>
    find_conflict (adv_map a) es = None \<and> total_added = added + fresh_bytes (adv_map a) es"
proof (induction es arbitrary: added)
  case (Cons e es)
  then show ?case
    by (cases e) (auto simp: fresh_bytes_def budget_Ok checked_add_def fmlookup_dom_iff
        dest!: Cons.IH split: option.splits if_splits)
qed (simp add: fresh_bytes_def)

lemma merge_new_Cons:
  "merge_new m ((k, v) # es) = merge_new (if k |\<in>| fmdom m then m else fmupd k v m) es"
  by (simp add: merge_new_def)

lemma fresh_bytes_fmupd:
  "k \<notin> fst ` set es \<Longrightarrow> fresh_bytes (fmupd k v m) es = fresh_bytes m es"
  unfolding fresh_bytes_def by (rule arg_cong [of _ _ "\<lambda>xs. sum_list (map _ xs)"], rule filter_cong) force+

lemma map_bytes_merge_new:
  "distinct (map fst es) \<Longrightarrow> map_bytes (merge_new m es) = map_bytes m + fresh_bytes m es"
proof (induction es arbitrary: m)
  case Nil
  then show ?case by (simp add: merge_new_def fresh_bytes_def)
next
  case (Cons e es)
  obtain k v where e: "e = (k, v)" by (cases e)
  have "k \<notin> fst ` set es" "distinct (map fst es)"
    using Cons.prems e by auto
  then show ?case
    using Cons.IH [of m] Cons.IH [of "fmupd k v m"] fresh_bytes_fmupd [of k es v m]
    by (simp add: e merge_new_Cons map_bytes_fmupd) (simp add: fresh_bytes_def)
qed

lemma distinct_map_entries [simp]: "distinct (map fst (map_entries m))"
  by (simp add: map_entries_def comp_def sorted_list_of_fset.rep_eq)

lemma extend_map_wf:
  assumes "wf_advice a" "extend_map a other = Ok a'"
  shows "wf_advice a'"
  using assms extend_map_added_Ok [of a 0 "map_entries other"] map_bytes_merge_new [of "map_entries other"]
  by (auto simp: extend_map_def budget_Ok wf_advice_def held_bytes_def map_merge_def split: option.splits)

lemma map_bytes_entries: "map_bytes m = sum_list (map (\<lambda>(k, vs). 32 + 8 * length vs) (map_entries m))"
proof -
  have "sum_list (map (\<lambda>k. 32 + 8 * length (the (fmlookup m k))) (sorted_list_of_fset (fmdom m))) =
      (\<Sum>k \<in> fset (fmdom m). 32 + 8 * length (the (fmlookup m k)))"
    by (subst sum_list_distinct_conv_sum_set) (simp_all add: sorted_list_of_fset.rep_eq)
  then show ?thesis
    by (simp add: map_bytes_def map_entries_def comp_def)
qed

lemma total_count_loop_Some:
  "total_count_loop n es = Some t \<Longrightarrow>
    8 * t = 8 * n + sum_list (map (\<lambda>(k, vs). 32 + 8 * length vs) es)"
  by (induction n es rule: total_count_loop.induct)
    (auto simp: checked_add_def WORD_SIZE_def split: option.splits if_splits)

lemma compute_advice_size_bytes_Ok:
  assumes "merkle_store_node_count a = fcard (fmdom (adv_store a))" "compute_advice_size_bytes a = Ok n"
  shows "n = held_bytes a"
  using assms total_count_loop_Some [of 0 "map_entries (adv_map a)"]
  by (auto simp: compute_advice_size_bytes_def total_element_count_def budget_Ok checked_add_def
      held_bytes_def map_bytes_entries split: option.splits if_splits bind_splits)

lemma held_bytes_update [simp]:
  "held_bytes (a\<lparr>advice_size_bytes := n\<rparr>) = held_bytes a"
  "held_bytes (a\<lparr>max_advice_size_bytes := n\<rparr>) = held_bytes a"
  "held_bytes (a\<lparr>merkle_store_node_count := n\<rparr>) = held_bytes a"
  by (simp_all add: held_bytes_def)

lemma set_options_wf:
  assumes "wf_advice a" "set_options a max_bytes = Ok a'" "max_bytes \<le> usize_max"
  shows "wf_advice a'"
  using assms compute_advice_size_bytes_Ok [of a]
  by (auto simp: set_options_def wf_advice_def outcome_simps split: if_splits)

lemma update_merkle_node_wf:
  assumes "wf_advice a" "update_merkle_node perm a root depth index v = Ok ((path, new_root), a')"
  shows "wf_advice a'"
proof -
  obtain idx u where p: "get_path (adv_store a) root idx = Ok (u, path)"
    and or: "a' = a \<or> (\<exists>added st b r.
        new_path_node_count perm (adv_store a) (ni_position idx) v path = Ok added \<and>
        check_merkle_store_node_addition a added = Ok () \<and>
        add_merkle_path perm (adv_store a) (ni_position idx) v path = Ok (r, st) \<and>
        merkle_node_bytes added = Ok b \<and>
        a' = a\<lparr>adv_store := st, merkle_store_node_count := merkle_store_node_count a + added,
              advice_size_bytes := advice_size_bytes a + b\<rparr>)"
    using assms(2)
    by (auto simp: update_merkle_node_def bindO_eq_Ok split: if_splits)
  from or show ?thesis
  proof
    assume "a' = a"
    with assms(1) show ?thesis by simp
  next
    assume "\<exists>added st b r.
        new_path_node_count perm (adv_store a) (ni_position idx) v path = Ok added \<and>
        check_merkle_store_node_addition a added = Ok () \<and>
        add_merkle_path perm (adv_store a) (ni_position idx) v path = Ok (r, st) \<and>
        merkle_node_bytes added = Ok b \<and>
        a' = a\<lparr>adv_store := st, merkle_store_node_count := merkle_store_node_count a + added,
              advice_size_bytes := advice_size_bytes a + b\<rparr>"
    then obtain ns added where
      "added = new_internal_node_count (adv_store a) (map in_value ns)"
      "advice_size_bytes a + 96 * added \<le> max_advice_size_bytes a"
      "a' = a\<lparr>adv_store := store_extend (adv_store a) ns,
              merkle_store_node_count := merkle_store_node_count a + added,
              advice_size_bytes := advice_size_bytes a + 96 * added\<rparr>"
      by (auto simp: new_path_node_count_def add_merkle_path_fold add_path_fold budget_Ok)
    then show ?thesis
      using assms(1) by (simp add: wf_advice_def held_bytes_def fcard_store_extend)
  qed
qed

text \<open>On a well-formed provider the operations the processor calls never panic.\<close>

lemma pop_safe:
  assumes "wf_advice a"
  shows "pop_stack a \<noteq> Panic" "pop_stack_word a \<noteq> Panic" "pop_stack_dword a \<noteq> Panic"
  using assms
  by (auto simp: pop_stack_def consume_element_def pop_stack_word_def consume_word_Some pop_stack_dword_def
      consume_dword_Some usub_def wf_advice_def held_bytes_def byte_sizes split: list.splits option.splits)

lemma to_node_index_Ok: "to_node_index d i = Ok idx \<Longrightarrow> ni_depth idx \<le> 64"
  by (auto simp: to_node_index_def node_index_from_elements_def Let_def node_index_new_Ok split: if_splits)

lemma to_node_index_safe [simp]: "to_node_index d i \<noteq> Panic"
  by (simp add: to_node_index_def node_index_from_elements_def Let_def node_index_new_def)

lemma get_path_safe:
  assumes "ni_depth idx \<le> 255"
  shows "get_path st root idx \<noteq> Panic"
proof -
  have loop: "get_path_loop st idx i h acc \<noteq> Panic" for i h acc
    by (induction i arbitrary: h acc) (auto split: option.splits)
  show ?thesis
    using assms loop
    by (auto simp: get_path_def outcome_simps Let_def dest!: get_path_loop_extends split: option.splits)
qed

lemma get_merkle_path_safe:
  shows "get_merkle_path a root d i \<noteq> Panic"
    and "get_merkle_path a root d i = Ok path \<Longrightarrow> length path \<le> 64"
  using get_path_safe to_node_index_Ok [of d i] get_path_length
  by (fastforce simp: get_merkle_path_def outcome_simps)+

lemma path_nodes_safe:
  assumes "length path \<le> 64"
  shows "new_path_node_count perm st pos v path \<noteq> Panic" "add_merkle_path perm st pos v path \<noteq> Panic"
proof -
  have "authenticated_nodes perm path pos v \<noteq> Panic"
    using assms by (simp add: authenticated_nodes_def path_depth_def node_index_new_def)
  then show "new_path_node_count perm st pos v path \<noteq> Panic" "add_merkle_path perm st pos v path \<noteq> Panic"
    by (auto simp: new_path_node_count_def add_merkle_path_fold outcome_simps)
qed

lemma node_bytes_safe: "merkle_node_bytes n \<noteq> Panic" "check_merkle_store_node_addition a n \<noteq> Panic"
  by (auto simp: merkle_node_bytes_def check_merkle_store_node_addition_def check_advice_size_addition_def
      outcome_simps split: option.splits)

lemma update_merkle_node_path:
  assumes "update_merkle_node perm a root d i v = Ok ((path, r), a')"
  shows "length path \<le> 64"
proof -
  obtain idx u where "to_node_index d i = Ok idx" "get_path (adv_store a) root idx = Ok (u, path)"
    using assms by (auto simp: update_merkle_node_def bindO_eq_Ok split: if_splits)
  then show ?thesis using to_node_index_Ok get_path_length by metis
qed

lemma update_merkle_node_safe: "update_merkle_node perm a root d i v \<noteq> Panic"
  unfolding update_merkle_node_def
proof (intro bindO_safe to_node_index_safe)
  fix idx assume idx: "to_node_index d i = Ok idx"
  note depth = to_node_index_Ok [OF idx]
  show "map_err MerkleStoreUpdateFailed (get_path (adv_store a) root idx) \<noteq> Panic"
    using get_path_safe depth by simp
  fix x assume "map_err MerkleStoreUpdateFailed (get_path (adv_store a) root idx) = Ok x"
  then obtain u path where x: "x = (u, path)" "length path \<le> 64"
    using get_path_length depth by (cases x) fastforce
  show "(case x of (u, path) \<Rightarrow> if u = v then Ok ((path, root), a)
    else bindO (map_err MerkleStoreUpdateFailed
        (new_path_node_count perm (adv_store a) (ni_position idx) v path)) (\<lambda>added.
      bindO (check_merkle_store_node_addition a added) (\<lambda>_.
      bindO (map_err MerkleStoreUpdateFailed
        (add_merkle_path perm (adv_store a) (ni_position idx) v path)) (\<lambda>(new_root, st).
      bindO (merkle_node_bytes added) (\<lambda>b.
        Ok ((path, new_root),
            a\<lparr>adv_store := st, merkle_store_node_count := merkle_store_node_count a + added,
              advice_size_bytes := advice_size_bytes a + b\<rparr>)))))) \<noteq> Panic"
    using path_nodes_safe [OF x(2)] node_bytes_safe by (auto simp: x(1) bindO_eq_Panic)
qed

lemma advice_merge_roots_wf:
  assumes "wf_advice a" "advice_merge_roots perm a l r = Ok (root, a')"
  shows "wf_advice a'"
proof -
  have "fcard (fmdom (store_insert st n)) = fcard (fmdom st) + new_internal_node_count st [in_value n]"
    for st n
    using fcard_store_extend [of st "[n]"] by (simp add: store_extend_def)
  with assms show ?thesis
    by (auto simp: advice_merge_roots_def merge_roots_def budget_Ok wf_advice_def held_bytes_def Let_def)
qed

lemma advice_new_wf:
  assumes "advice_new tbl max_bytes s m ns = Ok a" "max_bytes \<le> usize_max"
  shows "wf_advice a"
proof -
  let ?e = "advice_empty tbl max_bytes"
  obtain b c where steps: "check_advice_size_addition ?e 0 = Ok ()" "extend_advice_stack ?e s = Ok b"
      "extend_merkle_store b ns = Ok c" "extend_map c m = Ok a"
    using assms(1) by (auto simp: advice_new_def Let_def bindO_eq_Ok)
  have "wf_advice ?e"
    using steps(1) assms(2)
    by (intro advice_empty_wf) (auto simp: check_advice_size_addition_Ok advice_empty_def Let_def byte_sizes)
  then show ?thesis
    using steps(2-4) extend_advice_stack_wf extend_merkle_store_wf extend_map_wf by blast
qed

section \<open>A validated batch is applied completely\<close>

text \<open>\<open>batch_inv a b acc\<close>: \<open>b\<close> is \<open>a\<close> after a prefix of the batch for which the validation
  has accumulated \<open>acc\<close>.\<close>

definition batch_inv :: "advice \<Rightarrow> advice \<Rightarrow> nat \<times> advice_map \<times> qword fset \<Rightarrow> bool" where
  "batch_inv a b acc \<longleftrightarrow>
    (case acc of (added, new_map, new_nodes) \<Rightarrow>
      advice_size_bytes b = advice_size_bytes a + added \<and>
      max_advice_size_bytes b = max_advice_size_bytes a \<and>
      adv_map b = adv_map a ++\<^sub>f new_map \<and> (\<forall>k. k |\<in>| fmdom new_map \<longrightarrow> k |\<notin>| fmdom (adv_map a)) \<and>
      fmdom (adv_store b) = fmdom (adv_store a) |\<union>| new_nodes)"

lemma validate_nodes_Ok:
  "validate_nodes a (added, nn) ns = Ok (added', nn') \<Longrightarrow>
    nn' = nn |\<union>| (fset_of_list (map in_value ns) |-| fmdom (adv_store a)) \<and>
    added' = added + 96 * fcard (fset_of_list (map in_value ns) |-| (fmdom (adv_store a) |\<union>| nn))"
proof (induction ns arbitrary: added nn)
  case (Cons n ns)
  let ?D = "fmdom (adv_store a)" and ?R = "fset_of_list (map in_value ns)" and ?v = "in_value n"
  show ?case
  proof (cases "?v |\<in>| ?D |\<union>| nn")
    case True
    then have "fset_of_list (map in_value (n # ns)) |-| (?D |\<union>| nn) = ?R |-| (?D |\<union>| nn)"
      by auto
    then show ?thesis
      using Cons.prems True by (auto dest!: Cons.IH)
  next
    case False
    then have "fset_of_list (map in_value (n # ns)) |-| (?D |\<union>| nn) =
        finsert ?v (?R |-| (?D |\<union>| finsert ?v nn))"
      by auto
    moreover have "?v |\<notin>| ?R |-| (?D |\<union>| finsert ?v nn)" by simp
    ultimately have card: "fcard (fset_of_list (map in_value (n # ns)) |-| (?D |\<union>| nn)) =
        Suc (fcard (?R |-| (?D |\<union>| finsert ?v nn)))"
      by (metis fcard_finsert_disjoint)
    have "validate_nodes a (added + 96, finsert ?v nn) ns = Ok (added', nn')"
      using Cons.prems False by (auto simp: checked_add_def byte_sizes split: if_splits)
    from Cons.IH [OF this] show ?thesis
      unfolding card using False by auto
  qed
qed simp

lemma extend_nodes_batch:
  assumes inv: "batch_inv a b (added, nm, nn)"
    and val: "validate_nodes a (added, nn) ns = Ok (added', nn')"
    and fit: "advice_size_bytes a + added' \<le> max_advice_size_bytes a" "max_advice_size_bytes a \<le> usize_max"
  shows "\<exists>b'. extend_merkle_store b ns = Ok b' \<and> batch_inv a b' (added', nm, nn')"
proof -
  let ?c = "new_internal_node_count (adv_store b) (map in_value ns)"
  have eq: "added' = added + 96 * ?c" "nn' = nn |\<union>| (fset_of_list (map in_value ns) |-| fmdom (adv_store a))"
    using validate_nodes_Ok [OF val] inv by (simp_all add: new_internal_node_count_eq batch_inv_def)
  have "check_merkle_store_node_addition b ?c = Ok ()" "merkle_node_bytes ?c = Ok (96 * ?c)"
    using inv fit eq(1) by (simp_all add: budget_Ok batch_inv_def)
  then show ?thesis
    using inv eq by (auto simp: extend_merkle_store_def batch_inv_def fmdom_store_extend Let_def)
qed

lemma find_conflict_fmupd: "k \<notin> fst ` set es \<Longrightarrow> find_conflict (fmupd k v m) es = find_conflict m es"
  by (induction m es rule: find_conflict.induct) (auto split: option.splits)

lemma fmadd_fmupd: "m ++\<^sub>f fmupd k v n = fmupd k v (m ++\<^sub>f n)"
  by (rule fmap_ext) simp

lemma validate_map_entries_Ok:
  assumes "validate_map_entries a (added, nm) es = Ok (added', nm')"
    "\<forall>k. k |\<in>| fmdom nm \<longrightarrow> k |\<notin>| fmdom (adv_map a)" "distinct (map fst es)"
  shows "find_conflict (adv_map a ++\<^sub>f nm) es = None \<and>
    (\<forall>(k, vs) \<in> set es. k |\<in>| fmdom (adv_map a ++\<^sub>f nm) \<or> 32 + 8 * length vs \<le> usize_max) \<and>
    added' = added + fresh_bytes (adv_map a ++\<^sub>f nm) es \<and>
    adv_map a ++\<^sub>f nm' = merge_new (adv_map a ++\<^sub>f nm) es \<and>
    (\<forall>k. k |\<in>| fmdom nm' \<longrightarrow> k |\<notin>| fmdom (adv_map a))"
  using assms
proof (induction es arbitrary: added nm)
  case Nil
  then show ?case by (simp add: fresh_bytes_def merge_new_def)
next
  case (Cons e es)
  obtain k vs where e: "e = (k, vs)" by (cases e)
  let ?m = "adv_map a ++\<^sub>f nm"
  have look: "(case fmlookup (adv_map a) k of Some e \<Rightarrow> Some e | None \<Rightarrow> fmlookup nm k) = fmlookup ?m k"
    using Cons.prems(2) by (cases "k |\<in>| fmdom nm") (auto simp: fmlookup_dom_iff split: option.split)
  have k: "k \<notin> fst ` set es" "distinct (map fst es)"
    using Cons.prems(3) e by auto
  show ?case
  proof (cases "fmlookup ?m k")
    case (Some old)
    then have "old = vs" "validate_map_entries a (added, nm) es = Ok (added', nm')"
      using Cons.prems(1) by (auto simp: e look split: if_splits)
    moreover have "k |\<in>| fmdom ?m" using Some by (rule fmdomI)
    ultimately show ?thesis
      using Cons.IH [OF _ Cons.prems(2) k(2)] Some
      by (auto simp: e fresh_bytes_Cons merge_new_Cons)
  next
    case None
    then have new: "k |\<notin>| fmdom ?m" by (rule fmdom_notI)
    then have new_a: "k |\<notin>| fmdom (adv_map a)" by simp
    let ?nm = "fmupd k vs nm"
    have step: "32 + 8 * length vs \<le> usize_max"
      "validate_map_entries a (added + (32 + 8 * length vs), ?nm) es = Ok (added', nm')"
      using Cons.prems(1) None
      by (auto simp: e look budget_Ok checked_add_def split: option.splits if_splits)
    have "\<forall>k. k |\<in>| fmdom ?nm \<longrightarrow> k |\<notin>| fmdom (adv_map a)"
      using Cons.prems(2) new_a by auto
    from Cons.IH [OF step(2) this k(2)] have IH:
        "find_conflict ?m es = None" "added' = added + (32 + 8 * length vs) + fresh_bytes ?m es"
        "\<forall>(j, us) \<in> set es. j |\<in>| fmdom (fmupd k vs ?m) \<or> 32 + 8 * length us \<le> usize_max"
        "adv_map a ++\<^sub>f nm' = merge_new (fmupd k vs ?m) es"
        "\<forall>k. k |\<in>| fmdom nm' \<longrightarrow> k |\<notin>| fmdom (adv_map a)"
      unfolding fmadd_fmupd find_conflict_fmupd [OF k(1)] fresh_bytes_fmupd [OF k(1)] by blast+
    have "\<forall>(j, us) \<in> set es. j |\<in>| fmdom ?m \<or> 32 + 8 * length us \<le> usize_max"
      using IH(3) k(1) by fastforce
    then show ?thesis
      using IH new step(1) None by (simp add: e merge_new_Cons fresh_bytes_Cons del: fmdom_add fmlookup_add)
  qed
qed

lemma extend_map_added_complete:
  assumes "find_conflict (adv_map b) es = None"
    "\<forall>(k, vs) \<in> set es. k |\<in>| fmdom (adv_map b) \<or> 32 + 8 * length vs \<le> usize_max"
    "n + fresh_bytes (adv_map b) es \<le> usize_max"
  shows "extend_map_added b n es = Ok (n + fresh_bytes (adv_map b) es)"
  using assms
proof (induction es arbitrary: n)
  case (Cons e es)
  obtain k vs where e: "e = (k, vs)" by (cases e)
  show ?case
  proof (cases "fmlookup (adv_map b) k")
    case (Some old)
    then have "k |\<in>| fmdom (adv_map b)" by (rule fmdomI)
    then show ?thesis
      using Cons.prems Some by (simp add: e fresh_bytes_Cons Cons.IH split: if_splits)
  next
    case None
    then have "k |\<notin>| fmdom (adv_map b)" by (rule fmdom_notI)
    moreover from this have "map_entry_bytes (length vs) = Ok (32 + 8 * length vs)"
      using Cons.prems(2) by (simp add: e map_entry_bytes_Ok)
    ultimately show ?thesis
      using Cons.prems None by (simp add: e fresh_bytes_Cons Cons.IH checked_add_def)
  qed
qed (simp add: fresh_bytes_def)

lemma extend_map_batch:
  assumes inv: "batch_inv a b (added, nm, nn)"
    and val: "validate_map_entries a (added, nm) (map_entries m) = Ok (added', nm')"
    and fit: "advice_size_bytes a + added' \<le> max_advice_size_bytes a" "max_advice_size_bytes a \<le> usize_max"
  shows "\<exists>b'. extend_map b m = Ok b' \<and> batch_inv a b' (added', nm', nn)"
proof -
  let ?es = "map_entries m"
  have b: "adv_map b = adv_map a ++\<^sub>f nm" "advice_size_bytes b = advice_size_bytes a + added"
      "max_advice_size_bytes b = max_advice_size_bytes a"
    using inv by (simp_all add: batch_inv_def)
  have v: "find_conflict (adv_map b) ?es = None"
      "\<forall>(k, vs) \<in> set ?es. k |\<in>| fmdom (adv_map b) \<or> 32 + 8 * length vs \<le> usize_max"
      "added' = added + fresh_bytes (adv_map b) ?es"
      "adv_map a ++\<^sub>f nm' = merge_new (adv_map b) ?es"
      "\<forall>k. k |\<in>| fmdom nm' \<longrightarrow> k |\<notin>| fmdom (adv_map a)"
    using validate_map_entries_Ok [OF val] inv b(1) by (simp_all add: batch_inv_def)
  have "extend_map_added b 0 ?es = Ok (fresh_bytes (adv_map b) ?es)"
    using extend_map_added_complete [OF v(1,2), of 0] v(3) fit by simp
  moreover have "check_advice_size_addition b (fresh_bytes (adv_map b) ?es) = Ok ()"
    using b fit v(3) by (simp add: check_advice_size_addition_Ok)
  ultimately show ?thesis
    using inv v by (simp add: extend_map_def map_merge_def batch_inv_def)
qed

lemma validate_nodes_mono: "validate_nodes a (added, nn) ns = Ok (added', nn') \<Longrightarrow> added \<le> added'"
  by (drule validate_nodes_Ok) simp

lemma validate_map_entries_mono:
  "validate_map_entries a (added, nm) es = Ok (added', nm') \<Longrightarrow> added \<le> added'"
proof (induction es arbitrary: added nm)
  case (Cons e es)
  show ?case
    using Cons.prems
    by (cases e) (auto simp: bindO_eq_Ok map_entry_bytes_Ok checked_add_def dest!: Cons.IH
        split: option.splits if_splits)
qed simp

lemma validate_loop_stack:
  assumes "validate_loop a (added, nm, nn) (ExtendStack s # ms) = Ok n"
  shows "8 * length s \<le> usize_max" "validate_loop a (added + 8 * length s, nm, nn) ms = Ok n"
  using assms by (auto simp: bindO_eq_Ok felt_bytes_Ok checked_add_def split: if_splits)

lemma validate_loop_mono: "validate_loop a acc ms = Ok n \<Longrightarrow> fst acc \<le> n"
proof (induction ms arbitrary: acc)
  case Nil
  then show ?case by (cases acc) simp
next
  case (Cons m ms)
  obtain added nm nn where acc: "acc = (added, nm, nn)" by (cases acc)
  show ?case
  proof (cases m)
    case (ExtendStack s)
    then show ?thesis
      using Cons.IH [OF validate_loop_stack(2)] Cons.prems by (force simp: acc)
  next
    case (ExtendMap other)
    then show ?thesis
      using Cons.prems by (force simp: acc bindO_eq_Ok dest: Cons.IH validate_map_entries_mono)
  next
    case (ExtendMerkleStore ns)
    then show ?thesis
      using Cons.prems by (force simp: acc bindO_eq_Ok dest: Cons.IH validate_nodes_mono)
  qed
qed

lemma extend_stack_batch:
  assumes "batch_inv a b (added, nm, nn)" "8 * length s \<le> usize_max"
    "advice_size_bytes a + (added + 8 * length s) \<le> max_advice_size_bytes a"
    "max_advice_size_bytes a \<le> usize_max"
  shows "\<exists>b'. extend_advice_stack b s = Ok b' \<and> batch_inv a b' (added + 8 * length s, nm, nn)"
proof -
  have "check_stack_capacity b (length s) = Ok ()" "felt_bytes (length s) = Ok (8 * length s)"
    using assms by (simp_all add: budget_Ok batch_inv_def)
  then show ?thesis
    using assms(1) by (simp add: extend_advice_stack_def batch_inv_def)
qed

lemma apply_all_batch:
  assumes "validate_loop a acc ms = Ok n" "batch_inv a b acc"
    "advice_size_bytes a + n \<le> max_advice_size_bytes a" "max_advice_size_bytes a \<le> usize_max"
  shows "\<exists>b'. apply_all b ms = Ok b'"
  using assms
proof (induction ms arbitrary: acc b)
  case Nil
  then show ?case by simp
next
  case (Cons m ms)
  obtain added nm nn where acc: "acc = (added, nm, nn)" by (cases acc)
  note prems = Cons.prems [unfolded acc]
  have "\<exists>acc' b'. validate_loop a acc' ms = Ok n \<and> apply_mutation b m = Ok b' \<and> batch_inv a b' acc'"
  proof (cases m)
    case (ExtendStack s)
    note v = validate_loop_stack [OF prems(1) [unfolded ExtendStack]]
    have "advice_size_bytes a + (added + 8 * length s) \<le> max_advice_size_bytes a"
      using validate_loop_mono [OF v(2)] prems(3) by simp
    then obtain b' where "extend_advice_stack b s = Ok b'" "batch_inv a b' (added + 8 * length s, nm, nn)"
      using extend_stack_batch [OF prems(2) v(1) _ prems(4)] by blast
    then show ?thesis
      using v(2) ExtendStack by (auto simp: apply_mutation_def)
  next
    case (ExtendMap other)
    then obtain added' nm' where v: "validate_map_entries a (added, nm) (map_entries other) = Ok (added', nm')"
        "validate_loop a (added', nm', nn) ms = Ok n"
      using prems(1) by (auto simp: bindO_eq_Ok)
    have "advice_size_bytes a + added' \<le> max_advice_size_bytes a"
      using validate_loop_mono [OF v(2)] prems(3) by simp
    then obtain b' where "extend_map b other = Ok b'" "batch_inv a b' (added', nm', nn)"
      using extend_map_batch [OF prems(2) v(1) _ prems(4)] by blast
    then show ?thesis
      using v(2) ExtendMap by (auto simp: apply_mutation_def)
  next
    case (ExtendMerkleStore ns)
    then obtain added' nn' where v: "validate_nodes a (added, nn) ns = Ok (added', nn')"
        "validate_loop a (added', nm, nn') ms = Ok n"
      using prems(1) by (auto simp: bindO_eq_Ok)
    have "advice_size_bytes a + added' \<le> max_advice_size_bytes a"
      using validate_loop_mono [OF v(2)] prems(3) by simp
    then obtain b' where "extend_merkle_store b ns = Ok b'" "batch_inv a b' (added', nm, nn')"
      using extend_nodes_batch [OF prems(2) v(1) _ prems(4)] by blast
    then show ?thesis
      using v(2) ExtendMerkleStore by (auto simp: apply_mutation_def)
  qed
  then show ?case
    using Cons.IH prems(3,4) by fastforce
qed

lemma apply_mutation_wf: "wf_advice a \<Longrightarrow> apply_mutation a m = Ok a' \<Longrightarrow> wf_advice a'"
  by (cases m) (auto simp: apply_mutation_def intro: extend_advice_stack_wf extend_map_wf extend_merkle_store_wf)

lemma apply_all_wf: "wf_advice a \<Longrightarrow> apply_all a ms = Ok a' \<Longrightarrow> wf_advice a'"
proof (induction ms arbitrary: a)
  case (Cons m ms)
  then obtain b where b: "apply_mutation a m = Ok b" "apply_all b ms = Ok a'"
    by (auto simp: bindO_eq_Ok)
  with Cons show ?case by (blast intro: apply_mutation_wf)
qed simp

lemma apply_mutations_wf: "wf_advice a \<Longrightarrow> apply_mutations a ms = Ok a' \<Longrightarrow> wf_advice a'"
  by (auto simp: apply_mutations_def bindO_eq_Ok intro: apply_all_wf)

lemma extend_from_inputs_wf: "wf_advice a \<Longrightarrow> extend_from_inputs a xs m ns = Ok a' \<Longrightarrow> wf_advice a'"
  by (simp add: extend_from_inputs_def apply_mutations_wf)

lemma apply_mutations_complete:
  assumes "wf_advice a" "validate_mutations a ms = Ok ()"
  shows "\<exists>a'. apply_all a ms = Ok a' \<and> wf_advice a'"
proof -
  obtain n where n: "validate_loop a (0, fmempty, {||}) ms = Ok n"
      "advice_size_bytes a + n \<le> max_advice_size_bytes a"
    using assms(2) by (auto simp: validate_mutations_def budget_Ok)
  have "batch_inv a a (0, fmempty, {||})" by (simp add: batch_inv_def)
  moreover have "max_advice_size_bytes a \<le> usize_max"
    using assms(1) by (simp add: wf_advice_def)
  ultimately show ?thesis
    using apply_all_batch [OF n(1) _ n(2)] apply_all_wf [OF assms(1)] by blast
qed

section \<open>Correctness\<close>

lemma bytes_safe: "felt_bytes n \<noteq> Panic" "map_entry_bytes n \<noteq> Panic" "check_advice_size_addition a n \<noteq> Panic"
  by (auto simp: felt_bytes_def map_entry_bytes_def check_advice_size_addition_def bindO_eq_Panic split: option.splits)

lemma validate_entries_safe: "validate_map_entries a acc es \<noteq> Panic"
  by (induction a acc es rule: validate_map_entries.induct)
    (auto simp: bindO_eq_Panic bytes_safe split: option.splits)

lemma validate_nodes_safe: "validate_nodes a acc ns \<noteq> Panic"
  by (induction a acc ns rule: validate_nodes.induct) (auto split: option.splits)

lemma validate_loop_safe: "validate_loop a acc ms \<noteq> Panic"
  by (induction a acc ms rule: validate_loop.induct)
    (auto simp: bindO_eq_Panic bytes_safe validate_entries_safe validate_nodes_safe split: option.splits)

lemma validate_mutations_safe: "validate_mutations a ms \<noteq> Panic"
  by (simp add: validate_mutations_def bindO_eq_Panic validate_loop_safe bytes_safe)

text \<open>C21: A batch of advice mutations is applied completely or not at all: on a provider whose byte count is
  exact, \<open>apply_mutations\<close> either applies every mutation, and the count is exact and within the budget
  afterwards, or fails in the validation that precedes the first change.\<close>

theorem mutations_atomic:
  assumes "wf_advice a"
  shows "(\<exists>a'. apply_mutations a ms = Ok a' \<and> apply_all a ms = Ok a' \<and> wf_advice a') \<or>
    (\<exists>e. validate_mutations a ms = Err e \<and> apply_mutations a ms = Err e)"
  using apply_mutations_complete [OF assms, of ms] validate_mutations_safe [of a ms]
  by (cases "validate_mutations a ms") (auto simp: apply_mutations_def)

theorem mutations_atomic_witness:
  "\<exists>a. wf_advice a \<and> (\<exists>a'. apply_mutations a [ExtendStack [1, 2]] = Ok a' \<and> wf_advice a')"
proof -
  define a where "a = advice_empty [] 1000"
  have wf: "wf_advice a"
    unfolding a_def by (rule advice_empty_wf) (simp_all add: store_new_def store_extend_def fcard.rep_eq usize_max_def)
  have "validate_mutations a [ExtendStack [1, 2]] = Ok ()"
    by (simp add: validate_mutations_def felt_bytes_def checked_mul_def checked_add_def check_advice_size_addition_def
        byte_sizes a_def advice_empty_def usize_max_def store_new_def store_extend_def fcard.rep_eq)
  then show ?thesis
    using mutations_atomic [OF wf, of "[ExtendStack [1, 2]]"] wf by auto
qed

text \<open>C22: Every operation that changes the advice provider keeps its byte count equal to the bytes held by the
  stack, the map and the Merkle store, and within the budget: pops, pushes, extensions of the stack, insertions in the
  map and extensions of it, Merkle updates, merges and extensions of the store, single mutations, batches of them and
  inputs, and a change of the budget. A provider made from inputs starts that way.\<close>

theorem advice_byte_count:
  assumes "wf_advice a"
  shows "(\<forall>x a'. pop_stack a = Ok (x, a') \<longrightarrow> wf_advice a') \<and> (\<forall>w a'. pop_stack_word a = Ok (w, a') \<longrightarrow> wf_advice a') \<and>
    (\<forall>v w a'. pop_stack_dword a = Ok ((v, w), a') \<longrightarrow> wf_advice a') \<and> (\<forall>x a'. push_stack a x = Ok a' \<longrightarrow> wf_advice a') \<and>
    (\<forall>w a'. push_stack_word a w = Ok a' \<longrightarrow> wf_advice a') \<and>
    (\<forall>k il pad a'. push_from_map a k il pad = Ok a' \<longrightarrow> wf_advice a') \<and>
    (\<forall>k vs a'. insert_into_map a k vs = Ok a' \<longrightarrow> wf_advice a') \<and>
    (\<forall>root d i v path r a'. update_merkle_node perm a root d i v = Ok ((path, r), a') \<longrightarrow> wf_advice a') \<and>
    (\<forall>l r root a'. advice_merge_roots perm a l r = Ok (root, a') \<longrightarrow> wf_advice a') \<and>
    (\<forall>n a'. n \<le> usize_max \<longrightarrow> set_options a n = Ok a' \<longrightarrow> wf_advice a') \<and>
    (\<forall>xs a'. extend_advice_stack a xs = Ok a' \<longrightarrow> wf_advice a') \<and> (\<forall>m a'. extend_map a m = Ok a' \<longrightarrow> wf_advice a') \<and>
    (\<forall>ns a'. extend_merkle_store a ns = Ok a' \<longrightarrow> wf_advice a') \<and>
    (\<forall>m a'. apply_mutation a m = Ok a' \<longrightarrow> wf_advice a') \<and>
    (\<forall>ms a'. apply_mutations a ms = Ok a' \<longrightarrow> wf_advice a') \<and>
    (\<forall>xs m ns a'. extend_from_inputs a xs m ns = Ok a' \<longrightarrow> wf_advice a') \<and>
    (\<forall>tbl n xs m ns a'. n \<le> usize_max \<longrightarrow> advice_new tbl n xs m ns = Ok a' \<longrightarrow> wf_advice a')"
  using pop_stack_wf(2) [OF assms] pop_stack_word_wf(1) [OF assms] pop_stack_dword_wf(1) [OF assms]
    push_stack_wf [OF assms] push_stack_word_wf [OF assms] push_from_map_wf [OF assms]
    insert_into_map_wf [OF assms] update_merkle_node_wf [OF assms] advice_merge_roots_wf [OF assms]
    set_options_wf [OF assms] extend_advice_stack_wf [OF assms] extend_map_wf [OF assms]
    extend_merkle_store_wf [OF assms] apply_mutation_wf [OF assms] apply_mutations_wf [OF assms]
    extend_from_inputs_wf [OF assms] advice_new_wf
  by (intro conjI allI impI)

theorem advice_byte_count_witness:
  "\<exists>a. push_stack (advice_empty [] 1000) 7 = Ok a \<and> wf_advice a"
proof -
  have wf: "wf_advice (advice_empty [] 1000)"
    by (rule advice_empty_wf) (simp_all add: store_new_def store_extend_def fcard.rep_eq usize_max_def)
  have "\<exists>a. push_stack (advice_empty [] 1000) 7 = Ok a"
    by (simp add: push_stack_def check_stack_capacity_def felt_bytes_def checked_mul_def checked_add_def
        check_advice_size_addition_def byte_sizes advice_empty_def usize_max_def store_new_def store_extend_def
        fcard.rep_eq)
  then show ?thesis
    using advice_byte_count [OF wf, of "\<lambda>s. s", THEN conjunct2, THEN conjunct2, THEN conjunct2, THEN conjunct1] by blast
qed

end
