(* ===== verification/Machine.thy ===== *)
theory Machine
  imports Processor_If Memory Advice
begin

text \<open>
  What every processor of the development shares besides its operand stack: the execution options
  (\<open>processor/src/execution_options.rs\<close>), the system registers, the advice provider, the memory and
  the deferred state, with the implementations of the system, advice, memory and hasher traits that
  \<open>processor/src/fast/operation.rs\<close> gives for them. The record is extended by the stack of the fast
  processor and by the stack of the reference machine, so these implementations are written once.
\<close>

section \<open>Execution options\<close>

record exec_options =
  max_cycles :: u32
  expected_cycles :: u32
  core_trace_fragment_size :: nat
  opt_max_advice_size_bytes :: nat
  overlapped_trace_build :: bool
  max_hash_len_bytes :: nat
  max_num_continuations :: nat
  max_stack_depth :: nat
  max_memory_elements :: nat

datatype options_error =
    ExpectedCyclesTooBig u32 u32
  | MaxCycleNumTooSmall u32 nat
  | MaxCycleNumTooBig u32 u32
  | CoreTraceFragmentSizeTooSmall
  | MaxStackDepthTooSmall nat nat

definition MIN_STACK_DEPTH :: nat where
  "MIN_STACK_DEPTH = 16"

definition MIN_TRACE_LEN :: nat where
  "MIN_TRACE_LEN = 64"

definition MAX_CYCLES :: u32 where
  "MAX_CYCLES = 0x20000000"

definition default_options :: exec_options where
  "default_options =
    \<lparr>max_cycles = MAX_CYCLES, expected_cycles = word_of_nat MIN_TRACE_LEN,
     core_trace_fragment_size = 4096, opt_max_advice_size_bytes = 16 * 1024 * 1024,
     overlapped_trace_build = True, max_hash_len_bytes = 2 ^ 20, max_num_continuations = 2 ^ 16,
     max_stack_depth = 6615, max_memory_elements = 2 ^ 28\<rparr>"

text \<open>\<open>u32::next_power_of_two\<close>; beyond \<open>2^31\<close> the result does not fit and the call panics.\<close>

definition next_power_of_two :: "nat \<Rightarrow> nat" where
  "next_power_of_two n = (if n \<le> 1 then 1 else 2 ^ bit_length (n - 1))"

definition next_power_of_two_u32 :: "u32 \<Rightarrow> ('e, u32) outcome" where
  "next_power_of_two_u32 w =
    (let n = next_power_of_two (unat w) in if n < 2 ^ 32 then Ok (word_of_nat n) else Panic)"

definition options_new ::
    "u32 option \<Rightarrow> u32 \<Rightarrow> nat \<Rightarrow> (options_error, exec_options) outcome" where
  "options_new mc expected fragment_size =
    bindO (case mc of
        None \<Rightarrow> Ok MAX_CYCLES
      | Some c \<Rightarrow>
          if c > MAX_CYCLES then Err (MaxCycleNumTooBig c MAX_CYCLES)
          else if c < word_of_nat MIN_TRACE_LEN then Err (MaxCycleNumTooSmall c MIN_TRACE_LEN)
          else Ok c) (\<lambda>c.
    bindO (next_power_of_two_u32 expected) (\<lambda>e.
    let e = max e (word_of_nat MIN_TRACE_LEN) in
    if c < e then Err (ExpectedCyclesTooBig c e)
    else if fragment_size = 0 then Err CoreTraceFragmentSizeTooSmall
    else Ok (default_options\<lparr>max_cycles := c, expected_cycles := e,
               core_trace_fragment_size := fragment_size\<rparr>)))"

definition with_max_stack_depth :: "exec_options \<Rightarrow> nat \<Rightarrow> (options_error, exec_options) outcome" where
  "with_max_stack_depth opts d =
    (if d < MIN_STACK_DEPTH then Err (MaxStackDepthTooSmall d MIN_STACK_DEPTH)
     else Ok (opts\<lparr>max_stack_depth := d\<rparr>))"

section \<open>System state\<close>

text \<open>
  The type \<open>'d\<close> is the deferred state; \<open>env\<close> holds the code the processor calls through an
  interface of its own: the Poseidon2 permutation and the two methods of the deferred state.
\<close>

record 'd env =
  env_perm :: "hasher_state \<Rightarrow> hasher_state"
  env_deferred_root :: "'d \<Rightarrow> qword"
  env_log_verified_statement :: "'d \<Rightarrow> qword \<Rightarrow> qword \<Rightarrow> operation_error + 'd"

record 'd sys_state =
  clk :: row_index
  ctx :: context_id
  caller_hash :: qword
  advice_st :: advice
  memory_st :: memory
  system_call_state_stack :: "(context_id \<times> qword) list"
  options :: exec_options
  deferred_state :: 'd

definition increment_clock :: "('d, 'x) sys_state_scheme \<Rightarrow> ('d, 'x) sys_state_scheme" where
  "increment_clock p = p\<lparr>clk := clk p + 1\<rparr>"

definition log_deferred_statement ::
    "'d env \<Rightarrow> ('d, 'x) sys_state_scheme \<Rightarrow> qword \<Rightarrow> qword \<Rightarrow> ('d, 'x) sys_state_scheme exec" where
  "log_deferred_statement E p statement expected_root =
    (case env_log_verified_statement E (deferred_state p) statement expected_root of
       Inl e \<Rightarrow> Err (OperationErr e)
     | Inr d \<Rightarrow> Ok (p\<lparr>deferred_state := d\<rparr>))"

definition save_call_state :: "('d, 'x) sys_state_scheme \<Rightarrow> ('d, 'x) sys_state_scheme" where
  "save_call_state p =
    p\<lparr>system_call_state_stack := (ctx p, caller_hash p) # system_call_state_stack p\<rparr>"

definition restore_call_state :: "('d, 'x) sys_state_scheme \<Rightarrow> ('d, 'x) sys_state_scheme exec" where
  "restore_call_state p =
    (case system_call_state_stack p of
       [] \<Rightarrow> Err (OperationErr (OpInternal
         ''system call state stack should never be empty when restoring context''))
     | (c, h) # rest \<Rightarrow> Ok (p\<lparr>system_call_state_stack := rest, ctx := c, caller_hash := h\<rparr>))"

definition system_impl :: "'d env \<Rightarrow> ('d, 'x) sys_state_scheme system_interface" where
  "system_impl E =
    \<lparr>sys_caller_hash = caller_hash, sys_clock = clk, sys_ctx = ctx,
     sys_deferred_root = (\<lambda>p. env_deferred_root E (deferred_state p)),
     sys_set_caller_hash = (\<lambda>p h. p\<lparr>caller_hash := h\<rparr>),
     sys_set_ctx = (\<lambda>p c. p\<lparr>ctx := c\<rparr>),
     sys_increment_clock = increment_clock,
     sys_log_deferred_statement = log_deferred_statement E,
     sys_save_call_state = save_call_state,
     sys_restore_call_state = restore_call_state\<rparr>"

section \<open>Advice, memory and hasher\<close>

text \<open>Running an operation of the advice provider on the processor that owns it.\<close>

definition with_advice ::
    "('d, 'x) sys_state_scheme \<Rightarrow> (advice_error, 'a \<times> advice) outcome
      \<Rightarrow> ('a \<times> ('d, 'x) sys_state_scheme) exec" where
  "with_advice p r = bindO (map_err AdviceErr r) (\<lambda>(x, a). Ok (x, p\<lparr>advice_st := a\<rparr>))"

definition advice_impl :: "'d env \<Rightarrow> ('d, 'x) sys_state_scheme advice_interface" where
  "advice_impl E =
    \<lparr>adv_pop_stack = (\<lambda>p. with_advice p (pop_stack (advice_st p))),
     adv_pop_stack_word = (\<lambda>p. with_advice p (pop_stack_word (advice_st p))),
     adv_pop_stack_dword = (\<lambda>p. with_advice p (pop_stack_dword (advice_st p))),
     adv_get_merkle_path = (\<lambda>p root depth index.
       bindO (map_err AdviceErr (get_merkle_path (advice_st p) root depth index)) (\<lambda>path. Ok (Some path))),
     adv_update_merkle_node = (\<lambda>p root depth index v.
       bindO (with_advice p (update_merkle_node (env_perm E) (advice_st p) root depth index v))
         (\<lambda>((path, _), p). Ok (Some path, p)))\<rparr>"

definition memory_impl :: "('d, 'x) sys_state_scheme memory_interface" where
  "memory_impl =
    \<lparr>mem_read_element = (\<lambda>p c addr. map_err MemoryErr (read_element (memory_st p) c addr)),
     mem_read_word = (\<lambda>p c addr _. map_err MemoryErr (read_word (memory_st p) c addr)),
     mem_write_element = (\<lambda>p c addr x.
       bindO (map_err MemoryErr (write_element (memory_st p) c addr x)) (\<lambda>m. Ok (p\<lparr>memory_st := m\<rparr>))),
     mem_write_word = (\<lambda>p c addr _ w.
       bindO (map_err MemoryErr (write_word (memory_st p) c addr w)) (\<lambda>m. Ok (p\<lparr>memory_st := m\<rparr>)))\<rparr>"

definition hasher_permute :: "'d env \<Rightarrow> hasher_state \<Rightarrow> (felt \<times> hasher_state) exec" where
  "hasher_permute E st = Ok (0, env_perm E st)"

definition verify_merkle_root ::
    "'d env \<Rightarrow> qword \<Rightarrow> qword \<Rightarrow> merkle_path option \<Rightarrow> felt \<Rightarrow> operation_error \<Rightarrow> felt exec" where
  "verify_merkle_root E claimed_root v path index on_err =
    (case path of
       None \<Rightarrow> Panic
     | Some path \<Rightarrow>
         (case path_verify (env_perm E) path (as_canonical_u64 index) v claimed_root of
            Ok _ \<Rightarrow> Ok 0 | Err _ \<Rightarrow> Err (OperationErr on_err) | Panic \<Rightarrow> Panic))"

definition update_merkle_root ::
    "'d env \<Rightarrow> qword \<Rightarrow> qword \<Rightarrow> qword \<Rightarrow> merkle_path option \<Rightarrow> felt \<Rightarrow> operation_error
      \<Rightarrow> (felt \<times> qword) exec" where
  "update_merkle_root E claimed_old_root old_value new_value path index on_err =
    (case path of
       None \<Rightarrow> Panic
     | Some path \<Rightarrow>
         (case path_verify (env_perm E) path (as_canonical_u64 index) old_value claimed_old_root of
            Err _ \<Rightarrow> Err (OperationErr on_err)
          | Panic \<Rightarrow> Panic
          | Ok _ \<Rightarrow>
              (case compute_root (env_perm E) path (as_canonical_u64 index) new_value of
                 Ok new_root \<Rightarrow> Ok (0, new_root)
               | Err _ \<Rightarrow> Err (OperationErr on_err)
               | Panic \<Rightarrow> Panic)))"

definition hasher_impl :: "'d env \<Rightarrow> ('d, 'x) sys_state_scheme hasher_interface" where
  "hasher_impl E =
    \<lparr>hsh_permute = (\<lambda>p. hasher_permute E),
     hsh_verify_merkle_root = (\<lambda>p. verify_merkle_root E),
     hsh_update_merkle_root = (\<lambda>p. update_merkle_root E)\<rparr>"

text \<open>A processor with a given stack.\<close>

definition processor_with ::
    "('d, 'x) sys_state_scheme stack_interface \<Rightarrow> 'd env \<Rightarrow> ('d, 'x) sys_state_scheme processor" where
  "processor_with S E =
    \<lparr>stack = S, system = system_impl E, advice_provider = advice_impl E,
     memory = memory_impl, hasher = hasher_impl E\<rparr>"

end
