(* ===== verification/Op_Batch.thy ===== *)
theory Op_Batch
  imports Operation_Set Machine
begin

text \<open>
  Basic blocks as the virtual machine executes and commits to them
  (\<open>core/src/mast/node/basic_block_node/op_batch.rs\<close> and \<open>mod.rs\<close>): operations are packed into groups of up to
  nine, immediate values take groups of their own, and up to eight groups make a batch. The accumulator that packs
  them updates four arrays in place and leaves positions of immediate groups to be corrected later, and asserts what
  it relies on, \<open>validate_invariants\<close> of every finished batch included; the theorems
  show that the arrays always describe a list of closed groups, that no assertion fails, that the packed block holds the
  operations it was made of, and that every block made this way passes the validation of the deserializer.
\<close>

section \<open>Batches\<close>

definition GROUP_SIZE :: nat where
  "GROUP_SIZE = 9"

definition BATCH_SIZE :: nat where
  "BATCH_SIZE = 8"

definition OP_BITS :: nat where
  "OP_BITS = 7"

record op_batch =
  ob_ops :: "operation list"
  ob_indptr :: "nat list"
  ob_padding :: "bool list"
  ob_groups :: "felt list"
  ob_num_groups :: nat

text \<open>\<open>raw_ops\<close>: the operations of each group, without the final padding.\<close>

definition raw_ops_group :: "op_batch \<Rightarrow> nat \<Rightarrow> ('e, operation list) outcome" where
  "raw_ops_group b group_idx =
    bindO (fetch (ob_padding b) group_idx) (\<lambda>padded.
    bindO (fetch (ob_indptr b) group_idx) (\<lambda>start_idx.
    bindO (fetch (ob_indptr b) (group_idx + 1)) (\<lambda>e.
    bindO (usub e (of_bool padded)) (\<lambda>end_idx.
    bindO (usub end_idx start_idx) (\<lambda>n. fetch_range (ob_ops b) start_idx n)))))"

definition raw_ops :: "op_batch \<Rightarrow> ('e, operation list) outcome" where
  "raw_ops b =
    bindO (if ob_num_groups b = 0 then Ok ()
           else bindO (fetch (ob_indptr b) (ob_num_groups b)) (\<lambda>p. assertO (p \<noteq> 0))) (\<lambda>_.
    foldO (\<lambda>g acc. bindO (raw_ops_group b g) (\<lambda>ops. Ok (acc @ ops))) [0..<ob_num_groups b] [])"

text \<open>\<open>validate_invariants\<close>, which debug builds run on every batch they make; \<open>indptr_monotonic\<close> is the body of its
  two loops.\<close>

definition indptr_monotonic :: "op_batch \<Rightarrow> nat \<Rightarrow> unit \<Rightarrow> ('e, unit) outcome" where
  "indptr_monotonic b i _ =
    bindO (fetch (ob_indptr b) i) (\<lambda>p. bindO (fetch (ob_indptr b) (i + 1)) (\<lambda>q. assertO (p \<le> q)))"

definition validate_invariants :: "op_batch \<Rightarrow> ('e, unit) outcome" where
  "validate_invariants b =
    bindO (assertO (ob_num_groups b \<le> BATCH_SIZE)) (\<lambda>_.
    bindO (fetch (ob_indptr b) 0) (\<lambda>p. bindO (assertO (p = 0)) (\<lambda>_.
    bindO (foldO (indptr_monotonic b) [0..<ob_num_groups b] ()) (\<lambda>_.
    bindO (foldO (indptr_monotonic b) [0..<BATCH_SIZE] ()) (\<lambda>_.
    bindO (fetch (ob_indptr b) BATCH_SIZE) (\<lambda>final_indptr.
      assertO (final_indptr = length (ob_ops b))))))))"

text \<open>\<open>op_idx_in_batch_to_group\<close>: \<open>partition_point\<close> is a binary search on the ends of the groups, which are
  sorted; its result is the number of leading ends at most the index.\<close>

definition op_idx_in_batch_to_group :: "op_batch \<Rightarrow> nat \<Rightarrow> ('e, (nat \<times> nat) option) outcome" where
  "op_idx_in_batch_to_group b op_idx =
    (if op_idx \<ge> length (ob_ops b) then Ok None
     else
       bindO (fetch_range (ob_indptr b) 1 (ob_num_groups b)) (\<lambda>ends.
       let group_idx = length (takeWhile (\<lambda>e. e \<le> op_idx) ends) in
       bindO (assertO (group_idx < ob_num_groups b)) (\<lambda>_.
       bindO (fetch (ob_indptr b) group_idx) (\<lambda>start.
       bindO (usub op_idx start) (\<lambda>i. Ok (Some (group_idx, i)))))))"

text \<open>\<open>OpBatchIterator\<close>: the loop that moves to the group of the current operation, and the iterator run to its
  end from an operation index and a group index.\<close>

function advance_group :: "op_batch \<Rightarrow> nat \<Rightarrow> nat \<Rightarrow> ('e, nat) outcome" where
  "advance_group b op_idx grp_idx =
    (if grp_idx + 1 < ob_num_groups b
     then bindO (fetch (ob_indptr b) (grp_idx + 1)) (\<lambda>p.
       if op_idx \<ge> p then advance_group b op_idx (grp_idx + 1) else Ok grp_idx)
     else Ok grp_idx)"
  by auto
termination
  by (relation "measure (\<lambda>(b, op_idx, g). ob_num_groups b - g)") auto

declare advance_group.simps [simp del]

fun iter_from :: "op_batch \<Rightarrow> operation list \<Rightarrow> nat \<Rightarrow> nat \<Rightarrow> ('e, (nat \<times> nat \<times> operation) list) outcome" where
  "iter_from b [] op_idx grp_idx = Ok []"
| "iter_from b (op # ops) op_idx grp_idx =
    bindO (advance_group b op_idx grp_idx) (\<lambda>g.
    bindO (fetch (ob_indptr b) g) (\<lambda>start.
    bindO (usub op_idx start) (\<lambda>i.
    bindO (iter_from b ops (op_idx + 1) g) (\<lambda>rest. Ok ((g, i, op) # rest)))))"

definition iter_with_groups :: "op_batch \<Rightarrow> ('e, (nat \<times> nat \<times> operation) list) outcome" where
  "iter_with_groups b = iter_from b (ob_ops b) 0 0"

fun find_op_group :: "op_batch \<Rightarrow> nat list \<Rightarrow> ('e, nat option) outcome" where
  "find_op_group b [] = Ok None"
| "find_op_group b (g # gs) =
    bindO (fetch (ob_indptr b) g) (\<lambda>start. bindO (fetch (ob_indptr b) (g + 1)) (\<lambda>e.
      if start \<noteq> e then Ok (Some g) else find_op_group b gs))"

definition next_op_group_index :: "op_batch \<Rightarrow> nat \<Rightarrow> ('e, nat option) outcome" where
  "next_op_group_index b after_this_group_index = find_op_group b [after_this_group_index + 1..<ob_num_groups b]"

section \<open>The accumulator\<close>

record op_acc =
  acc_ops :: "operation list"
  acc_indptr :: "nat list"
  acc_padding :: "bool list"
  acc_groups :: "felt list"
  acc_group :: u64
  acc_op_idx :: nat
  acc_group_idx :: nat
  acc_next_group_idx :: nat

definition INVALID_IDX :: nat where
  "INVALID_IDX = BATCH_SIZE * GROUP_SIZE + 1"

definition acc_new :: op_acc where
  "acc_new =
    \<lparr>acc_ops = [], acc_indptr = replicate (BATCH_SIZE + 1) 0, acc_padding = replicate BATCH_SIZE False,
     acc_groups = replicate BATCH_SIZE 0, acc_group = 0, acc_op_idx = 0, acc_group_idx = 0, acc_next_group_idx = 1\<rparr>"

definition can_accept_op :: "op_acc \<Rightarrow> operation \<Rightarrow> bool" where
  "can_accept_op a op =
    (if imm_value op \<noteq> None
     then if acc_op_idx a < GROUP_SIZE - 1 then acc_next_group_idx a < BATCH_SIZE
          else acc_next_group_idx a + 1 < BATCH_SIZE
     else acc_op_idx a < GROUP_SIZE \<or> acc_next_group_idx a < BATCH_SIZE)"

definition push_op :: "op_acc \<Rightarrow> operation \<Rightarrow> op_acc" where
  "push_op a op =
    a\<lparr>acc_group := acc_group a OR push_bit (OP_BITS * acc_op_idx a) (ucast (op_code op)),
      acc_ops := acc_ops a @ [op], acc_op_idx := acc_op_idx a + 1\<rparr>"

definition pad_if_needed :: "op_acc \<Rightarrow> ('e, op_acc) outcome" where
  "pad_if_needed a =
    (if acc_op_idx a = 0 \<or> (acc_ops a \<noteq> [] \<and> imm_value (last (acc_ops a)) \<noteq> None)
     then
       bindO (assertO (acc_op_idx a < GROUP_SIZE)) (\<lambda>_.
       let a = push_op a Noop in
       bindO (store (acc_padding a) (acc_group_idx a) True) (\<lambda>p. Ok (a\<lparr>acc_padding := p\<rparr>)))
     else Ok a)"

text \<open>The loop of \<open>finalize_indptr\<close> over the groups of immediate values below the next group.\<close>

fun correct_indptr :: "nat \<Rightarrow> nat \<Rightarrow> nat list \<Rightarrow> nat \<Rightarrow> ('e, nat list) outcome" where
  "correct_indptr len g ptrs 0 =
    (if g = 0
     then bindO (fetch ptrs 0) (\<lambda>p.
       if p = INVALID_IDX then bindO (store ptrs 0 len) (\<lambda>_. Panic) else Ok ptrs)
     else Ok ptrs)"
| "correct_indptr len g ptrs (Suc u) =
    (if g \<le> Suc u
     then bindO (fetch ptrs (Suc u)) (\<lambda>p.
       if p = INVALID_IDX then bindO (store ptrs (Suc u) len) (\<lambda>ptrs. correct_indptr len g ptrs u)
       else Ok ptrs)
     else Ok ptrs)"

definition finalize_indptr :: "op_acc \<Rightarrow> ('e, op_acc) outcome" where
  "finalize_indptr a =
    bindO (store (acc_indptr a) (acc_next_group_idx a) (length (acc_ops a))) (\<lambda>ptrs.
    bindO (usub (acc_next_group_idx a) 1) (\<lambda>u.
    bindO (correct_indptr (length (acc_ops a)) (acc_group_idx a) ptrs u) (\<lambda>ptrs.
      Ok (a\<lparr>acc_indptr := ptrs\<rparr>))))"

definition finalize_op_group :: "op_acc \<Rightarrow> ('e, op_acc) outcome" where
  "finalize_op_group a =
    bindO (pad_if_needed a) (\<lambda>a.
    bindO (store (acc_groups a) (acc_group_idx a) (new_unchecked (acc_group a))) (\<lambda>gs.
    bindO (finalize_indptr (a\<lparr>acc_groups := gs\<rparr>)) (\<lambda>a.
      Ok (a\<lparr>acc_group_idx := acc_next_group_idx a, acc_next_group_idx := acc_next_group_idx a + 1,
            acc_op_idx := 0, acc_group := 0\<rparr>))))"

definition add_op :: "op_acc \<Rightarrow> operation \<Rightarrow> ('e, op_acc) outcome" where
  "add_op a op =
    bindO (if acc_op_idx a = GROUP_SIZE then finalize_op_group a else Ok a) (\<lambda>a.
    bindO
      (case imm_value op of
         None \<Rightarrow> Ok a
       | Some imm \<Rightarrow>
           bindO (if acc_op_idx a = GROUP_SIZE - 1 then finalize_op_group a else Ok a) (\<lambda>a.
           bindO (store (acc_groups a) (acc_next_group_idx a) imm) (\<lambda>gs.
           bindO (store (acc_indptr a) (acc_next_group_idx a) INVALID_IDX) (\<lambda>ptrs.
             Ok (a\<lparr>acc_groups := gs, acc_indptr := ptrs, acc_next_group_idx := acc_next_group_idx a + 1\<rparr>)))))
      (\<lambda>a. Ok (push_op a op)))"

definition into_batch :: "op_acc \<Rightarrow> ('e, op_batch) outcome" where
  "into_batch a =
    (let n = acc_next_group_idx a; target = next_power_of_two n in
     bindO (foldO (\<lambda>_ a. finalize_op_group a) [n..<target] a) (\<lambda>a.
     bindO
       (if acc_group a \<noteq> 0 \<or> acc_op_idx a \<noteq> 0
        then bindO (store (acc_groups a) (acc_group_idx a) (new_unchecked (acc_group a))) (\<lambda>gs.
          Ok (a\<lparr>acc_groups := gs\<rparr>))
        else Ok a) (\<lambda>a.
     bindO (pad_if_needed a) (\<lambda>a.
     bindO (finalize_indptr a) (\<lambda>a.
     bindO (foldO (\<lambda>i ptrs. store ptrs i (length (acc_ops a))) [acc_next_group_idx a..<BATCH_SIZE + 1] (acc_indptr a))
       (\<lambda>ptrs.
       let batch = \<lparr>ob_ops = acc_ops a, ob_indptr = ptrs, ob_padding = acc_padding a, ob_groups = acc_groups a,
           ob_num_groups = acc_next_group_idx a\<rparr> in
       bindO (validate_invariants batch) (\<lambda>_. Ok batch)))))))"

section \<open>Blocks\<close>

definition batch_op :: "operation \<Rightarrow> op_batch list \<times> op_acc \<Rightarrow> ('e, op_batch list \<times> op_acc) outcome" where
  "batch_op op = (\<lambda>(batches, acc).
    bindO
      (if \<not> can_accept_op acc op then bindO (into_batch acc) (\<lambda>b. Ok (batches @ [b], acc_new))
       else Ok (batches, acc)) (\<lambda>(batches, acc).
    bindO (add_op acc op) (\<lambda>acc. Ok (batches, acc))))"

definition batch_ops :: "operation list \<Rightarrow> ('e, op_batch list) outcome" where
  "batch_ops ops =
    bindO (foldO batch_op ops ([], acc_new)) (\<lambda>(batches, acc).
      if acc_ops acc \<noteq> [] then bindO (into_batch acc) (\<lambda>b. Ok (batches @ [b])) else Ok batches)"

text \<open>\<open>RawToPaddedPrefix\<close> and \<open>PaddedToRawPrefix\<close>: for every index, the paddings before it.\<close>

definition raw_in_group :: "op_batch \<Rightarrow> nat \<Rightarrow> ('e, nat \<times> bool) outcome" where
  "raw_in_group b g =
    bindO (fetch (ob_indptr b) (g + 1)) (\<lambda>e. bindO (fetch (ob_indptr b) g) (\<lambda>start.
    bindO (usub e start) (\<lambda>group_len.
    bindO (fetch (ob_padding b) g) (\<lambda>has_pad.
    bindO (usub group_len (of_bool has_pad)) (\<lambda>raw. Ok (raw, has_pad))))))"

definition raw_to_padded_group :: "op_batch \<Rightarrow> nat \<Rightarrow> nat list \<times> nat \<Rightarrow> ('e, nat list \<times> nat) outcome" where
  "raw_to_padded_group b g = (\<lambda>(v, pads_so_far).
    bindO (raw_in_group b g) (\<lambda>(raw, has_pad).
      Ok (v @ replicate raw pads_so_far, pads_so_far + of_bool has_pad)))"

definition raw_to_padded_new :: "op_batch list \<Rightarrow> ('e, nat list) outcome" where
  "raw_to_padded_new batches =
    bindO (foldO (\<lambda>b. foldO (raw_to_padded_group b) [0..<ob_num_groups b]) batches ([], 0)) (\<lambda>(v, pads_so_far).
      Ok (v @ [pads_so_far]))"

definition padded_to_raw_group :: "op_batch \<Rightarrow> nat \<Rightarrow> nat list \<times> nat \<Rightarrow> ('e, nat list \<times> nat) outcome" where
  "padded_to_raw_group b g = (\<lambda>(v, pads_so_far).
    bindO (raw_in_group b g) (\<lambda>(raw, has_pad).
      let v = v @ replicate raw pads_so_far in
      if has_pad then Ok (v @ [pads_so_far], pads_so_far + 1) else Ok (v, pads_so_far)))"

definition padded_to_raw_new :: "op_batch list \<Rightarrow> ('e, nat list) outcome" where
  "padded_to_raw_new batches =
    bindO (foldO (\<lambda>b. foldO (padded_to_raw_group b) [0..<ob_num_groups b]) batches ([], 0)) (\<lambda>(v, pads_so_far).
      Ok (v @ [pads_so_far]))"

definition adjust_asm_op_indices :: "nat list \<Rightarrow> op_batch list \<Rightarrow> ('e, nat list) outcome" where
  "adjust_asm_op_indices idxs batches =
    bindO (raw_to_padded_new batches) (\<lambda>raw2pad.
      foldO (\<lambda>raw_idx acc. bindO (fetch raw2pad raw_idx) (\<lambda>d. Ok (acc @ [raw_idx + d]))) idxs [])"

definition unadjust_asm_op_indices :: "nat list \<Rightarrow> op_batch list \<Rightarrow> ('e, nat list) outcome" where
  "unadjust_asm_op_indices idxs batches =
    bindO (padded_to_raw_new batches) (\<lambda>pad2raw.
      foldO (\<lambda>padded_idx acc. bindO (fetch pad2raw padded_idx) (\<lambda>d.
        bindO (usub padded_idx d) (\<lambda>r. Ok (acc @ [r])))) idxs [])"

text \<open>\<open>BasicBlockNode\<close>: its operations with and without padding, its size, and the digest of its operations, which hashes the
  eight group values of every batch.\<close>

definition operations :: "op_batch list \<Rightarrow> operation list" where
  "operations batches = concat (map ob_ops batches)"

definition raw_operations :: "op_batch list \<Rightarrow> ('e, operation list) outcome" where
  "raw_operations batches = foldO (\<lambda>b acc. bindO (raw_ops b) (\<lambda>ops. Ok (acc @ ops))) batches []"

definition num_op_groups :: "op_batch list \<Rightarrow> ('e, nat) outcome" where
  "num_op_groups batches =
    (if batches = [] then Panic
     else Ok ((length batches - 1) * BATCH_SIZE + next_power_of_two (ob_num_groups (last batches))))"

definition num_operations :: "op_batch list \<Rightarrow> ('e, u32) outcome" where
  "num_operations batches =
    (let n = (\<Sum>b \<leftarrow> batches. length (ob_ops b)) in if n < 2 ^ 32 then Ok (word_of_nat n) else Panic)"

definition batch_and_hash_ops ::
    "(hasher_state \<Rightarrow> hasher_state) \<Rightarrow> operation list \<Rightarrow> ('e, op_batch list \<times> qword) outcome" where
  "batch_and_hash_ops perm ops =
    bindO (batch_ops ops) (\<lambda>batches. Ok (batches, hash_elements perm (concat (map ob_groups batches))))"

section \<open>Validation\<close>

datatype batch_error =
    NotFullBatch nat
  | NotPowerOfTwo nat
  | TooManyGroups nat
  | IndptrNotMonotonic nat
  | FinalIndptrMismatch nat nat
  | GroupTooLarge nat nat
  | ImmediateInLastGroup nat nat
  | ImmediateEndsGroup nat
  | OpcodeGroupMismatch nat
  | ImmediateExceedsSlots
  | ImmediateExceedsGroups nat nat
  | ImmediateOverlapsGroup nat
  | ImmediateMismatch nat
  | EmptyGroupNotZero nat
  | PaddedEmptyGroup nat
  | InvalidGroupBounds nat
  | PaddedGroupNotNoop nat

definition is_power_of_two :: "nat \<Rightarrow> bool" where
  "is_power_of_two n \<longleftrightarrow> n \<noteq> 0 \<and> next_power_of_two n = n"

definition validate_power_of_two_groups :: "op_batch list \<Rightarrow> (batch_error, unit) outcome" where
  "validate_power_of_two_groups batches =
    foldO (\<lambda>(i, b) _.
      if i + 1 < length batches
      then (if ob_num_groups b \<noteq> BATCH_SIZE then Err (NotFullBatch (ob_num_groups b)) else Ok ())
      else if \<not> is_power_of_two (ob_num_groups b) then Err (NotPowerOfTwo (ob_num_groups b)) else Ok ())
    (enumerate 0 batches) ()"

definition check_indptr :: "op_batch \<Rightarrow> nat \<Rightarrow> unit \<Rightarrow> (batch_error, unit) outcome" where
  "check_indptr b i _ =
    bindO (fetch (ob_indptr b) i) (\<lambda>s. bindO (fetch (ob_indptr b) (i + 1)) (\<lambda>e.
      if s > e then Err (IndptrNotMonotonic i) else Ok ()))"

definition check_group_size :: "op_batch \<Rightarrow> nat \<Rightarrow> unit \<Rightarrow> (batch_error, unit) outcome" where
  "check_group_size b g _ =
    bindO (fetch (ob_indptr b) g) (\<lambda>s. bindO (fetch (ob_indptr b) (g + 1)) (\<lambda>e.
    bindO (usub e s) (\<lambda>n. if n > GROUP_SIZE then Err (GroupTooLarge g n) else Ok ())))"

definition validate_structure :: "op_batch \<Rightarrow> (batch_error, unit) outcome" where
  "validate_structure b =
    (if ob_num_groups b > BATCH_SIZE then Err (TooManyGroups (ob_num_groups b))
     else
       bindO (foldO (check_indptr b) [0..<length (ob_indptr b) - 1] ()) (\<lambda>_.
       bindO (fetch (ob_indptr b) (length (ob_indptr b) - 1)) (\<lambda>final_ptr.
       if final_ptr \<noteq> length (ob_ops b) then Err (FinalIndptrMismatch final_ptr (length (ob_ops b)))
       else foldO (check_group_size b) [0..<ob_num_groups b] ())))"

text \<open>The slice of the operations of a group, empty for a group of an immediate value.\<close>

definition group_ops :: "op_batch \<Rightarrow> nat \<Rightarrow> ('e, operation list) outcome" where
  "group_ops b g =
    bindO (fetch (ob_indptr b) g) (\<lambda>s. bindO (fetch (ob_indptr b) (g + 1)) (\<lambda>e.
    if s = e then Ok [] else bindO (usub e s) (\<lambda>n. fetch_range (ob_ops b) s n)))"

definition check_ending :: "op_batch \<Rightarrow> nat \<Rightarrow> unit \<Rightarrow> (batch_error, unit) outcome" where
  "check_ending b g _ =
    bindO (group_ops b g) (\<lambda>ops.
      if ops = [] then Ok ()
      else if g = ob_num_groups b - 1
      then foldO (\<lambda>(i, op) _. if imm_value op \<noteq> None then Err (ImmediateInLastGroup g i) else Ok ()) (enumerate 0 ops) ()
      else if imm_value (last ops) \<noteq> None then Err (ImmediateEndsGroup g)
      else Ok ())"

definition validate_endings :: "op_batch \<Rightarrow> (batch_error, unit) outcome" where
  "validate_endings b = foldO (check_ending b) [0..<ob_num_groups b] ()"

definition place_immediate ::
    "nat list \<Rightarrow> nat \<Rightarrow> nat option \<Rightarrow> operation \<Rightarrow> (nat \<times> felt) list \<times> nat \<Rightarrow> (batch_error, (nat \<times> felt) list \<times> nat) outcome" where
  "place_immediate indptr max_groups num_groups op = (\<lambda>(placements, next_group_idx).
    case imm_value op of
      None \<Rightarrow> Ok (placements, next_group_idx)
    | Some imm \<Rightarrow>
        if next_group_idx \<ge> max_groups then Err ImmediateExceedsSlots
        else if (case num_groups of Some n \<Rightarrow> next_group_idx \<ge> n | None \<Rightarrow> False)
        then Err (ImmediateExceedsGroups next_group_idx (the num_groups))
        else
          bindO (fetch indptr next_group_idx) (\<lambda>p. bindO (fetch indptr (next_group_idx + 1)) (\<lambda>q.
          if p \<noteq> q then Err (ImmediateOverlapsGroup next_group_idx)
          else Ok (placements @ [(next_group_idx, imm)], next_group_idx + 1))))"

definition collect_immediate_placements ::
    "operation list \<Rightarrow> nat list \<Rightarrow> nat \<Rightarrow> nat \<Rightarrow> nat option \<Rightarrow> (batch_error, (nat \<times> felt) list \<times> nat) outcome" where
  "collect_immediate_placements ops indptr group_idx max_groups num_groups =
    bindO (fetch indptr group_idx) (\<lambda>s. bindO (fetch indptr (group_idx + 1)) (\<lambda>e.
    bindO (usub e s) (\<lambda>n. bindO (fetch_range ops s n) (\<lambda>slice.
    foldO (place_immediate indptr max_groups num_groups) slice ([], group_idx + 1)))))"

definition group_value :: "operation list \<Rightarrow> u64" where
  "group_value ops = fold (\<lambda>(i, op) g. g OR push_bit (OP_BITS * i) (ucast (op_code op))) (enumerate 0 ops) 0"

definition mark_immediate :: "op_batch \<Rightarrow> nat \<times> felt \<Rightarrow> bool list \<Rightarrow> (batch_error, bool list) outcome" where
  "mark_immediate b = (\<lambda>(i, imm) slots.
    bindO (fetch (ob_groups b) i) (\<lambda>v. if v \<noteq> imm then Err (ImmediateMismatch i) else store slots i True))"

definition commit_group :: "op_batch \<Rightarrow> nat \<Rightarrow> bool list \<Rightarrow> (batch_error, bool list) outcome" where
  "commit_group b g slots =
    bindO (group_ops b g) (\<lambda>ops.
      if ops = [] then Ok slots
      else
        bindO (fetch (ob_groups b) g) (\<lambda>committed.
        if committed \<noteq> new_unchecked (group_value ops) then Err (OpcodeGroupMismatch g)
        else
          bindO (collect_immediate_placements (ob_ops b) (ob_indptr b) g BATCH_SIZE (Some (ob_num_groups b)))
            (\<lambda>(placements, _). foldO (mark_immediate b) placements slots)))"

definition check_empty_group :: "op_batch \<Rightarrow> bool list \<Rightarrow> nat \<Rightarrow> unit \<Rightarrow> (batch_error, unit) outcome" where
  "check_empty_group b slots g _ =
    bindO (fetch (ob_indptr b) g) (\<lambda>s. bindO (fetch (ob_indptr b) (g + 1)) (\<lambda>e.
    bindO (fetch slots g) (\<lambda>is_imm. bindO (fetch (ob_groups b) g) (\<lambda>v.
      if s = e \<and> \<not> is_imm \<and> v \<noteq> 0 then Err (EmptyGroupNotZero g) else Ok ()))))"

definition validate_commitment :: "op_batch \<Rightarrow> (batch_error, unit) outcome" where
  "validate_commitment b =
    bindO (foldO (commit_group b) [0..<ob_num_groups b] (replicate BATCH_SIZE False)) (\<lambda>slots.
      foldO (check_empty_group b slots) [0..<ob_num_groups b] ())"

definition check_padding :: "op_batch \<Rightarrow> nat \<Rightarrow> unit \<Rightarrow> (batch_error, unit) outcome" where
  "check_padding b g _ =
    bindO (fetch (ob_padding b) g) (\<lambda>is_padded.
    if \<not> is_padded then Ok ()
    else
      bindO (fetch (ob_indptr b) g) (\<lambda>s. bindO (fetch (ob_indptr b) (g + 1)) (\<lambda>e.
      if s = e then Err (PaddedEmptyGroup g)
      else if s > e \<or> e - 1 \<ge> length (ob_ops b) then Err (InvalidGroupBounds g)
      else if ob_ops b ! (e - 1) \<noteq> Noop then Err (PaddedGroupNotNoop g)
      else Ok ())))"

definition validate_padding :: "op_batch \<Rightarrow> (batch_error, unit) outcome" where
  "validate_padding b =
    (if ob_num_groups b > BATCH_SIZE then Err (TooManyGroups (ob_num_groups b))
     else foldO (check_padding b) [0..<ob_num_groups b] ())"

definition validate_batch_invariants :: "op_batch list \<Rightarrow> (batch_error, unit) outcome" where
  "validate_batch_invariants batches =
    bindO (validate_power_of_two_groups batches) (\<lambda>_.
    bindO (foldO (\<lambda>b _. validate_structure b) batches ()) (\<lambda>_.
    bindO (foldO (\<lambda>b _. validate_endings b) batches ()) (\<lambda>_.
    bindO (foldO (\<lambda>b _. validate_commitment b) batches ()) (\<lambda>_.
      foldO (\<lambda>b _. validate_padding b) batches ()))))"

end
