(* ===== verification/Op_Batch_Spec.thy ===== *)
theory Op_Batch_Spec
  imports Op_Batch
begin

text \<open>
  What the arrays of a batch describe: a list of closed groups, each a list of operations and a flag that tells
  whether its last operation is padding, and, in the accumulator, one open group. Every method of the accumulator is
  the corresponding method on these lists.
\<close>

section \<open>Closed groups\<close>

type_synonym seg = "operation list \<times> bool"

fun imms :: "operation list \<Rightarrow> felt list" where
  "imms [] = []"
| "imms (op # s) = (case imm_value op of None \<Rightarrow> imms s | Some x \<Rightarrow> x # imms s)"

definition flat :: "seg list \<Rightarrow> operation list" where
  "flat segs = concat (map fst segs)"

definition width :: "seg list \<Rightarrow> nat" where
  "width segs = (\<Sum>(s, p) \<leftarrow> segs. Suc (length (imms s)))"

fun seg_ptrs :: "nat \<Rightarrow> seg list \<Rightarrow> nat list" where
  "seg_ptrs n [] = []"
| "seg_ptrs n ((s, p) # r) = n # replicate (length (imms s)) (n + length s) @ seg_ptrs (n + length s) r"

definition seg_groups :: "seg list \<Rightarrow> felt list" where
  "seg_groups segs = concat (map (\<lambda>(s, p). new_unchecked (group_value s) # imms s) segs)"

definition seg_pads :: "seg list \<Rightarrow> bool list" where
  "seg_pads segs = concat (map (\<lambda>(s, p). p # replicate (length (imms s)) False) segs)"

text \<open>The batch the groups make.\<close>

definition batch_of :: "seg list \<Rightarrow> op_batch" where
  "batch_of segs =
    \<lparr>ob_ops = flat segs, ob_indptr = seg_ptrs 0 segs @ replicate (9 - width segs) (length (flat segs)),
     ob_padding = seg_pads segs @ replicate (8 - width segs) False,
     ob_groups = seg_groups segs @ replicate (8 - width segs) 0, ob_num_groups = width segs\<rparr>"

text \<open>The accumulator for closed groups and an open one.\<close>

definition acc_of :: "seg list \<Rightarrow> operation list \<Rightarrow> op_acc" where
  "acc_of segs cur =
    \<lparr>acc_ops = flat segs @ cur,
     acc_indptr = seg_ptrs 0 segs @ length (flat segs) # replicate (length (imms cur)) INVALID_IDX @
       replicate (8 - width segs - length (imms cur)) 0,
     acc_padding = seg_pads segs @ replicate (8 - width segs) False,
     acc_groups = seg_groups segs @ 0 # imms cur @ replicate (7 - width segs - length (imms cur)) 0,
     acc_group = group_value cur, acc_op_idx = length cur, acc_group_idx = width segs,
     acc_next_group_idx = width segs + 1 + length (imms cur)\<rparr>"

lemma imms_append [simp]: "imms (s @ t) = imms s @ imms t"
  by (induction s) (auto split: option.split)

lemma seg_simps [simp]:
  "flat [] = []" "flat (x # r) = fst x @ flat r" "flat (a @ b) = flat a @ flat b"
  "width [] = 0" "width (x # r) = Suc (length (imms (fst x))) + width r" "width (a @ b) = width a + width b"
  "seg_groups [] = []" "seg_groups (a @ b) = seg_groups a @ seg_groups b"
  "seg_groups ((s, p) # r) = new_unchecked (group_value s) # imms s @ seg_groups r"
  "seg_pads [] = []" "seg_pads (a @ b) = seg_pads a @ seg_pads b"
  "seg_pads ((s, p) # r) = p # replicate (length (imms s)) False @ seg_pads r"
  by (simp_all add: flat_def width_def seg_groups_def seg_pads_def case_prod_beta)

lemma imm_Noop [simp]: "imm_value Noop = None"
  by (simp add: imm_value_def)

lemma seg_lengths [simp]:
  "length (seg_ptrs n segs) = width segs" "length (seg_groups segs) = width segs" "length (seg_pads segs) = width segs"
proof -
  show "length (seg_ptrs n segs) = width segs"
    by (induction segs arbitrary: n) auto
  show "length (seg_groups segs) = width segs" "length (seg_pads segs) = width segs"
    by (induction segs) auto
qed

lemma seg_ptrs_append [simp]: "seg_ptrs n (a @ b) = seg_ptrs n a @ seg_ptrs (n + length (flat a)) b"
  by (induction a arbitrary: n) (auto simp: add.assoc)

lemma foldO_stay: "(\<And>x. x \<in> set xs \<Longrightarrow> f x s = Ok s) \<Longrightarrow> foldO f xs s = Ok s"
  by (induction xs) auto

lemma sorted_seg_ptrs: "sorted (seg_ptrs n segs)" "set (seg_ptrs n segs) \<subseteq> {n..n + length (flat segs)}"
proof -
  have "sorted (seg_ptrs n segs) \<and> set (seg_ptrs n segs) \<subseteq> {n..n + length (flat segs)}"
  proof (induction n segs rule: seg_ptrs.induct)
    case (2 n s p r)
    then show ?case by (fastforce simp: sorted_append)
  qed simp
  then show "sorted (seg_ptrs n segs)" "set (seg_ptrs n segs) \<subseteq> {n..n + length (flat segs)}" by auto
qed

lemma batch_sorted: "sorted (ob_indptr (batch_of segs))" "width segs \<le> 8 \<Longrightarrow> length (ob_indptr (batch_of segs)) = 9"
  using sorted_seg_ptrs [of 0 segs] by (fastforce simp: batch_of_def sorted_append)+

lemma group_value_snoc [simp]:
  "group_value (s @ [op]) = group_value s OR push_bit (OP_BITS * length s) (ucast (op_code op))"
  "group_value [] = 0"
  by (simp_all add: group_value_def enumerate_append_eq)

lemma op_code_Noop: "op_code Noop = 0"
  by simp

section \<open>Closing a group\<close>

definition needs_pad :: "operation list \<Rightarrow> bool" where
  "needs_pad cur \<longleftrightarrow> cur = [] \<or> imm_value (last cur) \<noteq> None"

definition close :: "operation list \<Rightarrow> seg" where
  "close cur = (if needs_pad cur then (cur @ [Noop], True) else (cur, False))"

lemma close_simps [simp]: "imms (fst (close cur)) = imms cur" "group_value (fst (close cur)) = group_value cur"
  by (simp_all add: close_def)

lemma acc_new_eq: "acc_new = acc_of [] []"
  by (simp add: acc_new_def acc_of_def BATCH_SIZE_def numeral_eq_Suc)

text \<open>The positions of the immediate values are corrected to the end of their group.\<close>

lemma correct_indptr_run:
  assumes "x \<noteq> INVALID_IDX" "length pre = g"
  shows "correct_indptr len g (pre @ x # replicate k INVALID_IDX @ post) (g + k) =
    Ok (pre @ x # replicate k len @ post)"
proof (induction k arbitrary: post)
  case 0
  show ?case
    using assms by (cases g) (auto simp: fetch_def nth_append)
next
  case (Suc k)
  have split: "replicate (Suc k) y @ r = replicate k y @ y # r" for y :: nat and r
    by (simp add: replicate_app_Cons_same)
  have "(pre @ x # replicate k INVALID_IDX @ INVALID_IDX # post) ! Suc (g + k) = INVALID_IDX"
    "(pre @ x # replicate k INVALID_IDX @ INVALID_IDX # post)[Suc (g + k) := len] =
      pre @ x # replicate k INVALID_IDX @ len # post"
    using assms(2) by (simp_all add: nth_append list_update_append)
  then show ?case
    using assms(2) Suc [of "len # post"] unfolding split add_Suc_right correct_indptr.simps
    by (simp add: fetch_def store_def)
qed

text \<open>Lengths: no more than seventy-two operations fit, so that a position is never the mark of an immediate.\<close>

definition ok_seg :: "seg \<Rightarrow> bool" where
  "ok_seg x \<longleftrightarrow> fst x \<noteq> [] \<and> length (fst x) \<le> 9 \<and> imm_value (last (fst x)) = None \<and> (snd x \<longrightarrow> last (fst x) = Noop)"

definition ok_open :: "seg list \<Rightarrow> operation list \<Rightarrow> bool" where
  "ok_open segs cur \<longleftrightarrow> list_all ok_seg segs \<and> length cur \<le> 9 \<and> (length cur = 9 \<longrightarrow> imm_value (last cur) = None) \<and>
    width segs + 1 + length (imms cur) \<le> 8"

lemma length_flat: "list_all ok_seg segs \<Longrightarrow> length (flat segs) \<le> 9 * width segs"
  by (induction segs) (auto simp: ok_seg_def)

lemma flat_valid: "list_all ok_seg segs \<Longrightarrow> width segs \<le> 8 \<Longrightarrow> length (flat segs) \<noteq> INVALID_IDX"
  using length_flat [of segs] by (auto simp: INVALID_IDX_def BATCH_SIZE_def GROUP_SIZE_def)

lemma ok_close: "ok_open segs cur \<Longrightarrow> ok_seg (close cur)"
  by (auto simp: ok_open_def ok_seg_def close_def needs_pad_def)

text \<open>The accumulator after padding: the open group has become closed, but the arrays do not know it yet.\<close>

lemma pad_if_needed_acc:
  assumes "ok_open segs cur"
  shows "pad_if_needed (acc_of segs cur) =
    Ok ((acc_of segs cur)\<lparr>acc_ops := flat segs @ fst (close cur),
      acc_op_idx := length (fst (close cur)),
      acc_padding := seg_pads segs @ snd (close cur) # replicate (7 - width segs) False\<rparr>)"
proof -
  have w: "width segs < 8" using assms by (simp add: ok_open_def)
  have short: "length cur < 9" if "needs_pad cur"
    using assms that by (cases "length cur = 9") (auto simp: needs_pad_def ok_open_def)
  have pads: "replicate (8 - width segs) False = False # replicate (7 - width segs) False"
    using w by (cases "8 - width segs") (auto simp: numeral_eq_Suc)
  have last: "imm_value (last (flat segs @ cur)) = imm_value (last cur)" if "cur \<noteq> []"
    using that by simp
  show ?thesis
    using w short last pads
    by (auto simp: GROUP_SIZE_def pad_if_needed_def acc_of_def close_def needs_pad_def push_op_def store_def Let_def list_update_append)
qed

text \<open>The accumulator once its open group is closed and its positions are corrected, with \<open>post\<close> after them.\<close>

lemma finalize_indptr_acc:
  assumes "ok_open segs cur" "acc_indptr a = acc_indptr (acc_of segs cur)" "acc_group_idx a = width segs"
    "acc_next_group_idx a = width segs + 1 + length (imms cur)" "acc_ops a = flat (segs @ [close cur])"
  shows "(finalize_indptr a :: ('e, op_acc) outcome) = Ok (a\<lparr>acc_indptr := seg_ptrs 0 (segs @ [close cur]) @
    length (flat (segs @ [close cur])) # replicate (7 - width segs - length (imms cur)) 0\<rparr>)"
proof -
  let ?k = "length (imms cur)" and ?len = "length (flat (segs @ [close cur]))"
  have w: "width segs + 1 + ?k \<le> 8" and ok: "list_all ok_seg segs"
    using assms(1) by (auto simp: ok_open_def)
  have zeros: "replicate (8 - width segs - ?k) (0 :: nat) = 0 # replicate (7 - width segs - ?k) 0"
    using w by (cases "8 - width segs - ?k") (auto simp: numeral_eq_Suc)
  have "(store (acc_indptr a) (width segs + 1 + ?k) ?len :: ('e, nat list) outcome) = Ok (seg_ptrs 0 segs @ length (flat segs) #
      replicate ?k INVALID_IDX @ ?len # replicate (7 - width segs - ?k) 0)"
    using w zeros by (simp add: assms(2) acc_of_def store_def list_update_append)
  moreover have "(correct_indptr ?len (width segs) (seg_ptrs 0 segs @ length (flat segs) #
      replicate ?k INVALID_IDX @ ?len # replicate (7 - width segs - ?k) 0) (width segs + ?k) :: ('e, nat list) outcome) =
      Ok (seg_ptrs 0 segs @ length (flat segs) # replicate ?k ?len @ ?len # replicate (7 - width segs - ?k) 0)"
    using w ok by (intro correct_indptr_run flat_valid) auto
  moreover obtain s b where close: "close cur = (s, b)" by (cases "close cur")
  moreover have "imms s = imms cur"
    using close_simps(1) [of cur] close by simp
  ultimately show ?thesis
    using assms(3-5) by (simp add: finalize_indptr_def usub_def)
qed

lemma finalize_op_group_acc:
  assumes "ok_open segs cur" "width segs + 1 + length (imms cur) < 8"
  shows "(finalize_op_group (acc_of segs cur) :: ('e, op_acc) outcome) = Ok (acc_of (segs @ [close cur]) [])"
proof -
  let ?k = "length (imms cur)" and ?w = "width segs"
  have w: "?w < 8" using assms(2) by simp
  have imms: "imms (fst (close cur)) = imms cur" "group_value (fst (close cur)) = group_value cur" by simp_all
  obtain s b where close: "close cur = (s, b)" by (cases "close cur")
  have pads: "replicate (7 - ?w) False = replicate ?k False @ replicate (7 - ?w - ?k) False"
    using assms(2) by (simp flip: replicate_add)
  have zeros: "replicate (7 - ?w - ?k) (0 :: felt) = 0 # replicate (6 - ?w - ?k) 0"
    using assms(2) by (cases "7 - ?w - ?k") (auto simp: numeral_eq_Suc)
  define a where "a = (acc_of segs cur)\<lparr>acc_ops := flat segs @ fst (close cur), acc_op_idx := length (fst (close cur)),
    acc_padding := seg_pads segs @ snd (close cur) # replicate (7 - ?w) False,
    acc_groups := seg_groups segs @ new_unchecked (group_value cur) # imms cur @ replicate (7 - ?w - ?k) 0\<rparr>"
  have eq: "a\<lparr>acc_indptr := seg_ptrs 0 (segs @ [close cur]) @ length (flat (segs @ [close cur])) # replicate (7 - ?w - ?k) 0,
      acc_group_idx := acc_next_group_idx a, acc_next_group_idx := Suc (acc_next_group_idx a),
      acc_op_idx := 0, acc_group := 0\<rparr> = acc_of (segs @ [close cur]) []"
    using imms pads zeros by (simp add: a_def acc_of_def close)
  have "(finalize_indptr a :: ('e, op_acc) outcome) = Ok (a\<lparr>acc_indptr := seg_ptrs 0 (segs @ [close cur]) @
      length (flat (segs @ [close cur])) # replicate (7 - ?w - ?k) 0\<rparr>)"
    by (rule finalize_indptr_acc [OF assms(1)]) (simp_all add: a_def acc_of_def)
  moreover have "(finalize_op_group (acc_of segs cur) :: ('e, op_acc) outcome) = bindO (finalize_indptr a) (\<lambda>a.
      Ok (a\<lparr>acc_group_idx := acc_next_group_idx a, acc_next_group_idx := acc_next_group_idx a + 1,
            acc_op_idx := 0, acc_group := 0\<rparr>))"
    unfolding finalize_op_group_def pad_if_needed_acc [OF assms(1)] a_def
    using w by (simp add: store_def acc_of_def list_update_append)
  ultimately show ?thesis
    using eq by simp
qed

text \<open>The methods of the accumulator, on groups.\<close>

definition must_close :: "operation list \<Rightarrow> operation \<Rightarrow> bool" where
  "must_close cur op \<longleftrightarrow> length cur = 9 \<or> (length cur = 8 \<and> imm_value op \<noteq> None)"

definition fits :: "seg list \<Rightarrow> operation list \<Rightarrow> operation \<Rightarrow> bool" where
  "fits segs cur op \<longleftrightarrow>
    width segs + 1 + length (imms cur) + of_bool (must_close cur op) + length (imms [op]) \<le> 8"

lemma can_accept_acc: "ok_open segs cur \<Longrightarrow> can_accept_op (acc_of segs cur) op = fits segs cur op"
  by (auto simp: can_accept_op_def acc_of_def fits_def must_close_def GROUP_SIZE_def BATCH_SIZE_def ok_open_def
      split: option.split)

definition abs_add :: "seg list \<Rightarrow> operation list \<Rightarrow> operation \<Rightarrow> seg list \<times> operation list" where
  "abs_add segs cur op = (if must_close cur op then (segs @ [close cur], [op]) else (segs, cur @ [op]))"

lemma abs_add_ok:
  assumes "ok_open segs cur" "fits segs cur op" "abs_add segs cur op = (segs', cur')"
  shows "ok_open segs' cur'"
  using assms ok_close [OF assms(1)]
  by (auto simp: abs_add_def ok_open_def fits_def must_close_def split: if_splits option.splits)

lemma push_open:
  assumes "ok_open segs cur" "width segs + 1 + length (imms cur) + length (imms [op]) \<le> 8"
  shows "bindO (case imm_value op of None \<Rightarrow> Ok (acc_of segs cur)
      | Some imm \<Rightarrow>
          bindO (store (acc_groups (acc_of segs cur)) (acc_next_group_idx (acc_of segs cur)) imm) (\<lambda>gs.
          bindO (store (acc_indptr (acc_of segs cur)) (acc_next_group_idx (acc_of segs cur)) INVALID_IDX) (\<lambda>ptrs.
            Ok ((acc_of segs cur)\<lparr>acc_groups := gs, acc_indptr := ptrs,
                  acc_next_group_idx := acc_next_group_idx (acc_of segs cur) + 1\<rparr>))))
      (\<lambda>a. Ok (push_op a op)) = (Ok (acc_of segs (cur @ [op])) :: ('e, op_acc) outcome)"
proof (cases "imm_value op")
  case None
  then show ?thesis by (simp add: push_op_def acc_of_def)
next
  case (Some imm)
  let ?k = "length (imms cur)" and ?w = "width segs"
  have w: "?w + 2 + ?k \<le> 8"
    using assms(2) Some by simp
  then have "7 - ?w - ?k = Suc (6 - ?w - ?k)" "8 - ?w - ?k = Suc (7 - ?w - ?k)"
    by simp_all
  then have zeros: "replicate (7 - ?w - ?k) (0 :: felt) = 0 # replicate (6 - ?w - ?k) 0"
    "replicate (8 - ?w - ?k) (0 :: nat) = 0 # replicate (7 - ?w - ?k) 0"
    by (simp_all only: replicate_Suc)
  show ?thesis
    using w by (simp add: Some push_op_def acc_of_def store_def list_update_append replicate_append_same zeros [simplified])
qed

lemma add_op_acc:
  assumes "ok_open segs cur" "fits segs cur op" "abs_add segs cur op = (segs', cur')"
  shows "(add_op (acc_of segs cur) op :: ('e, op_acc) outcome) = Ok (acc_of segs' cur')"
proof -
  define opened where "opened = (if must_close cur op then segs @ [close cur] else segs)"
  define cur1 where "cur1 = (if must_close cur op then [] else cur)"
  have res: "segs' = opened" "cur' = cur1 @ [op]"
    using assms(3) by (auto simp: abs_add_def opened_def cur1_def split: if_splits)
  have room: "width opened + 1 + length (imms cur1) + length (imms [op]) \<le> 8"
    using assms(2) by (auto simp: opened_def cur1_def fits_def)
  then have ok: "ok_open opened cur1"
    using assms(1) ok_close [OF assms(1)] by (auto simp: opened_def cur1_def ok_open_def)
  have fin: "must_close cur op \<Longrightarrow> (finalize_op_group (acc_of segs cur) :: ('e, op_acc) outcome) = Ok (acc_of opened cur1)"
    using assms(1,2) finalize_op_group_acc [of segs cur] by (simp add: opened_def cur1_def fits_def)
  have idx: "acc_op_idx (acc_of s c) = length c" for s c
    by (simp add: acc_of_def)
  note push = push_open [where 'e = 'e, OF ok room]
  show ?thesis
  proof (cases "imm_value op")
    case None
    then have "must_close cur op \<longleftrightarrow> length cur = 9"
      by (simp add: must_close_def)
    then show ?thesis
      using None fin push by (auto simp: add_op_def idx res GROUP_SIZE_def opened_def cur1_def)
  next
    case (Some imm)
    then have "must_close cur op \<longleftrightarrow> length cur = 9 \<or> length cur = 8"
      by (simp add: must_close_def)
    then show ?thesis
      using Some fin push by (auto simp: add_op_def idx res GROUP_SIZE_def opened_def cur1_def)
  qed
qed

section \<open>Closing a batch\<close>

lemma next_power_cases:
  assumes "1 \<le> n" "n \<le> 8"
  shows "next_power_of_two n = (if n \<le> 2 then n else if n \<le> 4 then 4 else 8)"
proof -
  have "n \<in> {1, 2, 3, 4, 5, 6, 7, 8}"
    using assms by auto
  then show ?thesis
    by (auto simp: next_power_of_two_def bit_length.simps)
qed

lemma next_power_small:
  fixes n :: nat
  assumes "1 \<le> n" "n \<le> 8"
  shows "next_power_of_two n \<in> {1, 2, 4, 8}"
proof -
  have "n = 1 \<or> n = 2" if "n \<le> 2" using assms that by auto
  then show ?thesis using next_power_cases [OF assms] by auto
qed

text \<open>Empty groups, each with one padding operation, up to a power of two.\<close>

definition finish :: "seg list \<Rightarrow> operation list \<Rightarrow> seg list" where
  "finish segs cur =
    (let n = width segs + 1 + length (imms cur) in segs @ close cur # replicate (next_power_of_two n - n) ([Noop], True))"

lemma close_Nil [simp]: "close [] = ([Noop], True)"
  by (simp add: close_def needs_pad_def)

lemma finalize_rounds:
  assumes "ok_open segs cur" "width segs + 1 + length (imms cur) + length xs \<le> 8"
  shows "\<exists>segs' cur'. (foldO (\<lambda>_ a. finalize_op_group a) xs (acc_of segs cur) :: ('e, op_acc) outcome) = Ok (acc_of segs' cur') \<and>
    ok_open segs' cur' \<and> segs' @ [close cur'] = segs @ close cur # replicate (length xs) ([Noop], True)"
  using assms
proof (induction xs arbitrary: segs cur)
  case (Cons x xs)
  have fin: "(finalize_op_group (acc_of segs cur) :: ('e, op_acc) outcome) = Ok (acc_of (segs @ [close cur]) [])"
    using Cons.prems by (intro finalize_op_group_acc) auto
  have "ok_open (segs @ [close cur]) []"
    using Cons.prems ok_close [OF Cons.prems(1)] by (auto simp: ok_open_def)
  from Cons.IH [OF this] show ?case
    using Cons.prems fin by simp
qed auto

lemma fill_tail:
  "m = n + length t \<Longrightarrow> length h = n \<Longrightarrow>
    foldO (\<lambda>i ptrs. store ptrs i x) [n..<m] (h @ t) = Ok (h @ replicate (length t) x)"
proof (induction t arbitrary: n h)
  case (Cons y t)
  have "[n..<m] = n # [Suc n..<m]"
    using Cons.prems by (simp add: upt_rec)
  moreover have "h @ replicate (length (y # t)) x = (h @ [x]) @ replicate (length t) x"
    by simp
  ultimately show ?case
    using Cons.prems Cons.IH [of "Suc n" "h @ [x]"] by (simp add: store_def list_update_append)
qed simp

lemma pad_if_needed_groups:
  "pad_if_needed (a\<lparr>acc_groups := gs\<rparr>) = bindO (pad_if_needed a) (\<lambda>a. Ok (a\<lparr>acc_groups := gs\<rparr>))"
  by (auto simp: pad_if_needed_def push_op_def Let_def store_def)

lemma width_single: "width [close cur] = Suc (length (imms cur))"
  by (cases "close cur") (use close_simps(1) [of cur] in simp)

lemma ptrs_single:
  "seg_ptrs n [close cur] = n # replicate (length (imms cur)) (n + length (fst (close cur)))"
  by (cases "close cur") (use close_simps(1) [of cur] in simp)

lemma close_groups:
  "seg_groups [close cur] = new_unchecked (group_value cur) # imms cur"
  "seg_pads [close cur] = snd (close cur) # replicate (length (imms cur)) False"
  by (cases "close cur"; use close_simps [of cur] in simp)+

text \<open>The assertions of a debug build hold of the arrays of closed groups.\<close>

lemma batch_last_ptr: "width segs \<le> 8 \<Longrightarrow> fetch (ob_indptr (batch_of segs)) (width segs) = Ok (length (flat segs))"
  by (cases "9 - width segs") (auto simp: batch_of_def fetch_def nth_append)

lemma flat_not_Nil: "list_all ok_seg segs \<Longrightarrow> segs \<noteq> [] \<Longrightarrow> flat segs \<noteq> []"
  by (cases segs) (auto simp: ok_seg_def)

lemma batch_invariants:
  assumes "width segs \<le> 8"
  shows "(validate_invariants (batch_of segs) :: ('e, unit) outcome) = Ok ()"
proof -
  let ?ptrs = "ob_indptr (batch_of segs)"
  have len: "length ?ptrs = 9" using assms by (rule batch_sorted(2))
  have mono: "(indptr_monotonic (batch_of segs) i () :: ('e, unit) outcome) = Ok ()" if "i < 8" for i
    using sorted_nth_mono [OF batch_sorted(1) [of segs], of i "Suc i"] len that
    by (simp add: indptr_monotonic_def fetch_def assertO_def)
  have first: "?ptrs ! 0 = 0"
    by (cases segs) (auto simp: batch_of_def)
  have final: "?ptrs ! 8 = length (flat segs)"
    using assms by (simp add: batch_of_def nth_append)
  have loops: "(foldO (indptr_monotonic (batch_of segs)) [0..<n] () :: ('e, unit) outcome) = Ok ()" if "n \<le> 8" for n
    using that by (intro foldO_stay mono) auto
  have counts: "ob_num_groups (batch_of segs) = width segs" "ob_ops (batch_of segs) = flat segs"
    by (simp_all add: batch_of_def)
  show ?thesis
    using assms len first final loops [of "width segs"] loops [of 8]
    by (simp add: validate_invariants_def BATCH_SIZE_def counts fetch_def assertO_def del: upt_Suc)
qed

text \<open>The end of \<open>into_batch\<close>, when no group has to be added.\<close>

lemma into_batch_end:
  assumes ok: "ok_open segs cur"
  defines "w \<equiv> width segs + 1 + length (imms cur)"
  defines "b \<equiv> acc_of segs cur"
  shows "bindO (if acc_group b \<noteq> 0 \<or> acc_op_idx b \<noteq> 0
        then bindO (store (acc_groups b) (acc_group_idx b) (new_unchecked (acc_group b))) (\<lambda>gs.
          Ok (b\<lparr>acc_groups := gs\<rparr>))
        else Ok b) (\<lambda>a.
     bindO (pad_if_needed a) (\<lambda>a.
     bindO (finalize_indptr a) (\<lambda>a.
     bindO (foldO (\<lambda>i ptrs. store ptrs i (length (acc_ops a))) [acc_next_group_idx a..<BATCH_SIZE + 1] (acc_indptr a))
       (\<lambda>ptrs.
       let batch = \<lparr>ob_ops = acc_ops a, ob_indptr = ptrs, ob_padding = acc_padding a, ob_groups = acc_groups a,
           ob_num_groups = acc_next_group_idx a\<rparr> in
       bindO (validate_invariants batch) (\<lambda>_. Ok batch))))) = (Ok (batch_of (segs @ [close cur])) :: ('e, op_batch) outcome)"
proof -
  let ?k = "length (imms cur)" and ?w = "width segs" and ?all = "segs @ [close cur]"
  have w: "?w < 8" "?w + 1 + ?k \<le> 8"
    using ok by (auto simp: ok_open_def)
  define gs where "gs = seg_groups segs @ new_unchecked (group_value cur) # imms cur @ replicate (7 - ?w - ?k) 0"
  define a where "a = b\<lparr>acc_ops := flat segs @ fst (close cur), acc_op_idx := length (fst (close cur)),
    acc_padding := seg_pads segs @ snd (close cur) # replicate (7 - ?w) False, acc_groups := gs\<rparr>"
  have first: "(if acc_group b \<noteq> 0 \<or> acc_op_idx b \<noteq> 0
      then bindO (store (acc_groups b) (acc_group_idx b) (new_unchecked (acc_group b))) (\<lambda>gs.
        Ok (b\<lparr>acc_groups := gs\<rparr>))
      else Ok b) = (Ok (b\<lparr>acc_groups := gs\<rparr>) :: ('e, op_acc) outcome)"
    using w by (auto simp: b_def acc_of_def store_def list_update_append gs_def new_unchecked_def)
  have pad: "(pad_if_needed (b\<lparr>acc_groups := gs\<rparr>) :: ('e, op_acc) outcome) = Ok a"
    unfolding pad_if_needed_groups b_def pad_if_needed_acc [OF ok] by (simp add: a_def b_def)
  have fin: "(finalize_indptr a :: ('e, op_acc) outcome) = Ok (a\<lparr>acc_indptr := seg_ptrs 0 ?all @
      length (flat ?all) # replicate (7 - ?w - ?k) 0\<rparr>)"
    by (rule finalize_indptr_acc [OF ok]) (simp_all add: a_def b_def acc_of_def)
  have sel: "acc_ops a = flat ?all" "acc_next_group_idx a = width ?all" "acc_padding a = seg_pads ?all @ replicate (8 - width ?all) False"
    "acc_groups a = seg_groups ?all @ replicate (8 - width ?all) 0"
    using w by (simp_all add: a_def b_def acc_of_def width_single close_groups gs_def flip: replicate_add)
  have fill: "(foldO (\<lambda>i ptrs. store ptrs i x) [width ?all..<BATCH_SIZE + 1]
      (seg_ptrs 0 ?all @ x # replicate (7 - ?w - ?k) 0) :: ('e, nat list) outcome) =
      Ok (seg_ptrs 0 ?all @ replicate (9 - width ?all) x)" for x
  proof -
    have len: "9 - width ?all = length (x # replicate (7 - ?w - ?k) 0)"
      using w by (simp add: width_single)
    show ?thesis
      unfolding len using w by (intro fill_tail) (simp_all add: BATCH_SIZE_def width_single)
  qed
  have upd: "acc_ops (a\<lparr>acc_indptr := p\<rparr>) = acc_ops a" "acc_next_group_idx (a\<lparr>acc_indptr := p\<rparr>) = acc_next_group_idx a"
    "acc_padding (a\<lparr>acc_indptr := p\<rparr>) = acc_padding a" "acc_groups (a\<lparr>acc_indptr := p\<rparr>) = acc_groups a"
    "acc_indptr (a\<lparr>acc_indptr := p\<rparr>) = p" for p
    by simp_all
  have "width ?all \<le> 8"
    using w by (simp add: width_single)
  then show ?thesis
    using batch_invariants [where 'e = 'e, of ?all]
    unfolding first bindO.simps pad fin batch_of_def by (simp only: upd sel fill bindO.simps Let_def)
qed

lemma into_batch_acc:
  assumes "ok_open segs cur"
  shows "(into_batch (acc_of segs cur) :: ('e, op_batch) outcome) = Ok (batch_of (finish segs cur))"
    and "list_all ok_seg (finish segs cur)" "width (finish segs cur) = next_power_of_two (width segs + 1 + length (imms cur))"
proof -
  let ?n = "width segs + 1 + length (imms cur)"
  have n: "1 \<le> ?n" "?n \<le> 8"
    using assms by (auto simp: ok_open_def)
  then have t: "?n \<le> next_power_of_two ?n" "next_power_of_two ?n \<le> 8"
    using next_power_cases [OF n] by (auto split: if_splits)
  have le: "?n + length [?n..<next_power_of_two ?n] \<le> 8"
    using t by simp
  obtain segs' cur' where run: "(foldO (\<lambda>_ a. finalize_op_group a) [?n..<next_power_of_two ?n] (acc_of segs cur) :: ('e, op_acc) outcome) =
      Ok (acc_of segs' cur')" and ok: "ok_open segs' cur'" and eq: "segs' @ [close cur'] = finish segs cur"
    using finalize_rounds [where 'e = 'e, OF assms le] by (auto simp: finish_def Let_def)
  have "acc_next_group_idx (acc_of segs cur) = ?n" by (simp add: acc_of_def)
  then show "(into_batch (acc_of segs cur) :: ('e, op_batch) outcome) = Ok (batch_of (finish segs cur))"
    using into_batch_end [where 'e = 'e, OF ok] by (simp only: into_batch_def Let_def run bindO.simps eq)
  show "list_all ok_seg (finish segs cur)"
    using ok ok_close [OF ok] by (simp add: ok_open_def flip: eq)
  have "width (replicate m ([Noop], True)) = m" for m
    by (induction m) auto
  then show "width (finish segs cur) = next_power_of_two ?n"
    using t width_single [of cur] by (simp add: finish_def Let_def)
qed

section \<open>Blocks as lists of groups\<close>

text \<open>The loop of \<open>batch_ops\<close>, on groups: the finished batches, the closed groups of the current one, its open
  group.\<close>

definition abs_op :: "operation \<Rightarrow> seg list list \<times> seg list \<times> operation list \<Rightarrow> seg list list \<times> seg list \<times> operation list" where
  "abs_op op = (\<lambda>(done, segs, cur).
    if fits segs cur op then (done, abs_add segs cur op) else (done @ [finish segs cur], abs_add [] [] op))"

definition abs_batches :: "operation list \<Rightarrow> seg list list" where
  "abs_batches ops =
    (case fold abs_op ops ([], [], []) of (done, segs, cur) \<Rightarrow>
      if segs = [] \<and> cur = [] then done else done @ [finish segs cur])"

lemma fits_new: "fits [] [] op"
  by (simp add: fits_def must_close_def split: option.split)

lemma ok_new: "ok_open [] []"
  by (simp add: ok_open_def)

definition full_batch :: "seg list \<Rightarrow> bool" where
  "full_batch segs \<longleftrightarrow> list_all ok_seg segs \<and> width segs = 8"

lemma finish_full:
  assumes "ok_open segs cur" "\<not> fits segs cur op"
  shows "full_batch (finish segs cur)"
proof -
  let ?n = "width segs + 1 + length (imms cur)"
  have "length (imms [op]) \<le> 1" by (simp split: option.split)
  then have "6 < ?n" "?n \<le> 8"
    using assms by (auto simp: fits_def ok_open_def of_bool_def split: if_splits)
  then show ?thesis
    using into_batch_acc(2,3) [OF assms(1)] next_power_cases [of ?n] by (simp add: full_batch_def)
qed

lemma batch_op_acc:
  assumes "ok_open segs cur" "abs_op op (done, segs, cur) = (done', segs', cur')"
  shows "(batch_op op (map batch_of done, acc_of segs cur) :: ('e, _) outcome) = Ok (map batch_of done', acc_of segs' cur')"
    and "ok_open segs' cur'" and "list_all full_batch done \<Longrightarrow> list_all full_batch done'" and "cur' \<noteq> []"
proof -
  obtain segs1 cur1 where one: "abs_add [] [] op = (segs1, cur1)" by fastforce
  note [simp] = one add_op_acc [OF ok_new fits_new one] add_op_acc [OF assms(1)] acc_new_eq
    into_batch_acc(1) [OF assms(1)] can_accept_acc [OF assms(1)]
  show "(batch_op op (map batch_of done, acc_of segs cur) :: ('e, _) outcome) = Ok (map batch_of done', acc_of segs' cur')"
    using assms(2) by (auto simp: abs_op_def batch_op_def split: if_splits)
  show "ok_open segs' cur'"
    using assms abs_add_ok [OF assms(1)] abs_add_ok [OF ok_new fits_new one] by (auto simp: abs_op_def split: if_splits)
  show "list_all full_batch done \<Longrightarrow> list_all full_batch done'"
    using assms finish_full [OF assms(1)] by (auto simp: abs_op_def split: if_splits)
  show "cur' \<noteq> []"
    using assms(2) by (auto simp: abs_op_def abs_add_def split: if_splits)
qed

lemma batch_ops_run:
  assumes "ok_open segs cur" "fold abs_op ops (done, segs, cur) = (done', segs', cur')"
  shows "(foldO batch_op ops (map batch_of done, acc_of segs cur) :: ('e, _) outcome) = Ok (map batch_of done', acc_of segs' cur')"
    and "ok_open segs' cur'" and "list_all full_batch done \<Longrightarrow> list_all full_batch done'"
    and "ops \<noteq> [] \<Longrightarrow> cur' \<noteq> []"
proof -
  have "(foldO batch_op ops (map batch_of done, acc_of segs cur) :: ('e, _) outcome) = Ok (map batch_of done', acc_of segs' cur') \<and>
    ok_open segs' cur' \<and> (list_all full_batch done \<longrightarrow> list_all full_batch done') \<and> (ops \<noteq> [] \<longrightarrow> cur' \<noteq> []) \<and>
    (cur \<noteq> [] \<longrightarrow> cur' \<noteq> [])"
    using assms
  proof (induction ops arbitrary: "done" segs cur)
    case (Cons op ops)
    obtain done1 segs1 cur1 where one: "abs_op op (done, segs, cur) = (done1, segs1, cur1)"
      by (cases "abs_op op (done, segs, cur)")
    note step = batch_op_acc(1) [where 'e = 'e, OF Cons.prems(1) one] batch_op_acc(2-4) [OF Cons.prems(1) one]
    have rest: "fold abs_op ops (done1, segs1, cur1) = (done', segs', cur')"
      using Cons.prems(2) one by simp
    show ?case
      using step Cons.IH [OF step(2) rest] by simp
  qed simp
  then show "(foldO batch_op ops (map batch_of done, acc_of segs cur) :: ('e, _) outcome) = Ok (map batch_of done', acc_of segs' cur')"
    and "ok_open segs' cur'" and "list_all full_batch done \<Longrightarrow> list_all full_batch done'"
    and "ops \<noteq> [] \<Longrightarrow> cur' \<noteq> []"
    by blast+
qed

lemma batch_ops_abs: "(batch_ops ops :: ('e, _) outcome) = Ok (map batch_of (abs_batches ops))"
proof -
  obtain done' segs cur where run: "fold abs_op ops ([], [], []) = (done', segs, cur)"
    by (cases "fold abs_op ops ([], [], [])")
  note loop = batch_ops_run(1) [where 'e = 'e, OF ok_new run] batch_ops_run(2) [OF ok_new run]
  have "flat segs = [] \<longleftrightarrow> segs = []"
    using loop(2) by (cases segs) (auto simp: ok_open_def ok_seg_def)
  then have "acc_ops (acc_of segs cur) \<noteq> [] \<longleftrightarrow> \<not> (segs = [] \<and> cur = [])"
    by (auto simp: acc_of_def)
  then show ?thesis
    using loop(1) into_batch_acc(1) [where 'e = 'e, OF loop(2)]
    by (auto simp: batch_ops_def abs_batches_def run acc_new_eq)
qed

text \<open>A block: every batch but the last has eight groups, and the last a power of two of them.\<close>

fun ok_block :: "seg list list \<Rightarrow> bool" where
  "ok_block [] = True"
| "ok_block [segs] = (list_all ok_seg segs \<and> width segs \<in> {1, 2, 4, 8})"
| "ok_block (segs # r) = (full_batch segs \<and> ok_block r)"

lemma ok_block_append: "list_all full_batch done \<Longrightarrow> ok_block b \<Longrightarrow> ok_block (done @ b)"
proof (induction "done")
  case (Cons x r)
  then show ?case
    by (cases "r @ b") (auto simp: full_batch_def)
qed simp

lemma abs_batches_ok: "ok_block (abs_batches ops)"
proof -
  obtain done' segs cur where run: "fold abs_op ops ([], [], []) = (done', segs, cur)"
    by (cases "fold abs_op ops ([], [], [])")
  note loop = batch_ops_run [OF ok_new run]
  let ?n = "width segs + 1 + length (imms cur)"
  have "1 \<le> ?n" "?n \<le> 8"
    using loop(2) by (auto simp: ok_open_def)
  then have "next_power_of_two ?n \<in> {1, 2, 4, 8}"
    by (rule next_power_small)
  then have "ok_block [finish segs cur]"
    using into_batch_acc(2,3) [OF loop(2)] by simp
  then show ?thesis
    using loop(3) ok_block_append [of done' "[finish segs cur]"] ok_block_append [of done' "[]"]
    by (auto simp: abs_batches_def run)
qed

text \<open>The operations of a group without its padding.\<close>

definition raw :: "seg \<Rightarrow> operation list" where
  "raw x = (if snd x then butlast (fst x) else fst x)"

lemma abs_batches_raw: "concat (map raw (concat (abs_batches ops))) = ops"
proof -
  have [simp]: "raw (close cur) = cur" for cur
    by (auto simp: raw_def close_def)
  have fin: "concat (map raw (finish segs cur)) = concat (map raw segs) @ cur" for segs cur
    by (simp add: finish_def Let_def map_replicate_const) (simp add: raw_def)
  have "concat (map raw (concat done' @ segs')) @ cur' = concat (map raw (concat d @ segs)) @ cur @ ops"
    if "fold abs_op ops (d, segs, cur) = (done', segs', cur')" for d segs cur done' segs' cur'
    using that
  proof (induction ops arbitrary: d segs cur)
    case (Cons op ops)
    obtain done1 segs1 cur1 where one: "abs_op op (d, segs, cur) = (done1, segs1, cur1)"
      by (cases "abs_op op (d, segs, cur)")
    moreover have "concat (map raw (concat done1 @ segs1)) @ cur1 = concat (map raw (concat d @ segs)) @ cur @ [op]"
      using one by (auto simp: abs_op_def abs_add_def fin must_close_def split: if_splits)
    ultimately show ?case
      using Cons.IH [of done1 segs1 cur1] Cons.prems by simp
  qed simp
  from this [of "[]" "[]" "[]"] show ?thesis
    by (auto simp: abs_batches_def fin split: prod.split)
qed

end
