(* ===== verification/Block_Spec.thy ===== *)
theory Block_Spec
  imports Op_Batch_Spec
begin

text \<open>
  The readers of a batch, on the batches the accumulator makes: a walk over the group indices of a batch is a walk
  over its groups, and from it follow the operations a block holds, the paddings before an index, the positions the
  iterator gives, and every check of the validator.
\<close>

section \<open>Walking the groups of a batch\<close>

lemma foldO_append: "foldO f (xs @ ys) s = bindO (foldO f xs s) (foldO f ys)"
proof (induction xs arbitrary: s)
  case (Cons x xs)
  then have "foldO f (xs @ ys) = (\<lambda>s. bindO (foldO f xs s) (foldO f ys))" by auto
  then show ?case by (simp add: bindO_assoc)
qed simp

lemma foldO_walk:
  assumes "\<And>pre s p post. segs = pre @ (s, p) # post \<Longrightarrow>
    foldO f [width pre..<width pre + Suc (length (imms s))] (I pre) = Ok (I (pre @ [(s, p)]))"
  shows "foldO f [0..<width segs] (I []) = Ok (I segs)"
proof -
  have "foldO f [width pre..<width (pre @ post)] (I pre) = Ok (I (pre @ post))" if "segs = pre @ post" for pre post
    using that
  proof (induction post arbitrary: pre)
    case (Cons x post)
    obtain s p where x: "x = (s, p)" by (cases x)
    let ?m = "width pre + Suc (length (imms s))"
    have "[width pre..<width (pre @ x # post)] = [width pre..<?m] @ [?m..<width ((pre @ [x]) @ post)]"
      using upt_add_eq_append [of "width pre" ?m "width post"] by (simp add: x add.assoc del: upt_Suc)
    then show ?case
      using assms [of pre s p post] Cons.IH [of "pre @ [x]"] Cons.prems by (simp add: x foldO_append del: upt_Suc)
  qed simp
  from this [of "[]" segs] show ?thesis by simp
qed

text \<open>What the arrays hold at the indices of one group.\<close>

lemma batch_ptr:
  assumes "width (pre @ (s, p) # post) \<le> 8"
  shows "fetch (ob_indptr (batch_of (pre @ (s, p) # post))) (width pre) = Ok (length (flat pre))"
    and "i \<le> length (imms s) \<Longrightarrow>
      fetch (ob_indptr (batch_of (pre @ (s, p) # post))) (Suc (width pre + i)) = Ok (length (flat pre) + length s)"
proof -
  let ?n = "length (flat pre)" and ?m = "length (flat pre) + length s" and ?k = "length (imms s)"
  let ?tail = "seg_ptrs ?m post @ replicate (9 - width (pre @ (s, p) # post)) (length (flat (pre @ (s, p) # post)))"
  have "\<exists>rest. ?tail = ?m # rest"
  proof (cases post)
    case Nil
    obtain d where "9 - width (pre @ [(s, p)]) = Suc d"
      using assms Nil by (cases "9 - width (pre @ [(s, p)])") auto
    then show ?thesis by (simp only: Nil) simp
  next
    case (Cons x r)
    then show ?thesis by (cases x) simp
  qed
  then obtain rest where tail: "?tail = ?m # rest" ..
  have "ob_indptr (batch_of (pre @ (s, p) # post)) = seg_ptrs 0 pre @ ?n # replicate ?k ?m @ ?tail"
    by (simp add: batch_of_def)
  then have ptrs: "ob_indptr (batch_of (pre @ (s, p) # post)) = seg_ptrs 0 pre @ ?n # replicate (Suc ?k) ?m @ rest"
    unfolding tail by (simp add: replicate_app_Cons_same)
  show "fetch (ob_indptr (batch_of (pre @ (s, p) # post))) (width pre) = Ok ?n"
    by (simp add: fetch_def ptrs nth_append)
  assume i: "i \<le> ?k"
  have "(replicate (Suc ?k) ?m @ rest) ! i = ?m"
    using i by (simp add: nth_append del: replicate_Suc)
  then show "fetch (ob_indptr (batch_of (pre @ (s, p) # post))) (Suc (width pre + i)) = Ok ?m"
    using i by (simp add: fetch_def ptrs nth_append del: replicate_Suc)
qed

lemma batch_pad:
  "fetch (ob_padding (batch_of (pre @ (s, p) # post))) (width pre) = Ok p"
  "i < length (imms s) \<Longrightarrow> fetch (ob_padding (batch_of (pre @ (s, p) # post))) (Suc (width pre + i)) = Ok False"
  by (auto simp: batch_of_def fetch_def nth_append nth_Cons')

lemma batch_group:
  "fetch (ob_groups (batch_of (pre @ (s, p) # post))) (width pre) = Ok (new_unchecked (group_value s))"
  "i < length (imms s) \<Longrightarrow> fetch (ob_groups (batch_of (pre @ (s, p) # post))) (Suc (width pre + i)) = Ok (imms s ! i)"
  by (auto simp: batch_of_def fetch_def nth_append nth_Cons')

lemma batch_slice:
  "fetch_range (ob_ops (batch_of (pre @ (s, p) # post))) (length (flat pre)) (length s) = Ok s"
  by (simp add: batch_of_def fetch_range_def slice_def)

lemma batch_counts [simp]: "ob_num_groups (batch_of segs) = width segs" "ob_ops (batch_of segs) = flat segs"
  by (simp_all add: batch_of_def)

lemma batch_ptr_end:
  assumes "width (pre @ (s, p) # post) \<le> 8"
  shows "fetch (ob_indptr (batch_of (pre @ (s, p) # post))) (Suc (width pre)) = Ok (length (flat pre) + length s)"
  using batch_ptr(2) [OF assms, of 0] by simp

lemma batch_ptr_imm:
  assumes "width (pre @ (s, p) # post) \<le> 8" "i < length (imms s)"
  shows "fetch (ob_indptr (batch_of (pre @ (s, p) # post))) (Suc (Suc (width pre + i))) = Ok (length (flat pre) + length s)"
  using batch_ptr(2) [OF assms(1), of "Suc i"] assms(2) by simp

lemmas batch_reads = batch_ptr batch_ptr_end batch_ptr_imm batch_pad batch_group

text \<open>A walk that does something at the first index of a group and nothing at those of its immediate values.\<close>

lemma foldO_groups:
  assumes head: "\<And>pre s p post. segs = pre @ (s, p) # post \<Longrightarrow> f (width pre) (I pre) = Ok (I (pre @ [(s, p)]))"
    and imm: "\<And>pre s p post i. segs = pre @ (s, p) # post \<Longrightarrow> i < length (imms s) \<Longrightarrow>
      f (Suc (width pre + i)) (I (pre @ [(s, p)])) = Ok (I (pre @ [(s, p)]))"
  shows "foldO f [0..<width segs] (I []) = Ok (I segs)"
proof (rule foldO_walk)
  fix pre s p post assume segs: "segs = pre @ (s, p) # post"
  have "foldO f [Suc (width pre)..<width pre + Suc (length (imms s))] (I (pre @ [(s, p)])) = Ok (I (pre @ [(s, p)]))"
  proof (rule foldO_stay)
    fix x assume "x \<in> set [Suc (width pre)..<width pre + Suc (length (imms s))]"
    then have "x = Suc (width pre + (x - Suc (width pre)))" "x - Suc (width pre) < length (imms s)" by auto
    then show "f x (I (pre @ [(s, p)])) = Ok (I (pre @ [(s, p)]))"
      using imm [OF segs, of "x - Suc (width pre)"] by simp
  qed
  then show "foldO f [width pre..<width pre + Suc (length (imms s))] (I pre) = Ok (I (pre @ [(s, p)]))"
    using head [OF segs] by (simp add: upt_conv_Cons del: upt_Suc)
qed

lemma ok_seg_Suc: "list_all ok_seg (pre @ (s, p) # post) \<Longrightarrow> \<exists>n. length s = Suc n \<and> n < 9"
  by (cases s) (auto simp: ok_seg_def)

section \<open>The operations of a block\<close>

lemma raw_ops_batch:
  assumes "list_all ok_seg segs" "width segs \<le> 8"
  shows "(raw_ops (batch_of segs) :: ('e, _) outcome) = Ok (concat (map raw segs))"
proof -
  have "(foldO (\<lambda>g acc. bindO (raw_ops_group (batch_of segs) g) (\<lambda>ops. Ok (acc @ ops))) [0..<width segs] [] :: ('e, _) outcome) =
    Ok (concat (map raw segs))"
  proof (rule foldO_groups [where I = "\<lambda>segs. concat (map raw segs)", simplified list.map concat.simps])
    fix pre s p post
    assume segs: "segs = pre @ (s, p) # post"
    then obtain n where "length s = Suc n" using assms(1) ok_seg_Suc by blast
    then show "bindO (raw_ops_group (batch_of segs) (width pre)) (\<lambda>ops. Ok (concat (map raw pre) @ ops)) =
        Ok (concat (map raw (pre @ [(s, p)])))"
      using assms(2) by (cases p) (simp_all add: segs raw_ops_group_def batch_reads usub_def
        fetch_range_def slice_def raw_def butlast_conv_take)
  next
    fix pre s p post i
    assume segs: "segs = pre @ (s, p) # post" and i: "i < length (imms s)"
    then show "bindO (raw_ops_group (batch_of segs) (Suc (width pre + i))) (\<lambda>ops. Ok (concat (map raw (pre @ [(s, p)])) @ ops)) =
        Ok (concat (map raw (pre @ [(s, p)])))"
      using assms(2) by (simp add: raw_ops_group_def batch_reads usub_Ok fetch_range_def slice_def)
  qed
  then show ?thesis
    using assms flat_not_Nil [OF assms(1)] by (cases "segs = []") (auto simp: raw_ops_def batch_last_ptr)
qed

lemma ok_block_batches: "ok_block segss \<Longrightarrow> list_all (\<lambda>segs. list_all ok_seg segs \<and> 0 < width segs \<and> width segs \<le> 8) segss"
  by (induction segss rule: ok_block.induct) (auto simp: full_batch_def)

section \<open>Paddings before an index\<close>

fun pads_raw :: "nat \<Rightarrow> seg list \<Rightarrow> nat list" where
  "pads_raw k [] = []"
| "pads_raw k (x # r) = replicate (length (raw x)) k @ pads_raw (k + of_bool (snd x)) r"

fun pads_padded :: "nat \<Rightarrow> seg list \<Rightarrow> nat list" where
  "pads_padded k [] = []"
| "pads_padded k (x # r) = replicate (length (fst x)) k @ pads_padded (k + of_bool (snd x)) r"

definition pads :: "seg list \<Rightarrow> nat" where
  "pads segs = (\<Sum>x \<leftarrow> segs. of_bool (snd x))"

lemma pads_simps [simp]: "pads [] = 0" "pads (x # r) = of_bool (snd x) + pads r" "pads (a @ b) = pads a + pads b"
  by (simp_all add: pads_def)

lemma pads_append [simp]:
  "pads_raw k (a @ b) = pads_raw k a @ pads_raw (k + pads a) b"
  "pads_padded k (a @ b) = pads_padded k a @ pads_padded (k + pads a) b"
  by (induction a arbitrary: k) (auto simp: add.assoc)

lemma raw_in_group_batch:
  assumes "list_all ok_seg (pre @ (s, p) # post)" "width (pre @ (s, p) # post) \<le> 8"
  shows "(raw_in_group (batch_of (pre @ (s, p) # post)) (width pre) :: ('e, _) outcome) = Ok (length (raw (s, p)), p)"
    and "i < length (imms s) \<Longrightarrow>
      (raw_in_group (batch_of (pre @ (s, p) # post)) (Suc (width pre + i)) :: ('e, _) outcome) = Ok (0, False)"
proof -
  obtain n where "length s = Suc n" using assms(1) ok_seg_Suc by blast
  then show "(raw_in_group (batch_of (pre @ (s, p) # post)) (width pre) :: ('e, _) outcome) = Ok (length (raw (s, p)), p)"
    using assms(2) by (cases p) (simp_all add: raw_in_group_def batch_reads usub_def raw_def)
  show "(raw_in_group (batch_of (pre @ (s, p) # post)) (Suc (width pre + i)) :: ('e, _) outcome) = Ok (0, False)"
    if "i < length (imms s)"
    using that assms(2) by (simp add: raw_in_group_def batch_reads usub_def)
qed

lemma raw_to_padded_batch:
  assumes "list_all ok_seg segs" "width segs \<le> 8"
  shows "(foldO (raw_to_padded_group (batch_of segs)) [0..<width segs] (v, k) :: ('e, _) outcome) =
    Ok (v @ pads_raw k segs, k + pads segs)"
proof -
  have "(foldO (raw_to_padded_group (batch_of segs)) [0..<width segs] (v @ pads_raw k [], k + pads []) :: ('e, _) outcome) =
    Ok (v @ pads_raw k segs, k + pads segs)"
    by (rule foldO_groups [where I = "\<lambda>segs. (v @ pads_raw k segs, k + pads segs)"])
      (use assms in \<open>simp_all add: raw_to_padded_group_def raw_in_group_batch\<close>)
  then show ?thesis by simp
qed

lemma padded_to_raw_batch:
  assumes "list_all ok_seg segs" "width segs \<le> 8"
  shows "(foldO (padded_to_raw_group (batch_of segs)) [0..<width segs] (v, k) :: ('e, _) outcome) =
    Ok (v @ pads_padded k segs, k + pads segs)"
proof -
  have len: "length (fst x) = length (raw x) + of_bool (snd x)" if "ok_seg x" for x
    using that by (cases "fst x") (auto simp: ok_seg_def raw_def)
  have "(foldO (padded_to_raw_group (batch_of segs)) [0..<width segs] (v @ pads_padded k [], k + pads []) :: ('e, _) outcome) =
    Ok (v @ pads_padded k segs, k + pads segs)"
    by (rule foldO_groups [where I = "\<lambda>segs. (v @ pads_padded k segs, k + pads segs)"])
      (use assms len in \<open>fastforce simp: padded_to_raw_group_def raw_in_group_batch replicate_add replicate_append_same\<close>)+
  then show ?thesis by simp
qed

lemma prefix_new:
  assumes "ok_block segss"
  shows "(raw_to_padded_new (map batch_of segss) :: ('e, _) outcome) = Ok (pads_raw 0 (concat segss) @ [pads (concat segss)])"
    and "(padded_to_raw_new (map batch_of segss) :: ('e, _) outcome) = Ok (pads_padded 0 (concat segss) @ [pads (concat segss)])"
proof -
  have ok: "list_all (\<lambda>segs. list_all ok_seg segs \<and> width segs \<le> 8) segss"
    using ok_block_batches [OF assms] by (auto simp: list_all_iff)
  have "(foldO (\<lambda>b. foldO (raw_to_padded_group b) [0..<ob_num_groups b]) (map batch_of segss) (v, k) :: ('e, _) outcome) =
      Ok (v @ pads_raw k (concat segss), k + pads (concat segss))" for v k
    using ok by (induction segss arbitrary: v k) (auto simp: raw_to_padded_batch add.assoc)
  then show "(raw_to_padded_new (map batch_of segss) :: ('e, _) outcome) = Ok (pads_raw 0 (concat segss) @ [pads (concat segss)])"
    by (simp add: raw_to_padded_new_def)
  have "(foldO (\<lambda>b. foldO (padded_to_raw_group b) [0..<ob_num_groups b]) (map batch_of segss) (v, k) :: ('e, _) outcome) =
      Ok (v @ pads_padded k (concat segss), k + pads (concat segss))" for v k
    using ok by (induction segss arbitrary: v k) (auto simp: padded_to_raw_batch add.assoc)
  then show "(padded_to_raw_new (map batch_of segss) :: ('e, _) outcome) = Ok (pads_padded 0 (concat segss) @ [pads (concat segss)])"
    by (simp add: padded_to_raw_new_def)
qed

text \<open>The padded index of an operation leads to the operation and back to its index.\<close>

lemma length_pads: "length (pads_raw k segs) = length (concat (map raw segs))" "length (pads_padded k segs) = length (flat segs)"
  by (induction segs arbitrary: k) auto

lemma seg_length: "ok_seg x \<Longrightarrow> length (fst x) = length (raw x) + of_bool (snd x)"
  by (cases "fst x") (auto simp: ok_seg_def raw_def)

lemma raw_prefix: "i < length (raw x) \<Longrightarrow> fst x ! i = raw x ! i"
  by (auto simp: raw_def nth_butlast split: if_splits)

lemma pads_inverse:
  assumes "list_all ok_seg segs" "i \<le> length (concat (map raw segs))"
  shows "\<exists>e. (pads_raw k segs @ [k + pads segs]) ! i = k + e \<and> (pads_padded k segs @ [k + pads segs]) ! (i + e) = k + e \<and>
    i + e \<le> length (flat segs) \<and> (i < length (concat (map raw segs)) \<longrightarrow> i + e < length (flat segs) \<and>
      flat segs ! (i + e) = concat (map raw segs) ! i)"
  using assms
proof (induction segs arbitrary: i k)
  case (Cons x r)
  let ?n = "length (raw x)" and ?p = "of_bool (snd x) :: nat"
  have len: "length (fst x) = ?n + ?p"
    using Cons.prems(1) by (intro seg_length) simp
  show ?case
  proof (cases "i < ?n")
    case True
    then show ?thesis
      using len raw_prefix [OF True] by (intro exI [of _ 0]) (simp add: nth_append)
  next
    case False
    then obtain j where j: "i = ?n + j" by (metis le_add_diff_inverse linorder_not_less)
    have "list_all ok_seg r" "j \<le> length (concat (map raw r))"
      using Cons.prems by (simp_all add: j del: length_concat)
    from Cons.IH [OF this, of "k + ?p"] obtain e where "(pads_raw (k + ?p) r @ [k + ?p + pads r]) ! j = k + ?p + e"
      "(pads_padded (k + ?p) r @ [k + ?p + pads r]) ! (j + e) = k + ?p + e" "j + e \<le> length (flat r)"
      "j < length (concat (map raw r)) \<longrightarrow> j + e < length (flat r) \<and> flat r ! (j + e) = concat (map raw r) ! j"
      by blast
    then show ?thesis
      using len by (intro exI [of _ "?p + e"]) (auto simp: j nth_append add.assoc add.left_commute)
  qed
qed simp

section \<open>Positions\<close>

text \<open>Up to the group of an operation, no group ends after it; its own group does.\<close>

lemma ptr_before:
  assumes "width (pre @ (s, p) # post) \<le> 8" "h \<le> width pre"
  shows "ob_indptr (batch_of (pre @ (s, p) # post)) ! h \<le> length (flat pre)"
proof -
  let ?b = "batch_of (pre @ (s, p) # post)"
  have "width pre < length (ob_indptr ?b)" "ob_indptr ?b ! width pre = length (flat pre)"
    using batch_ptr(1) [OF assms(1)] by (auto simp: fetch_def split: if_splits)
  then show ?thesis
    using sorted_nth_mono [OF batch_sorted(1), of h "width pre" "pre @ (s, p) # post"] assms(2) by simp
qed

lemma ptr_after:
  assumes "width (pre @ (s, p) # post) \<le> 8"
  shows "ob_indptr (batch_of (pre @ (s, p) # post)) ! width pre = length (flat pre)"
    and "ob_indptr (batch_of (pre @ (s, p) # post)) ! Suc (width pre) = length (flat pre) + length s"
  using batch_ptr(1) [OF assms] batch_ptr_end [OF assms] by (auto simp: fetch_def split: if_splits)

lemma advance_group_batch:
  assumes w: "width (pre @ (s, p) # post) \<le> 8" and i: "i < length s" and g: "g \<le> width pre"
  shows "(advance_group (batch_of (pre @ (s, p) # post)) (length (flat pre) + i) g :: ('e, nat) outcome) = Ok (width pre)"
  using g
proof (induction "width pre - g" arbitrary: g)
  case 0
  then have "g = width pre" by simp
  then show ?case
    using i w by (simp add: advance_group.simps [of _ _ "width pre"] batch_reads)
next
  case (Suc d)
  then have lt: "g < width pre" by simp
  have "ob_indptr (batch_of (pre @ (s, p) # post)) ! Suc g \<le> length (flat pre)"
    using lt by (intro ptr_before [OF w]) simp
  then show ?case
    using Suc lt w by (simp add: advance_group.simps [of _ _ g] fetch_def batch_sorted(2))
qed

fun positions :: "nat \<Rightarrow> seg list \<Rightarrow> (nat \<times> nat \<times> operation) list" where
  "positions n [] = []"
| "positions n ((s, p) # r) = map (\<lambda>(i, op). (n, i, op)) (enumerate 0 s) @ positions (n + Suc (length (imms s))) r"

lemma iter_group:
  assumes w: "width (pre @ (s, p) # post) \<le> 8" and "s = t @ u" "u \<noteq> []" "g \<le> width pre"
  shows "(iter_from (batch_of (pre @ (s, p) # post)) (u @ ops) (length (flat pre) + length t) g :: ('e, _) outcome) =
    bindO (iter_from (batch_of (pre @ (s, p) # post)) ops (length (flat pre) + length s) (width pre))
      (\<lambda>rest. Ok (map (\<lambda>(i, op). (width pre, i, op)) (enumerate (length t) u) @ rest))"
  using assms(2-)
proof (induction u arbitrary: t g)
  case (Cons op u)
  have step: "(advance_group (batch_of (pre @ (s, p) # post)) (length (flat pre) + length t) g :: ('e, _) outcome) = Ok (width pre)"
    using Cons.prems by (intro advance_group_batch [OF w]) auto
  show ?case
  proof (cases "u = []")
    case True
    then show ?thesis
      using step Cons.prems w by (simp add: batch_reads usub_def)
  next
    case False
    then show ?thesis
      using step Cons.prems w Cons.IH [of "t @ [op]" "width pre"] by (simp add: batch_reads usub_def bindO_assoc)
  qed
qed simp

lemma iter_batch:
  assumes "list_all ok_seg segs" "width segs \<le> 8"
  shows "(iter_with_groups (batch_of segs) :: ('e, _) outcome) = Ok (positions 0 segs)"
proof -
  have "(iter_from (batch_of segs) (flat post) (length (flat pre)) g :: ('e, _) outcome) = Ok (positions (width pre) post)"
    if "segs = pre @ post" "g \<le> width pre" for pre post g
    using that
  proof (induction post arbitrary: pre g)
    case (Cons x post)
    obtain s p where x: "x = (s, p)" by (cases x)
    have "s \<noteq> []" using Cons.prems(1) assms(1) x by (auto simp: ok_seg_def)
    then show ?case
      using Cons.prems assms(2) x iter_group [where 'e = 'e, of pre s p post "[]" s g "flat post"]
        Cons.IH [of "pre @ [x]" "width pre"] by simp
  qed simp
  from this [of "[]" segs 0] show ?thesis
    by (simp add: iter_with_groups_def)
qed

lemma flat_split:
  "k < length (flat segs) \<Longrightarrow> \<exists>pre s p post i. segs = pre @ (s, p) # post \<and> k = length (flat pre) + i \<and> i < length s"
proof (induction segs arbitrary: k)
  case (Cons x r)
  show ?case
  proof (cases "k < length (fst x)")
    case True
    then show ?thesis
      by (intro exI [of _ "[]"] exI [of _ "fst x"] exI [of _ "snd x"] exI [of _ r] exI [of _ k]) simp
  next
    case False
    then obtain j where j: "k = length (fst x) + j" by (metis le_add_diff_inverse linorder_not_less)
    then have "j < length (flat r)" using Cons.prems by simp
    from Cons.IH [OF this] obtain pre s p post i where "r = pre @ (s, p) # post" "j = length (flat pre) + i" "i < length s"
      by blast
    then show ?thesis
      using j by (intro exI [of _ "x # pre"] exI [of _ s] exI [of _ p] exI [of _ post] exI [of _ i]) simp
  qed
qed simp

lemma length_positions: "length (positions n segs) = length (flat segs)"
  by (induction n segs rule: positions.induct) simp_all

lemma positions_append: "positions n (a @ b) = positions n a @ positions (n + width a) b"
  by (induction n a rule: positions.induct) (simp_all add: add.assoc)

lemma find_group_batch:
  assumes "width segs \<le> 8" "k < length (flat segs)"
  shows "(op_idx_in_batch_to_group (batch_of segs) k :: ('e, _) outcome) =
    Ok (Some (fst (positions 0 segs ! k), fst (snd (positions 0 segs ! k))))"
    and "snd (snd (positions 0 segs ! k)) = flat segs ! k"
proof -
  obtain pre s p post i where segs: "segs = pre @ (s, p) # post" and k: "k = length (flat pre) + i" and i: "i < length s"
    using flat_split [OF assms(2)] by blast
  have w: "width (pre @ (s, p) # post) \<le> 8" using assms(1) segs by simp
  let ?b = "batch_of (pre @ (s, p) # post)"
  let ?ends = "slice 1 (width segs) (ob_indptr ?b)"
  have pos: "positions 0 segs ! k = (width pre, i, s ! i)"
    using i by (simp add: segs k positions_append length_positions nth_append nth_enumerate_eq)
  have len: "length (ob_indptr ?b) = 9" using w by (rule batch_sorted(2))
  have "takeWhile (\<lambda>e. e \<le> k) ?ends = take (width pre) ?ends"
  proof (rule takeWhile_eq_take_P_nth)
    fix h assume "h < width pre" "h < length ?ends"
    then show "?ends ! h \<le> k"
      using ptr_before [OF w, of "Suc h"] assms(1) len by (simp add: k)
  next
    show "\<not> ?ends ! width pre \<le> k" if "width pre < length ?ends"
      using ptr_after(2) [OF w] assms(1) len i that by (simp add: k segs)
  qed
  then have "length (takeWhile (\<lambda>e. e \<le> k) ?ends) = width pre"
    using assms(1) len by (simp add: segs)
  then show "(op_idx_in_batch_to_group (batch_of segs) k :: ('e, _) outcome) =
      Ok (Some (fst (positions 0 segs ! k), fst (snd (positions 0 segs ! k))))"
    using i w len batch_ptr(1) [where 'a = 'e, OF w] assms(1)
    by (simp add: pos) (simp add: op_idx_in_batch_to_group_def segs k fetch_range_def usub_def Let_def)
  show "snd (snd (positions 0 segs ! k)) = flat segs ! k"
    using i by (simp add: pos) (simp add: segs k nth_append)
qed

end
