(* ===== verification/Block_Valid.thy ===== *)
theory Block_Valid
  imports Block_Spec
begin

text \<open>
  The validator of basic blocks accepts every block the accumulator makes, check by check, and the theorems on blocks
  as a whole.
\<close>

section \<open>The checks on one batch\<close>

lemma structure_ok:
  assumes "list_all ok_seg segs" "width segs \<le> 8"
  shows "validate_structure (batch_of segs) = Ok ()"
proof -
  let ?ptrs = "ob_indptr (batch_of segs)"
  have len: "length ?ptrs = 9" using assms(2) by (rule batch_sorted(2))
  have mono: "foldO (check_indptr (batch_of segs)) [0..<8] () = Ok ()"
    using sorted_nth_mono [OF batch_sorted(1) [of segs]]
    by (intro foldO_stay) (auto simp: check_indptr_def fetch_def len not_less simp flip: not_le)
  have last: "?ptrs ! 8 = length (flat segs)"
    using assms(2) by (simp add: batch_of_def nth_append)
  have "foldO (check_group_size (batch_of segs)) [0..<width segs] () = Ok ()"
  proof (rule foldO_groups [where I = "\<lambda>_. ()"])
    fix pre s p post assume segs: "segs = pre @ (s, p) # post"
    then obtain n where "length s = Suc n" "n < 9" using assms(1) ok_seg_Suc by blast
    then show "check_group_size (batch_of segs) (width pre) () = Ok ()"
      using assms(2) by (simp add: segs check_group_size_def batch_reads usub_def GROUP_SIZE_def)
  qed (use assms(2) in \<open>simp add: check_group_size_def batch_reads usub_def\<close>)
  then show ?thesis
    using assms(2) mono last by (simp add: validate_structure_def BATCH_SIZE_def len fetch_def)
qed

lemma group_ops_batch:
  assumes "list_all ok_seg (pre @ (s, p) # post)" "width (pre @ (s, p) # post) \<le> 8"
  shows "(group_ops (batch_of (pre @ (s, p) # post)) (width pre) :: ('e, _) outcome) = Ok s"
    and "i < length (imms s) \<Longrightarrow> (group_ops (batch_of (pre @ (s, p) # post)) (Suc (width pre + i)) :: ('e, _) outcome) = Ok []"
proof -
  obtain n where "length s = Suc n" using assms(1) ok_seg_Suc by blast
  then show "(group_ops (batch_of (pre @ (s, p) # post)) (width pre) :: ('e, _) outcome) = Ok s"
    using assms(2) by (simp add: group_ops_def batch_reads usub_def fetch_range_def slice_def)
qed (use assms(2) in \<open>simp add: group_ops_def batch_reads\<close>)

lemma imms_empty: "imms s = [] \<longleftrightarrow> (\<forall>op \<in> set s. imm_value op = None)"
  by (induction s) (auto split: option.split)

lemma endings_ok:
  assumes "list_all ok_seg segs" "width segs \<le> 8"
  shows "validate_endings (batch_of segs) = Ok ()"
  unfolding validate_endings_def batch_counts
proof (rule foldO_groups [where I = "\<lambda>_. ()"])
  fix pre s p post assume segs: "segs = pre @ (s, p) # post"
  have "imm_value (last s) = None" using assms(1) segs by (auto simp: ok_seg_def)
  moreover have "foldO (\<lambda>(i, op) _. if imm_value op \<noteq> None then Err (ImmediateInLastGroup g i) else Ok ()) (enumerate 0 s) () = Ok ()"
    if "width pre = width segs - 1" for g
  proof (rule foldO_stay)
    have "imms s = []" using that segs by simp
    fix x assume "x \<in> set (enumerate 0 s)"
    then have "snd x = s ! fst x" "fst x < length s" by (simp_all add: in_set_enumerate_eq)
    then have "imm_value (snd x) = None" using \<open>imms s = []\<close> nth_mem by (auto simp: imms_empty)
    then show "(case x of (i, op) \<Rightarrow> \<lambda>_. if imm_value op \<noteq> None then Err (ImmediateInLastGroup g i) else Ok ()) () = Ok ()"
      by (cases x) simp
  qed
  ultimately show "check_ending (batch_of segs) (width pre) () = Ok ()"
    using assms by (simp add: segs check_ending_def group_ops_batch)
qed (use assms in \<open>simp add: check_ending_def group_ops_batch\<close>)

lemma padding_ok:
  assumes "list_all ok_seg segs" "width segs \<le> 8"
  shows "validate_padding (batch_of segs) = Ok ()"
proof -
  have "foldO (check_padding (batch_of segs)) [0..<width segs] () = Ok ()"
  proof (rule foldO_groups [where I = "\<lambda>_. ()"])
    fix pre s p post assume segs: "segs = pre @ (s, p) # post"
    then obtain n where n: "length s = Suc n" using assms(1) ok_seg_Suc by blast
    have "p \<Longrightarrow> s ! n = Noop"
      using assms(1) n segs by (auto simp: ok_seg_def last_conv_nth)
    then show "check_padding (batch_of segs) (width pre) () = Ok ()"
      using assms(2) n by (simp add: segs check_padding_def batch_reads nth_append)
  qed (simp add: check_padding_def batch_reads)
  then show ?thesis
    using assms(2) by (simp add: validate_padding_def BATCH_SIZE_def)
qed

lemma zip_upt_snoc: "zip [n..<n + length (xs @ [y])] (xs @ [y]) = zip [n..<n + length xs] xs @ [(n + length xs, y)]"
  by (simp add: upt_Suc_append)

lemma collect_batch:
  assumes "width (pre @ (s, p) # post) \<le> 8"
  shows "collect_immediate_placements (flat (pre @ (s, p) # post)) (ob_indptr (batch_of (pre @ (s, p) # post))) (width pre)
      BATCH_SIZE (Some (width (pre @ (s, p) # post))) =
    Ok (zip [Suc (width pre)..<Suc (width pre) + length (imms s)] (imms s), Suc (width pre) + length (imms s))"
proof -
  let ?w = "Suc (width pre)" and ?b = "batch_of (pre @ (s, p) # post)"
  let ?place = "place_immediate (ob_indptr ?b) BATCH_SIZE (Some (width (pre @ (s, p) # post)))"
  have "foldO ?place u (zip [?w..<?w + length (imms t)] (imms t), ?w + length (imms t)) =
      Ok (zip [?w..<?w + length (imms s)] (imms s), ?w + length (imms s))" if "s = t @ u" for t u
    using that
  proof (induction u arbitrary: t)
    case (Cons op u)
    have "?place op (zip [?w..<?w + length (imms t)] (imms t), ?w + length (imms t)) =
        Ok (zip [?w..<?w + length (imms (t @ [op]))] (imms (t @ [op])), ?w + length (imms (t @ [op])))"
    proof (cases "imm_value op")
      case None
      then show ?thesis by (simp add: place_immediate_def)
    next
      case (Some imm)
      then have "length (imms t) < length (imms s)" using Cons.prems by simp
      then show ?thesis
        using assms Some zip_upt_snoc [of ?w "imms t" imm]
        by (simp add: place_immediate_def batch_reads BATCH_SIZE_def del: upt_Suc)
    qed
    then show ?case
      using Cons.IH [of "t @ [op]"] Cons.prems by (simp del: upt_Suc)
  qed simp
  from this [of "[]" s] show ?thesis
    using assms
    by (simp add: collect_immediate_placements_def batch_reads usub_def fetch_range_def slice_def del: upt_Suc)
qed

definition marks :: "seg list \<Rightarrow> bool list" where
  "marks segs = concat (map (\<lambda>(s, p). False # replicate (length (imms s)) True) segs)"

lemma marks_simps [simp]:
  "marks [] = []" "marks (a @ b) = marks a @ marks b"
  "marks ((s, p) # r) = False # replicate (length (imms s)) True @ marks r" "length (marks segs) = width segs"
proof -
  show "length (marks segs) = width segs"
    by (induction segs) (auto simp: marks_def)
qed (simp_all add: marks_def)

lemma mark_run:
  assumes "\<And>i. i < length xs \<Longrightarrow> fetch (ob_groups b) (length h + i) = (Ok (xs ! i) :: (batch_error, felt) outcome)"
  shows "foldO (mark_immediate b) (zip [length h..<length h + length xs] xs) (h @ replicate (length xs) False @ t) =
    Ok (h @ replicate (length xs) True @ t)"
  using assms
proof (induction xs arbitrary: h)
  case (Cons x xs)
  have "fetch (ob_groups b) (length h) = (Ok x :: (batch_error, felt) outcome)" using Cons.prems [of 0] by simp
  moreover have "fetch (ob_groups b) (length (h @ [True]) + i) = (Ok (xs ! i) :: (batch_error, felt) outcome)" if "i < length xs" for i
    using Cons.prems [of "Suc i"] that by simp
  ultimately show ?case
    using Cons.IH [of "h @ [True]"]
    by (simp add: upt_conv_Cons mark_immediate_def store_def list_update_append del: upt_Suc)
qed simp

lemma commitment_ok:
  assumes "list_all ok_seg segs" "width segs \<le> 8"
  shows "validate_commitment (batch_of segs) = Ok ()"
proof -
  let ?b = "batch_of segs" and ?slots = "\<lambda>segs. marks segs @ replicate (8 - width segs) False"
  have "foldO (commit_group ?b) [0..<width segs] (?slots []) = Ok (?slots segs)"
  proof (rule foldO_groups [where I = ?slots])
    fix pre s p post assume segs: "segs = pre @ (s, p) # post"
    have w: "width (pre @ (s, p) # post) \<le> 8" and ok: "list_all ok_seg (pre @ (s, p) # post)"
      using assms segs by auto
    let ?k = "length (imms s)" and ?rest = "replicate (8 - width (pre @ [(s, p)])) False"
    have n: "8 - width pre = Suc (?k + (8 - width (pre @ [(s, p)])))" using w by simp
    have slots: "?slots pre = (marks pre @ [False]) @ replicate ?k False @ ?rest"
      unfolding n by (simp add: replicate_add)
    have "foldO (mark_immediate ?b) (zip [Suc (width pre)..<Suc (width pre) + ?k] (imms s)) (?slots pre) =
        Ok ((marks pre @ [False]) @ replicate ?k True @ ?rest)"
      unfolding slots using mark_run [of "imms s" ?b "marks pre @ [False]" ?rest] by (simp add: segs batch_reads del: upt_Suc)
    moreover have "s \<noteq> []" using ok by (auto simp: ok_seg_def)
    ultimately show "commit_group ?b (width pre) (?slots pre) = Ok (?slots (pre @ [(s, p)]))"
      unfolding segs commit_group_def group_ops_batch(1) [OF ok w] batch_counts collect_batch [OF w]
      by (simp add: batch_reads del: upt_Suc)
  qed (use assms in \<open>simp add: commit_group_def group_ops_batch\<close>)
  moreover have "foldO (check_empty_group ?b (?slots segs)) [0..<width segs] () = Ok ()"
  proof (rule foldO_groups [where I = "\<lambda>_. ()"])
    fix pre s p post assume segs: "segs = pre @ (s, p) # post"
    then have "s \<noteq> []" using assms(1) by (auto simp: ok_seg_def)
    then show "check_empty_group ?b (?slots segs) (width pre) () = Ok ()"
      using assms(2) by (simp add: check_empty_group_def segs batch_reads) (simp add: fetch_def nth_append)
  next
    fix pre s p post i assume segs: "segs = pre @ (s, p) # post" and i: "i < length (imms s)"
    then show "check_empty_group ?b (?slots segs) (Suc (width pre + i)) () = Ok ()"
      using assms(2) by (simp add: check_empty_group_def batch_reads) (simp add: fetch_def nth_append)
  qed
  ultimately show ?thesis
    by (simp add: validate_commitment_def BATCH_SIZE_def)
qed

lemma power_groups_ok:
  assumes "ok_block segss"
  shows "validate_power_of_two_groups (map batch_of segss) = Ok ()"
proof -
  have pow: "is_power_of_two n" if "n \<in> {1, 2, 4, 8}" for n
    using that next_power_cases [of n] by (auto simp: is_power_of_two_def)
  let ?check = "\<lambda>m (i, b) (_ :: unit).
    if i + 1 < m then (if ob_num_groups b \<noteq> BATCH_SIZE then Err (NotFullBatch (ob_num_groups b)) else Ok ())
    else if \<not> is_power_of_two (ob_num_groups b) then Err (NotPowerOfTwo (ob_num_groups b)) else Ok ()"
  have "foldO (?check (k + length segss)) (enumerate k (map batch_of segss)) () = Ok ()" for k
    using assms
  proof (induction segss arbitrary: k rule: ok_block.induct)
    case (2 segs)
    then show ?case using pow by simp
  next
    case (3 segs x r)
    then show ?case
      using "3.IH" [of "Suc k"] by (simp add: full_batch_def BATCH_SIZE_def)
  qed simp
  from this [of 0] show ?thesis
    by (simp add: validate_power_of_two_groups_def case_prod_beta')
qed

lemma block_valid:
  assumes "ok_block segss"
  shows "validate_batch_invariants (map batch_of segss) = Ok ()"
proof -
  have all: "foldO (\<lambda>b _. f b) (map batch_of segss) () = Ok ()"
    if "\<And>segs. list_all ok_seg segs \<Longrightarrow> width segs \<le> 8 \<Longrightarrow> f (batch_of segs) = Ok ()" for f :: "op_batch \<Rightarrow> (batch_error, unit) outcome"
    using ok_block_batches [OF assms] that by (intro foldO_stay) (auto simp: list_all_iff)
  show ?thesis
    using power_groups_ok [OF assms] all [of validate_structure, OF structure_ok]
      all [of validate_endings, OF endings_ok] all [of validate_commitment, OF commitment_ok]
      all [of validate_padding, OF padding_ok]
    by (simp add: validate_batch_invariants_def)
qed

section \<open>Blocks\<close>

lemma raw_operations_block:
  assumes "ok_block segss"
  shows "(raw_operations (map batch_of segss) :: ('e, _) outcome) = Ok (concat (map raw (concat segss)))"
proof -
  have ok: "list_all (\<lambda>segs. list_all ok_seg segs \<and> width segs \<le> 8) segss"
    using ok_block_batches [OF assms] by (auto simp: list_all_iff)
  have "(foldO (\<lambda>b acc. bindO (raw_ops b) (\<lambda>ops. Ok (acc @ ops))) (map batch_of segss) acc :: ('e, _) outcome) =
      Ok (acc @ concat (map raw (concat segss)))" for acc
    using ok by (induction segss arbitrary: acc) (auto simp: raw_ops_batch)
  then show ?thesis by (simp add: raw_operations_def)
qed

lemma operations_block: "operations (map batch_of segss) = flat (concat segss)"
  by (induction segss) (auto simp: operations_def)

text \<open>C16: A block holds the operations it was made of: packing a list of operations into batches never panics, and
  reading the batches back without their padding gives the list.\<close>

theorem block_holds_operations: "bindO (batch_ops ops) raw_operations = Ok ops"
  using raw_operations_block [OF abs_batches_ok [of ops]] by (simp add: batch_ops_abs abs_batches_raw)

text \<open>C17: Every block made from operations passes the validation that deserialized blocks go through: full batches
  but the last, a power of two of groups in the last, monotonic positions, at most nine operations in a group, no group
  that ends in an immediate value, group values and immediate values that match the operations, and paddings that are
  no-operations.\<close>

theorem block_passes_validation: "bindO (batch_ops ops) validate_batch_invariants = Ok ()"
  using block_valid [OF abs_batches_ok [of ops]] by (simp add: batch_ops_abs)

lemma adjust_each:
  assumes "list_all (\<lambda>i. i < length v) idxs"
  shows "foldO (\<lambda>raw_idx acc. bindO (fetch v raw_idx) (\<lambda>d. Ok (acc @ [raw_idx + d]))) idxs acc =
    Ok (acc @ map (\<lambda>i. i + v ! i) idxs)"
  using assms by (induction idxs arbitrary: acc) (auto simp: fetch_def)

lemma unadjust_each:
  assumes "list_all (\<lambda>i. i < length v \<and> v ! i \<le> i) idxs"
  shows "foldO (\<lambda>padded_idx acc. bindO (fetch v padded_idx) (\<lambda>d. bindO (usub padded_idx d) (\<lambda>r. Ok (acc @ [r])))) idxs acc =
    Ok (acc @ map (\<lambda>i. i - v ! i) idxs)"
  using assms by (induction idxs arbitrary: acc) (auto simp: fetch_def usub_def)

lemma ok_block_concat: "ok_block segss \<Longrightarrow> list_all ok_seg (concat segss)"
  using ok_block_batches [of segss] by (auto simp: list_all_iff)

text \<open>The padded index of every raw index up to the length of the block.\<close>

lemma adjust_block:
  assumes "list_all (\<lambda>i. i \<le> length ops) idxs"
  defines "segs \<equiv> concat (abs_batches ops)"
  defines "v \<equiv> pads_raw 0 segs @ [pads segs]" and "u \<equiv> pads_padded 0 segs @ [pads segs]"
  shows "adjust_asm_op_indices idxs (map batch_of (abs_batches ops)) = Ok (map (\<lambda>i. i + v ! i) idxs)"
    and "unadjust_asm_op_indices (map (\<lambda>i. i + v ! i) idxs) (map batch_of (abs_batches ops)) = Ok idxs"
    and "i < length ops \<Longrightarrow> i + v ! i < length (flat segs) \<and> flat segs ! (i + v ! i) = ops ! i"
proof -
  have ok: "list_all ok_seg segs" and raw: "concat (map raw segs) = ops"
    using ok_block_concat [OF abs_batches_ok] abs_batches_raw by (auto simp: segs_def)
  note inv = pads_inverse [OF ok, where k = 0, unfolded raw add_0, folded v_def u_def]
  have lens: "length v = Suc (length ops)" "length u = Suc (length (flat segs))"
    unfolding v_def u_def by (simp_all add: length_pads raw del: length_concat)
  note new = prefix_new [OF abs_batches_ok [of ops], folded segs_def, folded v_def u_def]
  show "adjust_asm_op_indices idxs (map batch_of (abs_batches ops)) = Ok (map (\<lambda>i. i + v ! i) idxs)"
    using assms(1) lens by (simp add: adjust_asm_op_indices_def new adjust_each less_Suc_eq_le)
  have pos: "i + v ! i < length u \<and> u ! (i + v ! i) = v ! i" if "i \<le> length ops" for i
    using inv [OF that] lens by (auto simp: less_Suc_eq_le)
  then have "list_all (\<lambda>i. i < length u \<and> u ! i \<le> i) (map (\<lambda>i. i + v ! i) idxs)"
    "map (\<lambda>i. i - u ! i) (map (\<lambda>i. i + v ! i) idxs) = idxs"
    using assms(1) by (auto simp: list_all_iff map_idI)
  then show "unadjust_asm_op_indices (map (\<lambda>i. i + v ! i) idxs) (map batch_of (abs_batches ops)) = Ok idxs"
    unfolding unadjust_asm_op_indices_def new bindO.simps by (simp only: unadjust_each append_Nil)
  show "i < length ops \<Longrightarrow> i + v ! i < length (flat segs) \<and> flat segs ! (i + v ! i) = ops ! i"
    using inv [of i] by auto
qed

text \<open>C18: The translation of operation indices between a list of operations and its padded block: the padded index of an
  operation leads to that operation in the block, and translating padded indices back gives the indices one started
  from, the end of the block included.\<close>

theorem block_indices:
  assumes "list_all (\<lambda>i. i \<le> length ops) idxs"
  shows "\<exists>batches padded. batch_ops ops = Ok batches \<and> adjust_asm_op_indices idxs batches = Ok padded \<and>
    unadjust_asm_op_indices padded batches = Ok idxs \<and> length padded = length idxs \<and>
    (\<forall>k < length idxs. idxs ! k < length ops \<longrightarrow> fetch (operations batches) (padded ! k) = Ok (ops ! (idxs ! k)))"
proof -
  let ?segs = "concat (abs_batches ops)"
  let ?v = "pads_raw 0 ?segs @ [pads ?segs]"
  show ?thesis
    using adjust_block [OF assms]
    by (intro exI [of _ "map batch_of (abs_batches ops)"] exI [of _ "map (\<lambda>i. i + ?v ! i) idxs"])
      (simp add: batch_ops_abs operations_block fetch_def)
qed

theorem block_indices_witness:
  "\<exists>batches padded. batch_ops [Push 3, Push 4, Add] = Ok batches \<and> adjust_asm_op_indices [0, 2, 3] batches = Ok padded \<and>
    fetch (operations batches) (padded ! 1) = Ok Add"
proof -
  have "list_all (\<lambda>i. i \<le> length [Push 3, Push 4, Add]) [0, 2, 3]" by simp
  from block_indices [OF this] show ?thesis by force
qed

text \<open>C19: The iterator over the operations of a batch and the search for the group of an operation agree: at every
  index of a batch of a block, the iterator yields the operation there with the group and the position in the group
  that the search finds.\<close>

theorem batch_positions:
  assumes "(batch_ops ops :: ('e, op_batch list) outcome) = Ok batches" "b \<in> set batches"
  shows "\<exists>items. (iter_with_groups b :: ('e, _) outcome) = Ok items \<and> length items = length (ob_ops b) \<and>
    (\<forall>k < length (ob_ops b). \<exists>g i. items ! k = (g, i, ob_ops b ! k) \<and>
      (op_idx_in_batch_to_group b k :: ('e, _) outcome) = Ok (Some (g, i)))"
proof -
  have "batches = map batch_of (abs_batches ops)"
    using assms(1) by (simp add: batch_ops_abs)
  then obtain segs where b: "b = batch_of segs" and mem: "segs \<in> set (abs_batches ops)"
    using assms(2) by auto
  then have ok: "list_all ok_seg segs" "width segs \<le> 8"
    using ok_block_batches [OF abs_batches_ok [of ops]] by (auto simp: list_all_iff)
  show ?thesis
    using find_group_batch [OF ok(2)] by (auto simp: b iter_batch [OF ok] length_positions intro!: exI prod_eqI)
qed

theorem batch_positions_witness:
  "\<exists>batches b items. (batch_ops [Push 3, Add] :: (unit, _) outcome) = Ok batches \<and> b \<in> set batches \<and>
    (iter_with_groups b :: (unit, _) outcome) = Ok items \<and> length items = length (ob_ops b)"
proof -
  obtain batches where run: "(batch_ops [Push 3, Add] :: (unit, _) outcome) = Ok batches"
    by (simp add: batch_ops_abs)
  moreover have "batches \<noteq> []"
    using run abs_batches_raw [of "[Push 3, Add]"] by (auto simp: batch_ops_abs)
  ultimately show ?thesis
    using batch_positions [OF run, of "hd batches"] by (intro exI [of _ batches] exI [of _ "hd batches"]) auto
qed

end
