(* ===== verification/Forest.thy ===== *)
theory Forest
  imports Merkle
begin

text \<open>
  The shape of a Merkle mountain range: \<open>crates/crypto/src/merkle/mmr/forest.rs\<close> and
  \<open>inorder.rs\<close>. A forest is its number of leaves; every set bit of that number is one perfect tree,
  larger trees first. The lemmas relate the bit manipulations of the code to the list of trees, each
  with its height and the position of its first leaf.
\<close>

section \<open>Machine integers\<close>

text \<open>The methods of \<open>usize\<close> the code calls: \<open>count_ones\<close>, \<open>ilog2\<close> (which panics on zero) and
  \<open>trailing_zeros\<close>, on a target with 64-bit pointers.\<close>

fun count_ones :: "nat \<Rightarrow> nat" where
  "count_ones n = (if n = 0 then 0 else n mod 2 + count_ones (n div 2))"

declare count_ones.simps [simp del]

definition usize_ilog2 :: "nat \<Rightarrow> ('e, nat) outcome" where
  "usize_ilog2 n = (if n = 0 then Panic else Ok (bit_length n - 1))"

fun zeros_below :: "nat \<Rightarrow> nat" where
  "zeros_below n = (if n = 0 \<or> odd n then 0 else Suc (zeros_below (n div 2)))"

declare zeros_below.simps [simp del]

definition usize_trailing_zeros :: "nat \<Rightarrow> nat" where
  "usize_trailing_zeros n = (if n = 0 then 64 else zeros_below n)"

text \<open>Checked addition and multiplication; \<open>1 << n\<close> panics when \<open>n\<close> is not below the width.\<close>

definition uadd :: "nat \<Rightarrow> nat \<Rightarrow> ('e, nat) outcome" where
  "uadd a b = (if a + b \<le> usize_max then Ok (a + b) else Panic)"

definition umul :: "nat \<Rightarrow> nat \<Rightarrow> ('e, nat) outcome" where
  "umul a b = (if a * b \<le> usize_max then Ok (a * b) else Panic)"

definition one_shl :: "nat \<Rightarrow> ('e, nat) outcome" where
  "one_shl n = (if n < 64 then Ok (2 ^ n) else Panic)"

text \<open>\<open>Result::expect\<close> and \<open>Option::expect\<close>.\<close>

fun expectO :: "('d, 'a) outcome \<Rightarrow> ('e, 'a) outcome" where
  "expectO (Ok x) = Ok x"
| "expectO (Err e) = Panic"
| "expectO Panic = Panic"

definition expect_some :: "'a option \<Rightarrow> ('e, 'a) outcome" where
  "expect_some x = (case x of Some y \<Rightarrow> Ok y | None \<Rightarrow> Panic)"

text \<open>\<open>format!("{}", n)\<close>.\<close>

fun decimal :: "nat \<Rightarrow> string" where
  "decimal n = (if n < 10 then [char_of (48 + n)] else decimal (n div 10) @ [char_of (48 + n mod 10)])"

declare decimal.simps [simp del]

section \<open>Errors\<close>

datatype deserialization_error =
    UnexpectedEOF
  | InvalidValue string
  | UnknownError string

datatype mmr_error =
    PositionNotFound nat
  | InvalidPeaks string
  | ForestOutOfBounds nat nat
  | ForestSizeExceeded nat nat
  | InvalidNodeCount nat nat
  | PeakPathMismatch
  | PeakOutOfBounds nat nat
  | InvalidUpdate
  | UnknownPeak nat
  | InvalidMerklePath merkle_error
  | MerkleRootComputationFailed merkle_error
  | InconsistentPartialMmr string

section \<open>Forests\<close>

text \<open>\<open>struct Forest(usize)\<close>, with the derived order.\<close>

type_synonym forest = nat

definition MAX_LEAVES :: nat where
  "MAX_LEAVES = (if 4294967295 < usize_max div 2 then 4294967295 else usize_max div 2)"

definition is_valid_size :: "nat \<Rightarrow> bool" where
  "is_valid_size num_leaves \<longleftrightarrow> num_leaves \<le> MAX_LEAVES"

definition forest_new :: "nat \<Rightarrow> (deserialization_error, forest) outcome" where
  "forest_new num_leaves =
    (if \<not> is_valid_size num_leaves
     then Err (InvalidValue (''forest size '' @ decimal num_leaves @ '' exceeds maximum '' @ decimal MAX_LEAVES))
     else Ok num_leaves)"

definition with_height :: "nat \<Rightarrow> ('e, forest) outcome" where
  "with_height height = bindO (assertO (height < 64)) (\<lambda>_. expectO (forest_new (2 ^ height)))"

definition append_leaf :: "forest \<Rightarrow> (mmr_error, forest) outcome" where
  "append_leaf f =
    (if f \<ge> MAX_LEAVES then Err (ForestSizeExceeded (saturating_add f 1) MAX_LEAVES) else Ok (f + 1))"

definition num_trees :: "forest \<Rightarrow> nat" where
  "num_trees f = count_ones f"

definition num_nodes :: "forest \<Rightarrow> ('e, nat) outcome" where
  "num_nodes f =
    bindO (assertO (f \<le> MAX_LEAVES)) (\<lambda>_.
      if f \<le> usize_max div 2 then usub (f * 2) (num_trees f)
      else Ok ((f * 2 - num_trees f) mod 2 ^ 64))"

definition largest_tree_height_unchecked :: "forest \<Rightarrow> ('e, nat) outcome" where
  "largest_tree_height_unchecked f = usize_ilog2 f"

definition largest_tree_height :: "forest \<Rightarrow> ('e, nat option) outcome" where
  "largest_tree_height f =
    (if f = 0 then Ok None else bindO (largest_tree_height_unchecked f) (\<lambda>h. Ok (Some h)))"

definition largest_tree_unchecked :: "forest \<Rightarrow> ('e, forest) outcome" where
  "largest_tree_unchecked f = bindO (largest_tree_height_unchecked f) with_height"

definition largest_tree :: "forest \<Rightarrow> ('e, forest) outcome" where
  "largest_tree f = (if f = 0 then Ok 0 else largest_tree_unchecked f)"

definition smallest_tree_height_unchecked :: "forest \<Rightarrow> nat" where
  "smallest_tree_height_unchecked f = usize_trailing_zeros f"

definition smallest_tree_height :: "forest \<Rightarrow> nat option" where
  "smallest_tree_height f = (if f = 0 then None else Some (smallest_tree_height_unchecked f))"

definition smallest_tree_unchecked :: "forest \<Rightarrow> ('e, forest) outcome" where
  "smallest_tree_unchecked f = with_height (smallest_tree_height_unchecked f)"

definition smallest_tree :: "forest \<Rightarrow> ('e, forest) outcome" where
  "smallest_tree f = (if f = 0 then Ok 0 else smallest_tree_unchecked f)"

definition high_bitmask :: "nat \<Rightarrow> nat" where
  "high_bitmask b = (if b > 63 then 0 else take_bit 64 (push_bit b usize_max))"

definition trees_larger_than :: "forest \<Rightarrow> nat \<Rightarrow> ('e, forest) outcome" where
  "trees_larger_than f tree_idx =
    (let mask = high_bitmask (tree_idx + 1) in expectO (forest_new (f AND mask)))"

definition all_smaller_trees_unchecked :: "forest \<Rightarrow> ('e, forest) outcome" where
  "all_smaller_trees_unchecked f =
    bindO (assertO (num_trees f = 1)) (\<lambda>_. bindO (usub f 1) (\<lambda>g. expectO (forest_new g)))"

definition all_smaller_trees :: "forest \<Rightarrow> ('e, forest option) outcome" where
  "all_smaller_trees f =
    (if num_trees f \<noteq> 1 then Ok None
     else bindO (all_smaller_trees_unchecked f) (\<lambda>g. Ok (Some g)))"

definition next_larger_tree :: "forest \<Rightarrow> (mmr_error, forest) outcome" where
  "next_larger_tree f =
    bindO (assertO (num_trees f = 1)) (\<lambda>_.
      let value = saturating_mul f 2 in
      if value > MAX_LEAVES then Err (ForestSizeExceeded value MAX_LEAVES) else Ok value)"

definition has_single_leaf_tree :: "forest \<Rightarrow> bool" where
  "has_single_leaf_tree f \<longleftrightarrow> f AND 1 \<noteq> 0"

definition with_single_leaf :: "forest \<Rightarrow> forest" where
  "with_single_leaf f = f OR 1"

definition without_single_leaf :: "forest \<Rightarrow> forest" where
  "without_single_leaf f = f AND (usize_max - 1)"

text \<open>\<open>self.0 & !other.0\<close>.\<close>

definition without_trees :: "forest \<Rightarrow> forest \<Rightarrow> forest" where
  "without_trees f other = nat (int f AND NOT (int other))"

definition forest_bitand :: "forest \<Rightarrow> forest \<Rightarrow> ('e, forest) outcome" where
  "forest_bitand f g = expectO (forest_new (f AND g))"

definition leaf_to_corresponding_tree :: "forest \<Rightarrow> nat \<Rightarrow> ('e, nat option) outcome" where
  "leaf_to_corresponding_tree f leaf_idx =
    (if leaf_idx \<ge> f then Ok None
     else let before = f AND leaf_idx; after = f XOR before in
       bindO (usize_ilog2 after) (\<lambda>tree_idx. Ok (Some tree_idx)))"

definition leaf_relative_position :: "forest \<Rightarrow> nat \<Rightarrow> ('e, nat option) outcome" where
  "leaf_relative_position f leaf_idx =
    bindO (leaf_to_corresponding_tree f leaf_idx) (\<lambda>tree.
      case tree of
        None \<Rightarrow> Ok None
      | Some tree_idx \<Rightarrow>
          let mask = high_bitmask (tree_idx + 1) in
          bindO (usub leaf_idx (f AND mask)) (\<lambda>pos. Ok (Some pos)))"

definition tree_index :: "forest \<Rightarrow> nat \<Rightarrow> ('e, nat) outcome" where
  "tree_index f leaf_idx =
    bindO (leaf_to_corresponding_tree f leaf_idx) (\<lambda>tree.
    bindO (expect_some tree) (\<lambda>root.
    bindO (expectO (forest_new (2 ^ root - 1))) (\<lambda>smaller_tree_mask.
    bindO (forest_bitand f smaller_tree_mask) (\<lambda>smaller.
      let num_smaller_trees = num_trees smaller in
      bindO (usub (num_trees f) num_smaller_trees) (\<lambda>rest. usub rest 1)))))"

definition largest_tree_from_mask :: "nat \<Rightarrow> ('e, forest) outcome" where
  "largest_tree_from_mask m =
    (if m = 0 then Ok 0
     else bindO (usize_ilog2 m) (\<lambda>b. expectO (forest_new (2 ^ b))))"

definition nodes_from_mask :: "nat \<Rightarrow> ('e, nat) outcome" where
  "nodes_from_mask m = bindO (expectO (forest_new m)) num_nodes"

text \<open>The conversion of a canonical value to \<open>usize\<close> cannot fail on a 64-bit target.\<close>

definition forest_try_from :: "felt \<Rightarrow> (mmr_error, forest) outcome" where
  "forest_try_from value =
    (let value = unat (as_canonical_u64 value) in
     if value > MAX_LEAVES then Err (ForestSizeExceeded value MAX_LEAVES) else Ok value)"

definition felt_from_forest :: "forest \<Rightarrow> felt" where
  "felt_from_forest f = of_nat f"

text \<open>\<open>TreeSizeIterator\<close>: the remaining forest; \<open>next\<close> takes the smallest tree, \<open>next_back\<close> the
  largest.\<close>

definition tree_size_next :: "forest \<Rightarrow> ('e, (forest \<times> forest) option) outcome" where
  "tree_size_next inner =
    bindO (smallest_tree inner) (\<lambda>tree.
      if tree = 0 then Ok None else Ok (Some (tree, without_trees inner tree)))"

definition tree_size_next_back :: "forest \<Rightarrow> ('e, (forest \<times> forest) option) outcome" where
  "tree_size_next_back inner =
    bindO (largest_tree inner) (\<lambda>tree.
      if tree = 0 then Ok None else Ok (Some (tree, without_trees inner tree)))"

section \<open>Logarithms and digit counts\<close>

lemma ilog_bounds: "0 < n \<Longrightarrow> 2 ^ (bit_length n - 1) \<le> n \<and> n < 2 ^ Suc (bit_length n - 1)"
proof -
  assume "0 < n"
  then have "0 < bit_length n"
    by (simp add: less_bit_length)
  then show ?thesis
    using less_bit_length [of "bit_length n - 1" n] bit_length_le [of n "bit_length n"] by simp
qed

lemma ilog_unique: "2 ^ k \<le> n \<Longrightarrow> n < 2 ^ Suc k \<Longrightarrow> bit_length n - 1 = k"
  using less_bit_length [of k n] bit_length_le [of n "Suc k"] by simp

lemma ilog_top: "m < 2 ^ h \<Longrightarrow> bit_length (2 ^ h + m) - 1 = h"
  by (rule ilog_unique) simp_all

lemma ilog_power [simp]: "bit_length (2 ^ h) - Suc 0 = h"
  using ilog_top [of 0 h] by simp

lemma count_ones_0 [simp]: "count_ones 0 = 0"
  by (simp add: count_ones.simps)

lemma count_ones_top: "m < 2 ^ h \<Longrightarrow> count_ones (2 ^ h + m) = Suc (count_ones m)"
proof (induction h arbitrary: m)
  case 0
  then show ?case by (simp add: count_ones.simps [of "Suc 0"])
next
  case (Suc h)
  have "count_ones (2 ^ Suc h + m) = m mod 2 + count_ones (2 ^ h + m div 2)"
    by (subst count_ones.simps) simp
  also have "\<dots> = Suc (m mod 2 + count_ones (m div 2))"
    using Suc.prems by (subst Suc.IH) (simp_all add: less_mult_imp_div_less mult.commute)
  also have "m mod 2 + count_ones (m div 2) = count_ones m"
    by (cases "m = 0") (simp_all add: count_ones.simps [of m])
  finally show ?case .
qed

lemma count_ones_le: "count_ones n \<le> n"
proof (induction n rule: count_ones.induct)
  case (1 n)
  then show ?case
    by (subst count_ones.simps) (auto intro: order_trans [OF add_left_mono])
qed

lemma count_ones_power [simp]: "count_ones (2 ^ h) = 1"
  using count_ones_top [of 0 h] by simp

lemma zeros_below_dvd: "0 < n \<Longrightarrow> 2 ^ k dvd n \<longleftrightarrow> k \<le> zeros_below n"
proof (induction n arbitrary: k rule: zeros_below.induct)
  case (1 n)
  show ?case
  proof (cases "odd n")
    case True
    then have "zeros_below n = 0"
      by (subst zeros_below.simps) simp
    then show ?thesis
      using True by (cases k) (auto dest: dvd_mult_left)
  next
    case False
    then obtain m where m: "n = 2 * m" by blast
    have "zeros_below n = Suc (zeros_below m)"
      using 1(2) False m by (subst zeros_below.simps) simp
    then show ?thesis
      using 1 m by (cases k) simp_all
  qed
qed

lemma zeros_below_power [simp]: "zeros_below (2 ^ h) = h"
proof -
  have "2 ^ k dvd (2 ^ h :: nat) \<longleftrightarrow> k \<le> zeros_below (2 ^ h)" for k
    by (rule zeros_below_dvd) simp
  then have "k \<le> h \<longleftrightarrow> k \<le> zeros_below (2 ^ h)" for k
    by (simp add: power_dvd_imp_le dvd_power_iff_le)
  then show ?thesis
    by (metis le_refl le_antisym)
qed

section \<open>The trees of a forest\<close>

text \<open>The trees of a forest of \<open>n\<close> leaves whose first leaf has position \<open>s\<close>, from the largest: the
  height and the position of the first leaf of each.\<close>

function blocks :: "nat \<Rightarrow> nat \<Rightarrow> (nat \<times> nat) list" where
  "blocks s n =
    (if n = 0 then [] else let h = bit_length n - 1 in (h, s) # blocks (s + 2 ^ h) (n - 2 ^ h))"
  by auto
termination
  by (relation "measure snd") auto

declare blocks.simps [simp del]

lemma blocks_0 [simp]: "blocks s 0 = []"
  by (simp add: blocks.simps)

lemma blocks_top: "m < 2 ^ h \<Longrightarrow> blocks s (2 ^ h + m) = (h, s) # blocks (s + 2 ^ h) m"
  by (subst blocks.simps) (simp add: ilog_top [unfolded One_nat_def] Let_def)

lemma top_exhaust [case_names zero top]:
  fixes n :: nat
  assumes "n = 0 \<Longrightarrow> P" "\<And>h m. n = 2 ^ h + m \<Longrightarrow> m < 2 ^ h \<Longrightarrow> P"
  shows P
proof (cases "n = 0")
  case False
  let ?h = "bit_length n - 1"
  have "2 ^ ?h \<le> n" "n < 2 ^ Suc ?h"
    using ilog_bounds False by blast+
  then show ?thesis
    by (intro assms(2) [of ?h "n - 2 ^ ?h"]) simp_all
qed (rule assms(1))

lemma top_induct [case_names zero top]:
  fixes n :: nat
  assumes "P 0" "\<And>h m. m < 2 ^ h \<Longrightarrow> P m \<Longrightarrow> P (2 ^ h + m)"
  shows "P n"
proof (induction n rule: less_induct)
  case (less n)
  then show ?case
    by (cases n rule: top_exhaust) (simp_all add: assms)
qed

lemma length_blocks: "length (blocks s n) = count_ones n"
  by (induction n arbitrary: s rule: top_induct) (simp_all add: blocks_top count_ones_top)

lemma dvd_room:
  fixes k h m r :: nat
  assumes "2 ^ k dvd m" "m < 2 ^ h" "r < 2 ^ k" "k \<le> h"
  shows "m + r < 2 ^ h"
proof -
  have "(2::nat) ^ k dvd 2 ^ h - m"
    using assms(1,4) by (simp add: le_imp_power_dvd)
  then have "2 ^ k \<le> 2 ^ h - m"
    using assms(2) by (simp add: dvd_imp_le)
  then show ?thesis
    using assms by linarith
qed

lemma blocks_split: "2 ^ k dvd m \<Longrightarrow> r < 2 ^ k \<Longrightarrow> blocks s (m + r) = blocks s m @ blocks (s + m) r"
proof (induction m arbitrary: s rule: top_induct)
  case (top h m)
  have "2 ^ k \<le> 2 ^ h + m"
    using top.prems by (simp add: dvd_imp_le)
  then have "k \<le> h"
    using top.hyps power_increasing [of "Suc h" k "2::nat"] by (cases "k \<le> h") simp_all
  then have m: "2 ^ k dvd m"
    using top.prems(1) by (simp add: le_imp_power_dvd dvd_add_right_iff)
  then have "m + r < 2 ^ h"
    using top.hyps top.prems(2) \<open>k \<le> h\<close> by (intro dvd_room)
  then show ?case
    using top.IH [OF m top.prems(2)] by (simp add: add.assoc blocks_top top.hyps)
qed simp

lemma blocks_power [simp]: "blocks s (2 ^ h) = [(h, s)]"
  using blocks_top [of 0 h s] by simp

lemma blocks_snoc: "2 ^ Suc j dvd m \<Longrightarrow> blocks s (m + 2 ^ j) = blocks s m @ [(j, s + m)]"
  by (simp add: blocks_split [of "Suc j"])

lemma count_ones_split: "2 ^ k dvd m \<Longrightarrow> r < 2 ^ k \<Longrightarrow> count_ones (m + r) = count_ones m + count_ones r"
  using arg_cong [OF blocks_split [of k m r 0], of length] by (simp add: length_blocks)

section \<open>Masks\<close>

lemma without_trees_eq: "without_trees f g = f XOR (f AND g)"
proof -
  have "int f AND NOT (int g) = int (f XOR (f AND g))"
    by (rule bit_eqI) (auto simp: bit_simps)
  then show ?thesis by (simp add: without_trees_def)
qed

lemma bit_without_trees: "bit (without_trees f g) k \<longleftrightarrow> bit f k \<and> \<not> bit g k"
  by (auto simp: without_trees_eq bit_simps)

lemma MAX_LEAVES_eq: "MAX_LEAVES = 2 ^ 32 - 1"
  by (simp add: MAX_LEAVES_def usize_max_def)

lemma low_mask: "(n::nat) AND (2 ^ t - 1) = n mod 2 ^ t"
  by (metis mask_eq_exp_minus_1 take_bit_eq_mask take_bit_eq_mod)

lemma high_mask:
  assumes "n < 2 ^ 64"
  shows "n AND high_bitmask b = n div 2 ^ b * 2 ^ b"
proof (rule bit_eqI)
  fix i
  have max: "usize_max = mask 64"
    by (simp add: usize_max_def mask_eq_exp_minus_1)
  have "bit n i \<Longrightarrow> i < 64"
    using assms by (metis bit_take_bit_iff take_bit_nat_eq_self)
  moreover have "n div 2 ^ b * 2 ^ b = push_bit b (drop_bit b n)"
    by (simp add: push_bit_eq_mult drop_bit_eq_div)
  ultimately show "bit (n AND high_bitmask b) i \<longleftrightarrow> bit (n div 2 ^ b * 2 ^ b) i"
    by (auto simp: high_bitmask_def max bit_simps)
qed

lemma nat_and_le: "(m::nat) AND n \<le> m" "(m::nat) AND n \<le> n"
  by (simp_all add: and_nat_def nat_le_iff)

lemma bit_exp_and: "0 < (n::nat) AND 2 ^ j \<longleftrightarrow> bit n j" "(n::nat) AND 2 ^ j = 0 \<longleftrightarrow> \<not> bit n j"
  using and_exp_eq_0_iff_not_bit [of n j] by auto

section \<open>The tree of a leaf\<close>

lemma bit_ilog: "0 < n \<Longrightarrow> bit n (bit_length n - 1)"
proof -
  assume "0 < n"
  then have "n div 2 ^ (bit_length n - 1) = 1"
    using ilog_bounds [of n] by (intro div_nat_eqI) simp_all
  then show ?thesis
    by (simp add: bit_iff_odd)
qed

lemma not_bit_above_ilog: "bit_length n - 1 < i \<Longrightarrow> \<not> bit (n::nat) i"
proof -
  assume "bit_length n - 1 < i"
  then have "n < 2 ^ i"
    by (simp flip: bit_length_le)
  then show ?thesis
    by (simp add: bit_iff_odd)
qed

text \<open>The highest bit that the forest has and the position has not: above it the two agree.\<close>

lemma owning_tree:
  assumes "p < n"
  defines "t \<equiv> bit_length (n XOR (n AND p)) - 1"
  shows "n XOR (n AND p) \<noteq> 0" "bit n t" "\<not> bit p t" "n div 2 ^ Suc t = p div 2 ^ Suc t"
proof -
  let ?a = "n XOR (n AND p)"
  show a: "?a \<noteq> 0"
  proof
    assume "?a = 0"
    then have "n = n AND p"
      by (metis xor_self_eq xor.right_neutral xor.assoc xor.left_neutral)
    then show False
      using assms(1) nat_and_le(2) [of n p] by simp
  qed
  have bits: "bit ?a i \<longleftrightarrow> bit n i \<and> \<not> bit p i" for i
    by (auto simp: bit_simps)
  show "bit n t" "\<not> bit p t"
    using bit_ilog [of ?a] a bits unfolding t_def by auto
  have "drop_bit (Suc t) n = drop_bit (Suc t) n AND drop_bit (Suc t) p"
    using not_bit_above_ilog [of ?a] bits by (intro bit_eqI) (auto simp: bit_simps t_def)
  then have "n div 2 ^ Suc t \<le> p div 2 ^ Suc t"
    using nat_and_le(2) by (metis drop_bit_eq_div)
  then show "n div 2 ^ Suc t = p div 2 ^ Suc t"
    using assms(1) by (simp add: div_le_mono le_antisym)
qed

lemma mod_Suc_exp: "(n::nat) mod 2 ^ Suc t = of_bool (bit n t) * 2 ^ t + n mod 2 ^ t"
  using take_bit_Suc_from_most [of t n] by (simp add: take_bit_eq_mod)

text \<open>A forest of \<open>n\<close> leaves seen from the tree of height \<open>t\<close>: the leaves before it, its own and the
  leaves after it.\<close>

lemma forest_at:
  assumes "bit (n::nat) t"
  obtains s r where "n = s + 2 ^ t + r" "2 ^ Suc t dvd s" "r < 2 ^ t" "s = n div 2 ^ Suc t * 2 ^ Suc t"
    "r = n mod 2 ^ t"
proof
  have "n = n div 2 ^ Suc t * 2 ^ Suc t + n mod 2 ^ Suc t"
    by (rule div_mult_mod_eq [symmetric])
  then show "n = n div 2 ^ Suc t * 2 ^ Suc t + 2 ^ t + n mod 2 ^ t"
    using mod_Suc_exp [of n t] assms by simp
qed simp_all

lemma blocks_at:
  assumes "2 ^ Suc t dvd s" "r < 2 ^ t"
  shows "blocks 0 (s + 2 ^ t + r) = blocks 0 s @ (t, s) # blocks (s + 2 ^ t) r"
proof -
  have "2 ^ t dvd s + 2 ^ t"
    using assms(1) by (simp add: dvd_mult_right)
  then show ?thesis
    using blocks_split [of t "s + 2 ^ t" r 0] blocks_snoc [OF assms(1), of 0] assms(2) by simp
qed

text \<open>\<open>owner n p t s\<close>: leaf \<open>p\<close> of a forest of \<open>n\<close> leaves lies in the tree of height \<open>t\<close> whose first
  leaf is \<open>s\<close>.\<close>

definition owner :: "nat \<Rightarrow> nat \<Rightarrow> nat \<Rightarrow> nat \<Rightarrow> bool" where
  "owner n p t s \<longleftrightarrow>
    bit n t \<and> s = n div 2 ^ Suc t * 2 ^ Suc t \<and> s \<le> p \<and> p < s + 2 ^ t"

lemma leaf_to_corresponding_tree_None [simp]: "n \<le> p \<Longrightarrow> leaf_to_corresponding_tree n p = Ok None"
  by (simp add: leaf_to_corresponding_tree_def)

lemma leaf_to_corresponding_tree_Some:
  assumes "p < n"
  obtains t s where "leaf_to_corresponding_tree n p = Ok (Some t)" "owner n p t s"
proof -
  let ?t = "bit_length (n XOR (n AND p)) - 1" and ?s = "n div 2 ^ Suc (bit_length (n XOR (n AND p)) - 1)"
  note o = owning_tree [OF assms]
  have "leaf_to_corresponding_tree n p = Ok (Some ?t)"
    using assms o(1) by (simp add: leaf_to_corresponding_tree_def usize_ilog2_def Let_def)
  moreover have "owner n p ?t (?s * 2 ^ Suc ?t)"
  proof -
    have "p mod 2 ^ Suc ?t < 2 ^ ?t"
      using o(3) by (simp only: mod_Suc_exp) simp
    moreover have "p = ?s * 2 ^ Suc ?t + p mod 2 ^ Suc ?t"
      using o(4) by (metis div_mult_mod_eq)
    ultimately show ?thesis
      using o(2) unfolding owner_def by linarith
  qed
  ultimately show ?thesis
    by (rule that)
qed

lemma owner_at:
  assumes "owner n p t s"
  obtains r where "n = s + 2 ^ t + r" "2 ^ Suc t dvd s" "r < 2 ^ t" "r = n mod 2 ^ t"
  using assms forest_at [of n t] unfolding owner_def by metis

lemma owner_start: "owner n p t s \<Longrightarrow> s = p div 2 ^ t * 2 ^ t"
proof -
  assume o: "owner n p t s"
  then obtain q where q: "s = 2 ^ t * q"
    unfolding owner_def by (metis dvd_mult_right dvdE dvd_triv_right power_Suc)
  moreover have "s \<le> p" "p < s + 2 ^ t"
    using o by (simp_all add: owner_def)
  ultimately have "p div 2 ^ t = q"
    by (intro div_nat_eqI) simp_all
  then show ?thesis
    using q by simp
qed

section \<open>Valid forests\<close>

lemma valid_less: "n \<le> MAX_LEAVES \<Longrightarrow> n < 2 ^ 32"
  by (simp add: MAX_LEAVES_eq)

lemma forest_new_Ok [simp]: "n \<le> MAX_LEAVES \<Longrightarrow> forest_new n = Ok n"
  by (simp add: forest_new_def is_valid_size_def)

lemma num_nodes_Ok [simp]: "n \<le> MAX_LEAVES \<Longrightarrow> num_nodes n = Ok (2 * n - count_ones n)"
  using count_ones_le [of n]
  by (simp add: num_nodes_def num_trees_def usub_def MAX_LEAVES_eq usize_max_def mult.commute)

lemma exp_valid: "2 ^ t \<le> n \<Longrightarrow> n \<le> MAX_LEAVES \<Longrightarrow> t < 32"
  using valid_less [of n] by (meson le_less_trans nat_power_less_imp_less zero_less_numeral)

lemma nodes_from_power [simp]: "2 ^ t \<le> MAX_LEAVES \<Longrightarrow> nodes_from_mask (2 ^ t) = Ok (2 * 2 ^ t - 1)"
  by (simp add: nodes_from_mask_def)

lemma largest_tree_top:
  "m < 2 ^ h \<Longrightarrow> 2 ^ h + m \<le> MAX_LEAVES \<Longrightarrow> largest_tree (2 ^ h + m) = Ok (2 ^ h)"
  using exp_valid [of h "2 ^ h + m"]
  by (simp add: largest_tree_def largest_tree_unchecked_def largest_tree_height_unchecked_def
      usize_ilog2_def ilog_top [unfolded One_nat_def] with_height_def)

lemma without_top: "m < 2 ^ h \<Longrightarrow> without_trees (2 ^ h + m) (2 ^ h) = m"
proof -
  assume "m < 2 ^ h"
  then have "2 ^ h + m = 2 ^ h OR m"
    by (intro disjunctive_add) (metis bit_exp_iff bit_take_bit_iff less_irrefl take_bit_nat_eq_self)
  then show ?thesis
    using \<open>m < 2 ^ h\<close>
    by (intro bit_eqI) (metis bit_exp_iff bit_or_iff bit_take_bit_iff bit_without_trees less_irrefl
        take_bit_nat_eq_self)
qed

lemma tree_size_next_back_less: "tree_size_next_back n = Ok (Some (t, m)) \<Longrightarrow> m < n"
proof (cases n rule: top_exhaust)
  case (top h k)
  assume "tree_size_next_back n = Ok (Some (t, m))"
  then have m: "m = without_trees n (2 ^ h)"
    using top(2) unfolding top(1)
    by (auto simp: tree_size_next_back_def outcome_simps largest_tree_def largest_tree_unchecked_def
        largest_tree_height_unchecked_def usize_ilog2_def ilog_top [unfolded One_nat_def] with_height_def
        forest_new_def split: if_splits)
  then show ?thesis
    using without_top [OF top(2)] top by simp
qed (simp add: tree_size_next_back_def largest_tree_def)

text \<open>\<open>TreeSizeIterator::new(f).rev()\<close>, collected: the trees from the largest to the smallest.\<close>

function trees_desc :: "forest \<Rightarrow> ('e, forest list) outcome" where
  "trees_desc inner =
    bindO (tree_size_next_back inner) (\<lambda>item.
      case item of
        None \<Rightarrow> Ok []
      | Some (tree, inner) \<Rightarrow> bindO (trees_desc inner) (\<lambda>trees. Ok (tree # trees)))"
  by pat_completeness auto
termination
  by (relation "measure id") (auto dest: tree_size_next_back_less)

declare trees_desc.simps [simp del]

lemma trees_desc_blocks:
  "n \<le> MAX_LEAVES \<Longrightarrow> trees_desc n = Ok (map (\<lambda>(h, _). 2 ^ h) (blocks s n))"
proof (induction n arbitrary: s rule: top_induct)
  case zero
  show ?case
    by (subst trees_desc.simps) (simp add: tree_size_next_back_def largest_tree_def)
next
  case (top h m)
  then show ?case
    using top.IH [of "s + 2 ^ h"]
    by (subst trees_desc.simps)
      (simp add: tree_size_next_back_def largest_tree_top without_top blocks_top)
qed

lemma owner_room: "owner n p t s \<Longrightarrow> s + 2 ^ t \<le> n"
  by (erule owner_at) (metis le_add1)

lemma owner_less: "owner n p t s \<Longrightarrow> p < n"
  using owner_room [of n p t s] by (simp add: owner_def)

lemma owner_mono:
  assumes "owner n' p t' s'" "owner n p t s" "n' \<le> n"
  shows "t' \<le> t"
proof (rule ccontr)
  assume "\<not> t' \<le> t"
  then have t: "(2::nat) ^ Suc t dvd 2 ^ t'"
    by (intro le_imp_power_dvd) simp
  obtain r where n: "n = s + 2 ^ t + r" "2 ^ Suc t dvd s" "r < 2 ^ t"
    using assms(2) by (rule owner_at)
  obtain r' where n': "n' = s' + 2 ^ t' + r'" "2 ^ Suc t' dvd s'"
    using assms(1) by (rule owner_at)
  have "2 ^ Suc t dvd s'"
    using t dvd_mult_right [of 2 "2 ^ t'" s'] n'(2) by (metis dvd_trans power_Suc)
  then have "2 ^ Suc t dvd s' + 2 ^ t' - s"
    using t n(2) by simp
  moreover have "s < s' + 2 ^ t'"
    using assms(1,2) by (simp add: owner_def)
  ultimately have "s + 2 ^ Suc t \<le> s' + 2 ^ t'"
    using dvd_imp_le [of "2 ^ Suc t" "s' + 2 ^ t' - s"] by linarith
  then show False
    using n(1,3) n'(1) assms(3) by simp
qed

lemma owner_tree:
  assumes "owner n p t s"
  shows "leaf_to_corresponding_tree n p = (Ok (Some t) :: ('e, nat option) outcome)"
proof -
  have "p < n"
    using assms by (rule owner_less)
  then obtain t' s' where t': "leaf_to_corresponding_tree n p = (Ok (Some t') :: ('e, nat option) outcome)"
      "owner n p t' s'"
    by (rule leaf_to_corresponding_tree_Some)
  then show ?thesis
    using owner_mono [OF t'(2) assms] owner_mono [OF assms t'(2)] by simp
qed

lemma owner_exists: "p < n \<Longrightarrow> \<exists>t s. owner n p t s"
  by (rule leaf_to_corresponding_tree_Some) auto

lemma owner_larger:
  assumes "owner n p t s" "n \<le> MAX_LEAVES"
  shows "n AND high_bitmask (Suc t) = s" "trees_larger_than n t = Ok s"
proof -
  have "n < 2 ^ 64"
    using valid_less [OF assms(2)] by simp
  then show *: "n AND high_bitmask (Suc t) = s"
    using high_mask [of n "Suc t"] assms(1) unfolding owner_def by (simp del: power_Suc)
  then show "trees_larger_than n t = Ok s"
    using assms nat_and_le(1) [of n "high_bitmask (Suc t)"] by (simp add: trees_larger_than_def)
qed

lemma owner_relative:
  "owner n p t s \<Longrightarrow> n \<le> MAX_LEAVES \<Longrightarrow> leaf_relative_position n p = Ok (Some (p - s))"
  using owner_larger(1) [of n p t s]
  by (simp add: leaf_relative_position_def owner_tree usub_def owner_def)

lemma owner_exp: "owner n p t s \<Longrightarrow> n \<le> MAX_LEAVES \<Longrightarrow> 2 ^ t \<le> MAX_LEAVES"
  using owner_room [of n p t s] by simp

lemma owner_height: "owner n p t s \<Longrightarrow> n \<le> MAX_LEAVES \<Longrightarrow> t < 32"
  using exp_valid [OF _ order_refl] owner_exp by blast

lemma owner_index:
  assumes "owner n p t s" "n \<le> MAX_LEAVES"
  shows "tree_index n p = Ok (count_ones s)" "count_ones s < count_ones n"
    "blocks 0 n ! count_ones s = (t, s)"
proof -
  obtain r where r: "n = s + 2 ^ t + r" "2 ^ Suc t dvd s" "r < 2 ^ t" "r = n mod 2 ^ t"
    using assms(1) by (rule owner_at)
  note b = blocks_at [OF r(2,3)]
  show "blocks 0 n ! count_ones s = (t, s)"
    unfolding r(1) b by (simp add: nth_append length_blocks)
  have c: "count_ones n = count_ones s + 1 + count_ones r"
    using arg_cong [OF b, of length] by (simp add: r(1) length_blocks)
  then show "count_ones s < count_ones n" by simp
  have "2 ^ t - 1 \<le> MAX_LEAVES" "r \<le> MAX_LEAVES"
    using owner_exp [OF assms] r(1) assms(2) by simp_all
  moreover have "n AND (2 ^ t - 1) = r"
    using r(4) low_mask [of n t] by simp
  ultimately show "tree_index n p = Ok (count_ones s)"
    using c by (simp add: tree_index_def owner_tree [OF assms(1)] expect_some_def forest_bitand_def
        num_trees_def usub_def)
qed

end
