(* ===== verification/Mmr.thy ===== *)
theory Mmr
  imports Forest
begin

text \<open>
  The Merkle mountain range of \<open>crates/crypto/src/merkle/mmr/full.rs\<close>, with its peaks
  (\<open>peaks.rs\<close>) and opening proofs (\<open>proof.rs\<close>): a node buffer in chunks, to which every added leaf
  appends the nodes of the trees it completes. The chunked buffer is shown to be a vector; what the
  operations of the range compute is the subject of \<open>Mmr_Correct\<close>.
\<close>

section \<open>The node store\<close>

definition NODE_CHUNK_CAPACITY :: nat where
  "NODE_CHUNK_CAPACITY = 1024"

text \<open>The chunks are shared by clones and copied before a write; their contents are values.\<close>

record node_store =
  ns_chunks :: "qword list list"

definition node_store_new :: node_store where
  "node_store_new = \<lparr>ns_chunks = []\<rparr>"

definition node_store_len :: "node_store \<Rightarrow> nat" where
  "node_store_len st =
    (if ns_chunks st = [] then 0
     else (length (ns_chunks st) - 1) * NODE_CHUNK_CAPACITY + length (last (ns_chunks st)))"

definition node_store_push :: "node_store \<Rightarrow> qword \<Rightarrow> node_store" where
  "node_store_push st node =
    (let chunks = ns_chunks st in
     if chunks \<noteq> [] \<and> length (last chunks) < NODE_CHUNK_CAPACITY
     then st\<lparr>ns_chunks := butlast chunks @ [last chunks @ [node]]\<rparr>
     else st\<lparr>ns_chunks := chunks @ [[node]]\<rparr>)"

definition node_store_index :: "node_store \<Rightarrow> nat \<Rightarrow> ('e, qword) outcome" where
  "node_store_index st i =
    bindO (fetch (ns_chunks st) (i div NODE_CHUNK_CAPACITY)) (\<lambda>chunk.
      fetch chunk (i mod NODE_CHUNK_CAPACITY))"

definition node_store_from_iter :: "qword list \<Rightarrow> node_store" where
  "node_store_from_iter nodes = fold (\<lambda>node st. node_store_push st node) nodes node_store_new"

text \<open>\<open>MmrNodeIter\<close>: the rest of the current chunk, and the chunks after it.\<close>

record mmr_node_iter =
  it_current :: "qword list"
  it_chunks :: "qword list list"

definition node_store_iter_from :: "node_store \<Rightarrow> nat \<Rightarrow> mmr_node_iter" where
  "node_store_iter_from st start =
    (let first_chunk = start div NODE_CHUNK_CAPACITY; offset = start mod NODE_CHUNK_CAPACITY in
     if first_chunk < length (ns_chunks st)
     then let chunk = ns_chunks st ! first_chunk in
       \<lparr>it_current = drop (min offset (length chunk)) chunk, it_chunks = drop (first_chunk + 1) (ns_chunks st)\<rparr>
     else \<lparr>it_current = [], it_chunks = []\<rparr>)"

definition advance_chunk :: "mmr_node_iter \<Rightarrow> bool \<times> mmr_node_iter" where
  "advance_chunk it =
    (case it_chunks it of
       chunk # rest \<Rightarrow> (True, \<lparr>it_current = chunk, it_chunks = rest\<rparr>)
     | [] \<Rightarrow> (False, it\<lparr>it_current := []\<rparr>))"

lemma advance_chunk_True: "advance_chunk it = (True, it') \<Longrightarrow> length (it_chunks it') < length (it_chunks it)"
  by (auto simp: advance_chunk_def split: list.splits)

function node_iter_next :: "mmr_node_iter \<Rightarrow> qword option \<times> mmr_node_iter" where
  "node_iter_next it =
    (case it_current it of
       node # rest \<Rightarrow> (Some node, it\<lparr>it_current := rest\<rparr>)
     | [] \<Rightarrow> (case advance_chunk it of
         (True, it) \<Rightarrow> node_iter_next it
       | (False, it) \<Rightarrow> (None, it)))"
  by auto
termination
  by (relation "measure (\<lambda>it. length (it_chunks it))") (simp_all add: advance_chunk_True)

declare node_iter_next.simps [simp del]

function node_iter_nth :: "mmr_node_iter \<Rightarrow> nat \<Rightarrow> qword option \<times> mmr_node_iter" where
  "node_iter_nth it n =
    (let len = length (it_current it) in
     if n < len then (Some (it_current it ! n), it\<lparr>it_current := drop (Suc n) (it_current it)\<rparr>)
     else (case advance_chunk it of
         (True, it) \<Rightarrow> node_iter_nth it (n - len)
       | (False, it) \<Rightarrow> (None, it)))"
  by auto
termination
  by (relation "measure (\<lambda>(it, n). length (it_chunks it))") (simp_all add: advance_chunk_True)

declare node_iter_nth.simps [simp del]

definition node_iter_len :: "mmr_node_iter \<Rightarrow> nat" where
  "node_iter_len it =
    length (it_current it) +
    (if it_chunks it = [] then 0
     else (length (it_chunks it) - 1) * NODE_CHUNK_CAPACITY + length (last (it_chunks it)))"

section \<open>Peaks, paths and proofs\<close>

record mmr_peaks =
  mp_forest :: forest
  mp_peaks :: "qword list"

definition mmr_peaks_new :: "forest \<Rightarrow> qword list \<Rightarrow> (mmr_error, mmr_peaks) outcome" where
  "mmr_peaks_new f peaks =
    (if \<not> is_valid_size f then Err (ForestSizeExceeded f MAX_LEAVES)
     else if num_trees f \<noteq> length peaks
     then Err (InvalidPeaks (''number of one bits in leaves is '' @ decimal (num_trees f) @
       '' which does not equal peak length '' @ decimal (length peaks)))
     else Ok \<lparr>mp_forest = f, mp_peaks = peaks\<rparr>)"

definition get_peak :: "mmr_peaks \<Rightarrow> nat \<Rightarrow> (mmr_error, qword) outcome" where
  "get_peak p peak_idx =
    (if peak_idx < length (mp_peaks p) then Ok (mp_peaks p ! peak_idx)
     else Err (PeakOutOfBounds peak_idx (length (mp_peaks p))))"

text \<open>\<open>Word::words_as_elements\<close> and \<open>Vec::resize\<close> (which may also truncate).\<close>

definition words_as_elements :: "qword list \<Rightarrow> felt list" where
  "words_as_elements ws = concat (map into_elements ws)"

definition flatten_and_pad_peaks :: "mmr_peaks \<Rightarrow> felt list" where
  "flatten_and_pad_peaks p =
    (let num_peaks = length (mp_peaks p);
         len = (if num_peaks < 16 then 64
                else if num_peaks mod 2 = 1 then (num_peaks + 1) * 4 else num_peaks * 4);
         elements = words_as_elements (mp_peaks p) in
     take len elements @ replicate (len - length elements) 0)"

definition hash_peaks :: "(hasher_state \<Rightarrow> hasher_state) \<Rightarrow> mmr_peaks \<Rightarrow> qword" where
  "hash_peaks perm p =
    hash_elements perm ([felt_from_forest (mp_forest p), 0, 0, 0] @ flatten_and_pad_peaks p)"

record mmr_path =
  mpath_forest :: forest
  mpath_position :: nat
  mpath_merkle_path :: merkle_path

record mmr_proof =
  mproof_path :: mmr_path
  mproof_leaf :: qword

text \<open>\<open>MerklePath::new\<close>.\<close>

definition merkle_path_new :: "qword list \<Rightarrow> ('e, merkle_path) outcome" where
  "merkle_path_new nodes = bindO (assertO (length nodes \<le> 255)) (\<lambda>_. Ok nodes)"

definition relative_pos :: "mmr_path \<Rightarrow> ('e, nat) outcome" where
  "relative_pos path =
    bindO (leaf_relative_position (mpath_forest path) (mpath_position path)) expect_some"

definition peak_index :: "mmr_path \<Rightarrow> ('e, nat) outcome" where
  "peak_index path = tree_index (mpath_forest path) (mpath_position path)"

definition path_with_forest :: "mmr_path \<Rightarrow> forest \<Rightarrow> (mmr_error, mmr_path) outcome" where
  "path_with_forest path target_forest =
    (if target_forest \<le> mpath_position path then Err (PositionNotFound (mpath_position path))
     else if target_forest > mpath_forest path
     then Err (ForestOutOfBounds target_forest (mpath_forest path))
     else bindO (leaf_to_corresponding_tree target_forest (mpath_position path)) (\<lambda>tree.
       bindO (expect_some tree) (\<lambda>target_path_len.
       bindO (merkle_path_new (take target_path_len (mpath_merkle_path path))) (\<lambda>trimmed_path.
         Ok \<lparr>mpath_forest = target_forest, mpath_position = mpath_position path,
              mpath_merkle_path = trimmed_path\<rparr>))))"

definition proof_with_forest :: "mmr_proof \<Rightarrow> forest \<Rightarrow> (mmr_error, mmr_proof) outcome" where
  "proof_with_forest proof target_forest =
    bindO (path_with_forest (mproof_path proof) target_forest) (\<lambda>adjusted_path.
      Ok \<lparr>mproof_path = adjusted_path, mproof_leaf = mproof_leaf proof\<rparr>)"

definition peaks_verify ::
    "(hasher_state \<Rightarrow> hasher_state) \<Rightarrow> mmr_peaks \<Rightarrow> qword \<Rightarrow> mmr_proof \<Rightarrow> (mmr_error, unit) outcome" where
  "peaks_verify perm p value opening =
    bindO (peak_index (mproof_path opening)) (\<lambda>peak_idx.
    bindO (get_peak p peak_idx) (\<lambda>root.
    bindO (relative_pos (mproof_path opening)) (\<lambda>pos.
      map_err InvalidMerklePath
        (path_verify perm (mpath_merkle_path (mproof_path opening)) (word_of_nat pos) value root))))"

section \<open>The range\<close>

record mmr =
  mmr_forest :: forest
  mmr_nodes :: node_store

definition mmr_new :: mmr where
  "mmr_new = \<lparr>mmr_forest = 0, mmr_nodes = node_store_new\<rparr>"

definition mmr_from_store :: "forest \<Rightarrow> node_store \<Rightarrow> (mmr_error, mmr) outcome" where
  "mmr_from_store f nodes =
    bindO (num_nodes f) (\<lambda>expected.
      if node_store_len nodes \<noteq> expected then Err (InvalidNodeCount expected (node_store_len nodes))
      else Ok \<lparr>mmr_forest = f, mmr_nodes = nodes\<rparr>)"

definition from_nodes_unchecked :: "forest \<Rightarrow> qword list \<Rightarrow> (mmr_error, mmr) outcome" where
  "from_nodes_unchecked f nodes = mmr_from_store f (node_store_from_iter nodes)"

text \<open>The loop of \<open>Mmr::add\<close>: as long as the old forest has a tree of the size reached, it is merged
  with the node on the right. \<open>checked_shl(1)\<close> always returns a value, shifted within the word.\<close>

definition shifts_left :: "nat \<Rightarrow> nat" where
  "shifts_left t = (if t = 0 then 0 else Suc (64 - zeros_below t))"

lemma shifts_left_less:
  fixes left_tree :: nat
  assumes "old AND left_tree \<noteq> 0"
  shows "shifts_left (take_bit 64 (push_bit 1 left_tree)) < shifts_left left_tree"
proof -
  have "left_tree \<noteq> 0"
    using assms by (metis and_zero_eq)
  note assms = assms this
  let ?next = "take_bit 64 (push_bit 1 left_tree)"
  have next_mod: "?next = (2 * left_tree) mod 2 ^ 64"
    by (simp add: take_bit_eq_mod push_bit_eq_mult mult.commute)
  have dvd: "2 ^ Suc (zeros_below left_tree) dvd 2 * left_tree"
    using zeros_below_dvd [of left_tree "zeros_below left_tree"] assms(2) by simp
  show ?thesis
  proof (cases "?next = 0")
    case False
    have less: "zeros_below left_tree < 64"
    proof (rule ccontr)
      assume "\<not> zeros_below left_tree < 64"
      then have "2 ^ 64 dvd 2 * left_tree"
        using dvd by (meson dvd_trans le_SucI le_imp_power_dvd not_less)
      then show False
        using False next_mod by (metis dvd_imp_mod_0)
    qed
    then have "2 ^ Suc (zeros_below left_tree) dvd ?next"
      unfolding next_mod using dvd le_imp_power_dvd [of "Suc (zeros_below left_tree)" 64 "2::nat"]
      by (intro dvd_mod) (simp_all only: Suc_leI)
    then have "Suc (zeros_below left_tree) \<le> zeros_below ?next"
      using False zeros_below_dvd [of ?next] by blast
    then show ?thesis
      using less False assms(2) by (simp add: shifts_left_def)
  qed (simp add: shifts_left_def assms(2))
qed

function mmr_add_loop ::
    "(hasher_state \<Rightarrow> hasher_state) \<Rightarrow> forest \<Rightarrow> node_store \<Rightarrow> nat \<Rightarrow> qword \<Rightarrow> nat
      \<Rightarrow> ('e, node_store) outcome" where
  "mmr_add_loop perm old_forest nodes left_offset right left_tree =
    (if old_forest AND left_tree \<noteq> 0
     then bindO (node_store_index nodes left_offset) (\<lambda>left.
       let right = merge perm left right;
           nodes = node_store_push nodes right in
       bindO (assertO (left_tree \<le> MAX_LEAVES)) (\<lambda>_.
       bindO (umul left_tree 2) (\<lambda>twice. bindO (usub twice 1) (\<lambda>left_nodes.
         mmr_add_loop perm old_forest nodes (left_offset - left_nodes) right
           (take_bit 64 (push_bit 1 left_tree))))))
     else Ok nodes)"
  by auto
termination
  by (relation "measure (\<lambda>(_, _, _, _, _, t). shifts_left t)")
    (simp_all only: in_measure wf_measure prod.case shifts_left_less)

declare mmr_add_loop.simps [simp del]

text \<open>\<open>Mmr::add\<close>. Nothing changes when the forest is full.\<close>

definition mmr_add :: "(hasher_state \<Rightarrow> hasher_state) \<Rightarrow> mmr \<Rightarrow> qword \<Rightarrow> (mmr_error, mmr) outcome" where
  "mmr_add perm m el =
    (let old_forest = mmr_forest m in
     bindO (append_leaf (mmr_forest m)) (\<lambda>f.
       let nodes = node_store_push (mmr_nodes m) el in
       bindO (mmr_add_loop perm old_forest nodes (node_store_len nodes - 2) el 1) (\<lambda>nodes.
         Ok \<lparr>mmr_forest = f, mmr_nodes = nodes\<rparr>)))"

text \<open>The body of the loop of \<open>try_from_iter_with_limit\<close>, and the function. The source of the values
  says at least how many it holds.\<close>

fun add_with_limit ::
    "(hasher_state \<Rightarrow> hasher_state) \<Rightarrow> nat \<Rightarrow> qword \<Rightarrow> mmr \<times> nat \<Rightarrow> (mmr_error, mmr \<times> nat) outcome" where
  "add_with_limit perm max_leaves v (m, count) =
    (let count = count + 1 in
     if count > max_leaves then Err (ForestSizeExceeded count max_leaves)
     else bindO (mmr_add perm m v) (\<lambda>m. Ok (m, count)))"

definition try_from_iter_with_limit ::
    "(hasher_state \<Rightarrow> hasher_state) \<Rightarrow> nat \<Rightarrow> qword list \<Rightarrow> nat \<Rightarrow> (mmr_error, mmr) outcome" where
  "try_from_iter_with_limit perm lower values max_leaves =
    (if lower > max_leaves then Err (ForestSizeExceeded lower max_leaves)
     else bindO (foldO (add_with_limit perm max_leaves) values (mmr_new, 0)) (\<lambda>(m, _). Ok m))"

definition try_from_iter ::
    "(hasher_state \<Rightarrow> hasher_state) \<Rightarrow> nat \<Rightarrow> qword list \<Rightarrow> (mmr_error, mmr) outcome" where
  "try_from_iter perm lower values = try_from_iter_with_limit perm lower values MAX_LEAVES"

text \<open>The peaks, read at the running sums of the sizes of the trees.\<close>

fun read_peaks :: "node_store \<Rightarrow> nat \<Rightarrow> forest list \<Rightarrow> ('e, qword list) outcome" where
  "read_peaks nodes offset [] = Ok []"
| "read_peaks nodes offset (tree # trees) =
    bindO (num_nodes tree) (\<lambda>el.
    let offset = offset + el in
    bindO (usub offset 1) (\<lambda>i. bindO (node_store_index nodes i) (\<lambda>peak.
    bindO (read_peaks nodes offset trees) (\<lambda>peaks. Ok (peak # peaks)))))"

definition peaks_at :: "mmr \<Rightarrow> forest \<Rightarrow> (mmr_error, mmr_peaks) outcome" where
  "peaks_at m f =
    (if f > mmr_forest m then Err (ForestOutOfBounds f (mmr_forest m))
     else bindO (trees_desc f) (\<lambda>trees. bindO (read_peaks (mmr_nodes m) 0 trees) (mmr_peaks_new f)))"

definition mmr_peaks_of :: "mmr \<Rightarrow> ('e, mmr_peaks) outcome" where
  "mmr_peaks_of m = expectO (peaks_at m (mmr_forest m))"

text \<open>The walk of \<open>collect_merkle_path_and_value\<close> from the root of a tree to a leaf. It returns the
  index reached and the siblings, from the root down.\<close>

function collect_walk ::
    "node_store \<Rightarrow> nat \<Rightarrow> nat \<Rightarrow> nat \<Rightarrow> nat \<Rightarrow> qword list \<Rightarrow> ('e, nat \<times> qword list) outcome" where
  "collect_walk nodes index_offset rel forest_target index path =
    (if forest_target > 1
     then let forest_target = drop_bit 1 forest_target in
       bindO (usub index 1) (\<lambda>right_offset.
       bindO (nodes_from_mask forest_target) (\<lambda>n.
       bindO (usub right_offset n) (\<lambda>left_offset.
       let left_or_right = rel AND forest_target in
       if left_or_right \<noteq> 0
       then bindO (node_store_index nodes (index_offset + left_offset)) (\<lambda>sib.
         collect_walk nodes index_offset rel forest_target right_offset (path @ [sib]))
       else bindO (node_store_index nodes (index_offset + right_offset)) (\<lambda>sib.
         collect_walk nodes index_offset rel forest_target left_offset (path @ [sib])))))
     else Ok (index, path))"
  by auto
termination
  by (relation "measure (\<lambda>(_, _, _, forest_target, _). forest_target)") (auto simp: drop_bit_eq_div)

declare collect_walk.simps [simp del]

definition collect_merkle_path_and_value ::
    "mmr \<Rightarrow> nat \<Rightarrow> forest \<Rightarrow> (mmr_error, qword \<times> qword list) outcome" where
  "collect_merkle_path_and_value m leaf_idx f =
    bindO (leaf_to_corresponding_tree f leaf_idx) (\<lambda>tree.
      case tree of
        None \<Rightarrow> Err (PositionNotFound leaf_idx)
      | Some tree_bit \<Rightarrow>
          bindO (trees_larger_than f tree_bit) (\<lambda>forest_before.
          bindO (num_nodes forest_before) (\<lambda>index_offset.
          bindO (usub leaf_idx forest_before) (\<lambda>relative_pos.
          bindO (one_shl tree_bit) (\<lambda>forest_target.
          bindO (nodes_from_mask forest_target) (\<lambda>n. bindO (usub n 1) (\<lambda>index.
          bindO (collect_walk (mmr_nodes m) index_offset relative_pos forest_target index [])
            (\<lambda>(index, path).
          bindO (assertO (length path = tree_bit)) (\<lambda>_.
          bindO (node_store_index (mmr_nodes m) (index_offset + index)) (\<lambda>value.
            Ok (value, rev path)))))))))))"

definition open_at :: "mmr \<Rightarrow> nat \<Rightarrow> forest \<Rightarrow> (mmr_error, mmr_proof) outcome" where
  "open_at m pos f =
    (if f > mmr_forest m then Err (ForestOutOfBounds f (mmr_forest m))
     else bindO (collect_merkle_path_and_value m pos f) (\<lambda>(leaf, path).
       bindO (merkle_path_new path) (\<lambda>path.
         Ok \<lparr>mproof_path = \<lparr>mpath_forest = f, mpath_position = pos, mpath_merkle_path = path\<rparr>,
              mproof_leaf = leaf\<rparr>)))"

definition mmr_open :: "mmr \<Rightarrow> nat \<Rightarrow> (mmr_error, mmr_proof) outcome" where
  "mmr_open m pos = open_at m pos (mmr_forest m)"

definition mmr_get :: "mmr \<Rightarrow> nat \<Rightarrow> (mmr_error, qword) outcome" where
  "mmr_get m pos =
    bindO (collect_merkle_path_and_value m pos (mmr_forest m)) (\<lambda>(value, _). Ok value)"

section \<open>Inner nodes and validation\<close>

text \<open>\<open>MmrNodes\<close>: an iterator over the inner nodes in the order of the buffer. The two assertions in the branch that
  yields a pair of leaves restate the condition of the branch and the bit that was just set, and are left out.\<close>

record mmr_nodes_iter =
  mn_forest :: nat
  mn_last_right :: nat
  mn_index :: nat

definition mmr_inner_nodes :: mmr_nodes_iter where
  "mmr_inner_nodes = \<lparr>mn_forest = 0, mn_last_right = 0, mn_index = 0\<rparr>"

definition mmr_nodes_next ::
    "mmr \<Rightarrow> mmr_nodes_iter \<Rightarrow> ('e, (inner_node \<times> mmr_nodes_iter) option) outcome" where
  "mmr_nodes_next m it =
    bindO (assertO (count_ones (mn_last_right it) \<le> 1)) (\<lambda>_.
    let target = without_single_leaf (mmr_forest m) in
    if mn_forest it < target
    then
      let (forest, last_right, index) =
        (if mn_last_right it = 0 then (mn_forest it OR 1, mn_last_right it OR 1, mn_index it + 2)
         else (mn_forest it, mn_last_right it, mn_index it)) in
      bindO (assertO (forest AND last_right \<noteq> 0)) (\<lambda>_.
      bindO (expectO (forest_new last_right)) (\<lambda>right_tree.
      bindO (num_nodes right_tree) (\<lambda>right_nodes.
      let parent = take_bit 64 (push_bit 1 last_right);
          forest = forest XOR last_right in
      bindO (assertO (forest AND parent \<noteq> 0 \<or> forest AND 1 = 0)) (\<lambda>_.
      let (forest, last_right) =
        (if forest AND parent = 0 then (forest XOR parent, 0) else (forest, parent)) in
      bindO (node_store_index (mmr_nodes m) index) (\<lambda>v.
      bindO (usub index 1) (\<lambda>i. bindO (node_store_index (mmr_nodes m) i) (\<lambda>r.
      bindO (usub i right_nodes) (\<lambda>j. bindO (node_store_index (mmr_nodes m) j) (\<lambda>l.
        Ok (Some (\<lparr>in_value = v, in_left = l, in_right = r\<rparr>,
          \<lparr>mn_forest = forest, mn_last_right = last_right, mn_index = index + 1\<rparr>)))))))))))
    else Ok None)"

lemma node_store_index_chunk:
  "node_store_index st i = Ok e \<Longrightarrow> i < length (ns_chunks st) * NODE_CHUNK_CAPACITY"
  by (auto simp: node_store_index_def outcome_simps fetch_def NODE_CHUNK_CAPACITY_def
      div_less_iff_less_mult split: if_splits)

lemma mmr_nodes_next_index:
  assumes "mmr_nodes_next m it = Ok (Some (n, it'))"
  shows "mn_index it < mn_index it' \<and> mn_index it' \<le> length (ns_chunks (mmr_nodes m)) * NODE_CHUNK_CAPACITY"
  using assms by (auto simp: mmr_nodes_next_def outcome_simps Let_def
      dest!: node_store_index_chunk split: if_splits prod.splits)

text \<open>\<open>inner_nodes().any(...)\<close>: is there an inner node that is not the hash of its children?\<close>

function inner_nodes_any ::
    "(inner_node \<Rightarrow> bool) \<Rightarrow> mmr \<Rightarrow> mmr_nodes_iter \<Rightarrow> ('e, bool) outcome" where
  "inner_nodes_any bad m it =
    bindO (mmr_nodes_next m it) (\<lambda>item.
      case item of
        None \<Rightarrow> Ok False
      | Some (node, it) \<Rightarrow> if bad node then Ok True else inner_nodes_any bad m it)"
  by auto
termination
  by (relation "measure (\<lambda>(_, m, it). length (ns_chunks (mmr_nodes m)) * NODE_CHUNK_CAPACITY - mn_index it)")
    (auto dest: mmr_nodes_next_index intro!: diff_less_mono2)

declare inner_nodes_any.simps [simp del]

text \<open>The error is the printed message of the node count, or the message of the check.\<close>

datatype serialized_parts_error = PartsMmrError mmr_error | InconsistentParent

definition from_serialized_parts ::
    "(hasher_state \<Rightarrow> hasher_state) \<Rightarrow> forest \<Rightarrow> node_store \<Rightarrow> (serialized_parts_error, mmr) outcome" where
  "from_serialized_parts perm f nodes =
    bindO (map_err PartsMmrError (mmr_from_store f nodes)) (\<lambda>m.
    bindO (inner_nodes_any (\<lambda>node. in_value node \<noteq> merge perm (in_left node) (in_right node)) m mmr_inner_nodes)
      (\<lambda>bad. if bad then Err InconsistentParent else Ok m))"

section \<open>The chunked buffer is a vector\<close>

text \<open>What the range asks of its buffer: an append-only vector.\<close>

locale append_vector =
  fixes wf :: "'s \<Rightarrow> bool"
    and elems :: "'s \<Rightarrow> 'a list"
    and push :: "'s \<Rightarrow> 'a \<Rightarrow> 's"
    and len :: "'s \<Rightarrow> nat"
    and get :: "'s \<Rightarrow> nat \<Rightarrow> ('e, 'a) outcome"
  assumes wf_push: "wf v \<Longrightarrow> wf (push v x)"
    and elems_push: "wf v \<Longrightarrow> elems (push v x) = elems v @ [x]"
    and len_elems: "wf v \<Longrightarrow> len v = length (elems v)"
    and get_elems: "wf v \<Longrightarrow> get v i = fetch (elems v) i"
begin

lemma get_Ok: "wf v \<Longrightarrow> i < length (elems v) \<Longrightarrow> get v i = Ok (elems v ! i)"
  by (simp add: get_elems fetch_def)

lemma wf_pushes: "wf v \<Longrightarrow> wf (fold (\<lambda>x v. push v x) xs v)"
  by (induction xs arbitrary: v) (simp_all add: wf_push)

lemma elems_pushes: "wf v \<Longrightarrow> elems (fold (\<lambda>x v. push v x) xs v) = elems v @ xs"
  by (induction xs arbitrary: v) (simp_all add: wf_push elems_push)

end

definition wf_nodes :: "node_store \<Rightarrow> bool" where
  "wf_nodes st \<longleftrightarrow>
    (\<forall>c \<in> set (butlast (ns_chunks st)). length c = NODE_CHUNK_CAPACITY) \<and>
    (ns_chunks st \<noteq> [] \<longrightarrow> 0 < length (last (ns_chunks st)) \<and> length (last (ns_chunks st)) \<le> NODE_CHUNK_CAPACITY)"

definition nodes_of :: "node_store \<Rightarrow> qword list" where
  "nodes_of st = concat (ns_chunks st)"

lemma length_concat_chunks: "\<forall>c \<in> set cs. length c = k \<Longrightarrow> length (concat cs) = length cs * k"
  by (induction cs) simp_all

lemma nth_concat_chunks:
  "\<forall>c \<in> set cs. length c = k \<Longrightarrow> i < length cs * k \<Longrightarrow> concat cs ! i = cs ! (i div k) ! (i mod k)"
proof (induction cs arbitrary: i)
  case (Cons c cs)
  show ?case
  proof (cases "i < k")
    case False
    then have "0 < k"
      using Cons.prems by (cases k) simp_all
    then have "i div k = Suc ((i - k) div k)" "i mod k = (i - k) mod k"
      using False by (simp_all add: le_div_geq le_mod_geq)
    then show ?thesis
      using Cons.IH [of "i - k"] Cons.prems False by (simp add: nth_append)
  qed (use Cons.prems in \<open>simp add: nth_append\<close>)
qed simp

lemma wf_nodes_new [simp]: "wf_nodes node_store_new" "nodes_of node_store_new = []"
  by (simp_all add: wf_nodes_def node_store_new_def nodes_of_def)

lemma node_store_cases [consumes 1]:
  assumes "wf_nodes st"
  obtains (empty) "ns_chunks st = []"
  | (chunks) full l where "ns_chunks st = full @ [l]" "\<forall>c \<in> set full. length c = 1024" "0 < length l" "length l \<le> 1024"
  using assms that
  by (cases "ns_chunks st" rule: rev_cases) (auto simp: wf_nodes_def NODE_CHUNK_CAPACITY_def)

lemma node_store_index_elems:
  assumes "wf_nodes st"
  shows "node_store_index st i = fetch (nodes_of st) i"
  using assms
proof (cases rule: node_store_cases)
  case (chunks full l)
  let ?n = "length full * 1024"
  have len: "length (concat full) = ?n"
    using chunks(2) by (rule length_concat_chunks)
  show ?thesis
  proof (cases "i < ?n")
    case True
    then have "i div 1024 < length full"
      by (simp add: div_less_iff_less_mult)
    then show ?thesis
      using True chunks len nth_concat_chunks [OF chunks(2), of i]
      by (simp add: node_store_index_def nodes_of_def fetch_def NODE_CHUNK_CAPACITY_def nth_append)
  next
    case False
    then obtain j where j: "i = ?n + j"
      using le_Suc_ex [of ?n i] by auto
    show ?thesis
    proof (cases "j < 1024")
      case True
      then have "i div 1024 = length full" "i mod 1024 = j"
        using j by simp_all
      then show ?thesis
        using chunks len j
        by (auto simp: node_store_index_def nodes_of_def fetch_def NODE_CHUNK_CAPACITY_def nth_append)
    next
      case large: False
      then have "\<not> i div 1024 < Suc (length full)"
        using j by (simp add: div_less_iff_less_mult not_less)
      then show ?thesis
        using chunks len j large
        by (simp add: node_store_index_def nodes_of_def fetch_def NODE_CHUNK_CAPACITY_def)
    qed
  qed
qed (simp_all add: node_store_index_def nodes_of_def fetch_def)

lemma node_store_len_elems: "wf_nodes st \<Longrightarrow> node_store_len st = length (nodes_of st)"
  by (erule node_store_cases)
    (simp_all add: node_store_len_def nodes_of_def NODE_CHUNK_CAPACITY_def length_concat_chunks [of _ 1024] del: length_concat)

lemma nodes_of_push: "nodes_of (node_store_push st x) = nodes_of st @ [x]"
  by (cases "ns_chunks st" rule: rev_cases) (simp_all add: node_store_push_def nodes_of_def Let_def)

lemma wf_nodes_push:
  assumes "wf_nodes st"
  shows "wf_nodes (node_store_push st x)"
  using assms
proof (cases rule: node_store_cases)
  case (chunks full l)
  then show ?thesis
    by (simp add: wf_nodes_def node_store_push_def NODE_CHUNK_CAPACITY_def Let_def butlast_append)
qed (simp add: wf_nodes_def node_store_push_def NODE_CHUNK_CAPACITY_def)

interpretation node_vec: append_vector wf_nodes nodes_of node_store_push node_store_len node_store_index
  by unfold_locales (simp_all add: wf_nodes_push nodes_of_push node_store_len_elems node_store_index_elems)

lemma node_store_from_iter_elems:
  "wf_nodes (node_store_from_iter xs)" "nodes_of (node_store_from_iter xs) = xs"
  using node_vec.wf_pushes node_vec.elems_pushes [of node_store_new xs]
  by (simp_all add: node_store_from_iter_def)

section \<open>Iterating over the buffer\<close>

definition iter_rest :: "mmr_node_iter \<Rightarrow> qword list" where
  "iter_rest it = it_current it @ concat (it_chunks it)"

lemma node_iter_next_rest:
  "node_iter_next it = (v, it') \<Longrightarrow>
    v = (if iter_rest it = [] then None else Some (hd (iter_rest it))) \<and> iter_rest it' = tl (iter_rest it)"
proof (induction it arbitrary: v it' rule: node_iter_next.induct)
  case (1 it)
  show ?case
  proof (cases "it_current it = [] \<and> it_chunks it \<noteq> []")
    case True
    then obtain c cs where c: "it_chunks it = c # cs"
      by (cases "it_chunks it") simp_all
    let ?it = "\<lparr>it_current = c, it_chunks = cs\<rparr>"
    have "advance_chunk it = (True, ?it)"
      using c by (simp add: advance_chunk_def)
    moreover from this have "node_iter_next ?it = (v, it')"
      using 1(2) True by (subst (asm) node_iter_next.simps) simp
    ultimately show ?thesis
      using 1(1) [of _ _ v it'] True c by (simp add: iter_rest_def)
  next
    case False
    then show ?thesis
      using 1(2) by (subst (asm) node_iter_next.simps)
        (auto simp: iter_rest_def advance_chunk_def split: list.splits)
  qed
qed

lemma node_iter_nth_rest:
  "node_iter_nth it n = (v, it') \<Longrightarrow>
    v = (if n < length (iter_rest it) then Some (iter_rest it ! n) else None) \<and> iter_rest it' = drop (Suc n) (iter_rest it)"
proof (induction it n arbitrary: v it' rule: node_iter_nth.induct)
  case (1 it n)
  show ?case
  proof (cases "n < length (it_current it)")
    case True
    then show ?thesis
      using 1(2) by (subst (asm) node_iter_nth.simps) (auto simp: iter_rest_def nth_append)
  next
    case False
    show ?thesis
    proof (cases "it_chunks it")
      case Nil
      then show ?thesis
        using 1(2) False
        by (subst (asm) node_iter_nth.simps) (auto simp: iter_rest_def advance_chunk_def)
    next
      case (Cons c cs)
      let ?it = "\<lparr>it_current = c, it_chunks = cs\<rparr>"
      have "node_iter_nth ?it (n - length (it_current it)) = (v, it')"
        using 1(2) False Cons by (subst (asm) node_iter_nth.simps) (simp add: advance_chunk_def)
      moreover have "advance_chunk it = (True, ?it)"
        using Cons by (simp add: advance_chunk_def)
      ultimately show ?thesis
        using 1(1) [OF refl _ _ refl, of ?it v it'] False Cons
        by (simp add: iter_rest_def nth_append Suc_diff_le less_diff_conv2 not_less)
    qed
  qed
qed

lemma node_store_iter_from_rest:
  assumes "wf_nodes st"
  shows "iter_rest (node_store_iter_from st start) = drop start (nodes_of st)"
proof -
  let ?q = "start div 1024" and ?r = "start mod 1024" and ?cs = "ns_chunks st"
  have start: "start = ?q * 1024 + ?r" by simp
  show ?thesis
  proof (cases "?q < length ?cs")
    case True
    have "\<forall>c \<in> set (take ?q ?cs). length c = 1024"
      using assms True by (cases rule: node_store_cases) (auto dest: in_set_takeD)
    then have front: "length (concat (take ?q ?cs)) = ?q * 1024"
      using True length_concat_chunks [of "take ?q ?cs" 1024] by simp
    have "nodes_of st = concat (take ?q ?cs) @ ?cs ! ?q @ concat (drop (Suc ?q) ?cs)"
      using id_take_nth_drop [OF True] unfolding nodes_of_def
      by (metis concat.simps(2) concat_append)
    then have "drop start (nodes_of st) = drop ?r (?cs ! ?q @ concat (drop (Suc ?q) ?cs))"
      using front start by (metis add.commute append_eq_conv_conj drop_drop)
    moreover have "?r < length (?cs ! ?q) \<or> drop (Suc ?q) ?cs = []"
      using assms True by (cases rule: node_store_cases) (auto simp: nth_append less_Suc_eq)
    ultimately show ?thesis
      using True by (auto simp: iter_rest_def node_store_iter_from_def Let_def NODE_CHUNK_CAPACITY_def
          min_def)
  next
    case False
    have "length (nodes_of st) \<le> length ?cs * 1024"
      using assms by (cases rule: node_store_cases)
        (simp_all add: nodes_of_def length_concat_chunks [of _ 1024] del: length_concat)
    also have "\<dots> \<le> start"
      using False by (simp add: not_less less_eq_div_iff_mult_less_eq)
    finally have "length (nodes_of st) \<le> start" .
    then show ?thesis
      using False by (simp add: iter_rest_def node_store_iter_from_def NODE_CHUNK_CAPACITY_def Let_def)
  qed
qed

end
