(* ===== verification/Mmr_Correct.thy ===== *)
theory Mmr_Correct
  imports Mmr
begin

text \<open>
  What a Merkle mountain range stores: for a list of leaves, the perfect trees of its forest in
  postorder, largest first. Adding a leaf, reading peaks, opening a leaf at the current or an earlier
  size, trimming a proof and validating a serialized range are shown against this description.
\<close>

section \<open>Trees over a list of leaves\<close>

text \<open>The root of the tree of height \<open>h\<close> over the leaves from position \<open>s\<close>, and its nodes in
  postorder.\<close>

fun node_val :: "(hasher_state \<Rightarrow> hasher_state) \<Rightarrow> qword list \<Rightarrow> nat \<Rightarrow> nat \<Rightarrow> qword" where
  "node_val perm xs 0 s = xs ! s"
| "node_val perm xs (Suc h) s = merge perm (node_val perm xs h s) (node_val perm xs h (s + 2 ^ h))"

fun postorder :: "(hasher_state \<Rightarrow> hasher_state) \<Rightarrow> qword list \<Rightarrow> nat \<Rightarrow> nat \<Rightarrow> qword list" where
  "postorder perm xs 0 s = [xs ! s]"
| "postorder perm xs (Suc h) s =
    postorder perm xs h s @ postorder perm xs h (s + 2 ^ h) @ [node_val perm xs (Suc h) s]"

definition layout :: "(hasher_state \<Rightarrow> hasher_state) \<Rightarrow> qword list \<Rightarrow> nat \<Rightarrow> nat \<Rightarrow> qword list" where
  "layout perm xs s n = concat (map (\<lambda>(h, s). postorder perm xs h s) (blocks s n))"

definition buffer :: "(hasher_state \<Rightarrow> hasher_state) \<Rightarrow> qword list \<Rightarrow> nat \<Rightarrow> qword list" where
  "buffer perm xs n = layout perm xs 0 n"

definition peaks_spec :: "(hasher_state \<Rightarrow> hasher_state) \<Rightarrow> qword list \<Rightarrow> nat \<Rightarrow> qword list" where
  "peaks_spec perm xs n = map (\<lambda>(h, s). node_val perm xs h s) (blocks 0 n)"

text \<open>The subtree of height \<open>h\<close> that contains leaf \<open>p\<close>, the sibling of that subtree, and the siblings
  on the way from \<open>p\<close> up to height \<open>h\<close>.\<close>

definition block_start :: "nat \<Rightarrow> nat \<Rightarrow> nat" where
  "block_start h p = p div 2 ^ h * 2 ^ h"

definition sibling_start :: "nat \<Rightarrow> nat \<Rightarrow> nat" where
  "sibling_start h p = (p div 2 ^ h XOR 1) * 2 ^ h"

definition auth_path :: "(hasher_state \<Rightarrow> hasher_state) \<Rightarrow> qword list \<Rightarrow> nat \<Rightarrow> nat \<Rightarrow> qword list" where
  "auth_path perm xs h p = map (\<lambda>l. node_val perm xs l (sibling_start l p)) [0..<h]"

definition mmr_holds :: "(hasher_state \<Rightarrow> hasher_state) \<Rightarrow> mmr \<Rightarrow> qword list \<Rightarrow> bool" where
  "mmr_holds perm m xs \<longleftrightarrow>
    mmr_forest m = length xs \<and> length xs \<le> MAX_LEAVES \<and> wf_nodes (mmr_nodes m) \<and>
    nodes_of (mmr_nodes m) = buffer perm xs (length xs)"

lemma length_postorder [simp]: "length (postorder perm xs h s) = 2 * 2 ^ h - 1"
  by (induction h arbitrary: s) (simp_all add: algebra_simps flip: diff_add_assoc2 diff_add_assoc)

lemma postorder_snoc: "\<exists>ys. postorder perm xs h s = ys @ [node_val perm xs h s]"
  by (cases h) auto

lemma index_root:
  assumes "wf_nodes st" "nodes_of st = P @ postorder perm xs h s @ R" "i = length P + (2 * 2 ^ h - 2)"
  shows "node_store_index st i = Ok (node_val perm xs h s)"
proof -
  obtain ys where ys: "postorder perm xs h s = ys @ [node_val perm xs h s]"
    using postorder_snoc by blast
  then have "Suc (length ys) = 2 * 2 ^ h - 1"
    by (metis length_append_singleton length_postorder)
  then have i: "i = length (P @ ys)"
    using assms(3) by simp
  have "nodes_of st = (P @ ys) @ node_val perm xs h s # R"
    using assms(2) ys by simp
  then show ?thesis
    unfolding i using assms(1) by (simp only: node_vec.get_elems fetch_def) (simp add: nth_append)
qed

lemma layout_0 [simp]: "layout perm xs s 0 = []"
  by (simp add: layout_def)

lemma layout_top: "m < 2 ^ h \<Longrightarrow> layout perm xs s (2 ^ h + m) = postorder perm xs h s @ layout perm xs (s + 2 ^ h) m"
  by (simp add: layout_def blocks_top)

lemma length_layout: "length (layout perm xs s n) = 2 * n - count_ones n"
proof (induction n arbitrary: s rule: top_induct)
  case (top h m)
  have "2 * 2 ^ h - 1 + (2 * m - count_ones m) = 2 * (2 ^ h + m) - Suc (count_ones m)"
    using count_ones_le [of m] by (simp add: Suc_leI)
  then show ?case
    using top by (simp add: layout_top count_ones_top)
qed simp

lemma length_buffer: "length (buffer perm xs n) = 2 * n - count_ones n"
  by (simp add: buffer_def length_layout)

lemma buffer_snoc: "2 ^ Suc j dvd m \<Longrightarrow> buffer perm xs (m + 2 ^ j) = buffer perm xs m @ postorder perm xs j m"
  by (simp add: buffer_def layout_def blocks_snoc)

lemma blocks_range: "(h, t) \<in> set (blocks s n) \<Longrightarrow> s \<le> t \<and> t + 2 ^ h \<le> s + n"
proof (induction n arbitrary: s rule: top_induct)
  case (top k m)
  then show ?case
    by (auto simp: blocks_top dest!: top.IH)
qed simp

lemma node_val_append [simp]: "s + 2 ^ h \<le> length xs \<Longrightarrow> node_val perm (xs @ ys) h s = node_val perm xs h s"
  by (induction h arbitrary: s) (simp_all add: nth_append)

lemma postorder_append [simp]:
  "s + 2 ^ h \<le> length xs \<Longrightarrow> postorder perm (xs @ ys) h s = postorder perm xs h s"
proof (induction h arbitrary: s)
  case (Suc h)
  then show ?case
    using node_val_append [of s "Suc h" xs perm ys] by simp
qed (simp add: nth_append)

lemma buffer_append: "n \<le> length xs \<Longrightarrow> buffer perm (xs @ ys) n = buffer perm xs n"
  unfolding buffer_def layout_def
  by (intro arg_cong [where f = concat] map_cong) (auto dest!: blocks_range)

text \<open>The buffer of an earlier forest is a prefix of the buffer of a later one.\<close>

lemma layout_below: "\<exists>ys. postorder perm xs j s = layout perm xs s (2 ^ j - 1) @ ys"
proof (induction j arbitrary: s)
  case (Suc j)
  obtain ys where "postorder perm xs j (s + 2 ^ j) = layout perm xs (s + 2 ^ j) (2 ^ j - 1) @ ys"
    using Suc.IH by blast
  moreover have "2 ^ Suc j - 1 = 2 ^ j + (2 ^ j - (1::nat))"
    by simp
  moreover have "layout perm xs s (2 ^ j + (2 ^ j - 1)) =
      postorder perm xs j s @ layout perm xs (s + 2 ^ j) (2 ^ j - 1)"
    by (rule layout_top) simp
  ultimately show ?case
    by simp
qed simp

lemma lowest_tree:
  assumes "0 < (n::nat)"
  obtains j m where "n = m + 2 ^ j" "2 ^ Suc j dvd m"
proof -
  let ?j = "zeros_below n"
  have "2 ^ ?j dvd n" "\<not> 2 ^ Suc ?j dvd n"
    using zeros_below_dvd [OF assms, of ?j] zeros_below_dvd [OF assms, of "Suc ?j"] by simp_all
  then obtain q where q: "n = 2 ^ ?j * q" "\<not> 2 ^ Suc ?j dvd n"
    by (metis dvdE)
  then have "odd q"
    by (metis dvd_triv_left mult.assoc mult.commute mult_dvd_mono power_Suc evenE dvd_refl)
  then obtain k where "q = 2 * k + 1"
    by (metis oddE)
  then have "n = 2 ^ Suc ?j * k + 2 ^ ?j"
    using q(1) by (simp add: algebra_simps)
  then show ?thesis
    by (rule that) simp
qed

lemma buffer_Suc: "\<exists>ys. buffer perm xs (Suc n) = buffer perm xs n @ ys"
proof -
  obtain j m where jm: "Suc n = m + 2 ^ j" "2 ^ Suc j dvd m"
    by (rule lowest_tree [of "Suc n"]) simp_all
  then have n: "n = m + (2 ^ j - 1)"
    by (metis Nat.add_diff_assoc diff_Suc_1 one_le_numeral one_le_power)
  have "2 ^ j dvd m"
    using jm(2) by (simp add: dvd_mult_right)
  then have "blocks 0 n = blocks 0 m @ blocks m (2 ^ j - 1)"
    unfolding n by (subst blocks_split [of j]) (simp_all add: diff_less)
  then have "buffer perm xs n = buffer perm xs m @ layout perm xs m (2 ^ j - 1)"
    by (simp add: buffer_def layout_def)
  then show ?thesis
    using layout_below [of perm xs j m] jm by (auto simp: buffer_snoc)
qed

lemma buffer_prefix: "f \<le> n \<Longrightarrow> \<exists>ys. buffer perm xs n = buffer perm xs f @ ys"
proof (induction n rule: dec_induct)
  case (step n)
  then show ?case
    using buffer_Suc [of perm xs n] by auto
qed simp

section \<open>Adding a leaf\<close>

lemma pow_half_cases:
  assumes "2 ^ j dvd m" "Suc n = m + 2 ^ j"
  obtains (one) k where "m = k + 2 ^ j" "2 ^ Suc j dvd k" "bit n j"
  | (zero) "2 ^ Suc j dvd m" "\<not> bit n j"
proof -
  obtain q where q: "m = 2 ^ j * q"
    using assms by blast
  have "2 ^ j * q \<le> n" "n < 2 ^ j * Suc q"
    using assms(2) q one_le_power [of "2::nat" j] by (simp_all only: mult_Suc_right) linarith+
  then have "n div 2 ^ j = q"
    by (rule div_nat_eqI)
  then have b: "bit n j \<longleftrightarrow> odd q"
    by (simp only: bit_iff_odd)
  show thesis
  proof (cases "odd q")
    case True
    then obtain k where "q = 2 * k + 1"
      by (metis oddE)
    then show thesis
      using one [of "2 ^ Suc j * k"] b q True by (simp add: algebra_simps)
  next
    case False
    then show thesis
      using zero b q by auto
  qed
qed

lemma add_loop_merges:
  assumes "2 ^ j dvd m" "Suc n = m + 2 ^ j" "n \<le> MAX_LEAVES" "wf_nodes st"
    "nodes_of st = buffer perm xs m @ postorder perm xs j m"
  shows "\<exists>st'. mmr_add_loop perm n st (length (buffer perm xs m) - 1) (node_val perm xs j m) (2 ^ j) =
      (Ok st' :: ('e, node_store) outcome) \<and>
    wf_nodes st' \<and> nodes_of st' = buffer perm xs (Suc n)"
  using assms
proof (induction m arbitrary: j st rule: less_induct)
  case (less m)
  show ?case
    using less.prems(1,2)
  proof (cases rule: pow_half_cases)
    case (one k)
    let ?right = "node_val perm xs (Suc j) k"
    have buf: "buffer perm xs m = buffer perm xs k @ postorder perm xs j k"
      using one by (simp add: buffer_snoc)
    then have len: "length (buffer perm xs m) - 1 = length (buffer perm xs k) + (2 * 2 ^ j - 2)"
      by simp
    then have left: "node_store_index st (length (buffer perm xs m) - 1) =
        (Ok (node_val perm xs j k) :: ('e, qword) outcome)"
      using less.prems(4,5) buf by (intro index_root [where R = "postorder perm xs j m"]) simp_all
    have next_offset: "length (buffer perm xs (k + 2 ^ j)) - 2 ^ j * 2 = length (buffer perm xs k) - 1"
      using buf one(1) by simp
    have "2 ^ j \<le> MAX_LEAVES" "2 ^ j < (2::nat) ^ 32"
      using one(1) less.prems(2,3) valid_less [of n] by linarith+
    moreover from this have "take_bit 64 (push_bit 1 (2 ^ j :: nat)) = 2 ^ Suc j" "2 ^ j * 2 \<le> usize_max"
      by (simp_all add: take_bit_nat_eq_self push_bit_eq_mult usize_max_def)
    ultimately have step: "mmr_add_loop perm n st (length (buffer perm xs m) - 1) (node_val perm xs j m) (2 ^ j) =
        (mmr_add_loop perm n (node_store_push st ?right) (length (buffer perm xs k) - 1) ?right (2 ^ Suc j)
          :: ('e, node_store) outcome)"
      using left one(1,3) by (subst mmr_add_loop.simps) (simp add: bit_exp_and umul_def usub_def Let_def next_offset)
    have "\<exists>st'. mmr_add_loop perm n (node_store_push st ?right) (length (buffer perm xs k) - 1) ?right (2 ^ Suc j)
        = (Ok st' :: ('e, node_store) outcome) \<and> wf_nodes st' \<and> nodes_of st' = buffer perm xs (Suc n)"
      using one less.prems
      by (intro less.IH) (simp_all add: node_vec.wf_push node_vec.elems_push buffer_snoc)
    then show ?thesis
      using step by simp
  next
    case zero
    then show ?thesis
      using less.prems by (subst mmr_add_loop.simps) (simp add: bit_exp_and buffer_snoc)
  qed
qed

lemma mmr_add_holds:
  assumes "mmr_holds perm m xs" "length xs < MAX_LEAVES"
  shows "\<exists>m'. mmr_add perm m x = Ok m' \<and> mmr_holds perm m' (xs @ [x])"
proof -
  let ?n = "length xs" and ?xs = "xs @ [x]"
  let ?st = "node_store_push (mmr_nodes m) x"
  have st: "wf_nodes ?st" "nodes_of ?st = buffer perm ?xs ?n @ postorder perm ?xs 0 ?n"
    using assms by (simp_all add: mmr_holds_def node_vec.wf_push node_vec.elems_push buffer_append)
  then have "node_store_len ?st - 2 = length (buffer perm ?xs ?n) - 1"
    by (simp add: node_vec.len_elems)
  moreover obtain st' where "mmr_add_loop perm ?n ?st (length (buffer perm ?xs ?n) - 1) x 1 =
      (Ok st' :: (mmr_error, node_store) outcome)" "wf_nodes st'" "nodes_of st' = buffer perm ?xs (Suc ?n)"
    using add_loop_merges [of 0 ?n ?n ?st perm ?xs] assms st by auto
  ultimately show ?thesis
    using assms by (simp add: mmr_holds_def mmr_add_def append_leaf_def Let_def)
qed

section \<open>Peaks\<close>

lemma read_peaks_blocks:
  assumes "wf_nodes st" "\<forall>(h, s) \<in> set bs. 2 ^ h \<le> MAX_LEAVES"
    "nodes_of st = P @ concat (map (\<lambda>(h, s). postorder perm xs h s) bs) @ R"
  shows "read_peaks st (length P) (map (\<lambda>(h, _). 2 ^ h) bs) =
    (Ok (map (\<lambda>(h, s). node_val perm xs h s) bs) :: ('e, qword list) outcome)"
  using assms(2,3)
proof (induction bs arbitrary: P)
  case (Cons b bs)
  obtain h s where b: "b = (h, s)" by fastforce
  have "read_peaks st (length (P @ postorder perm xs h s)) (map (\<lambda>(h, _). 2 ^ h) bs) =
      (Ok (map (\<lambda>(h, s). node_val perm xs h s) bs) :: ('e, qword list) outcome)"
    using Cons.prems b by (intro Cons.IH) simp_all
  moreover have "node_store_index st (length P + (2 * 2 ^ h - 2)) =
      (Ok (node_val perm xs h s) :: ('e, qword) outcome)"
    using assms(1) Cons.prems(2) b by (intro index_root) simp_all
  moreover have "length P + (2 * 2 ^ h - 1) - 1 = length P + (2 * 2 ^ h - 2)"
    by simp
  moreover have "1 \<le> length P + (2 * 2 ^ h - 1)"
    using one_le_power [of "2::nat" h] by linarith
  ultimately show ?case
    using Cons.prems(1) b by (simp add: usub_def Let_def)
qed simp

lemma blocks_valid: "n \<le> MAX_LEAVES \<Longrightarrow> \<forall>(h, s) \<in> set (blocks 0 n). 2 ^ h \<le> MAX_LEAVES"
  by (auto dest!: blocks_range)

lemma holds_prefix:
  assumes "mmr_holds perm m xs" "f \<le> length xs"
  obtains ys where "nodes_of (mmr_nodes m) = buffer perm xs f @ ys" "f \<le> MAX_LEAVES" "wf_nodes (mmr_nodes m)"
    "f \<le> mmr_forest m"
  using assms buffer_prefix [OF assms(2), of perm xs] that by (auto simp: mmr_holds_def)

lemma peaks_at_holds:
  assumes "mmr_holds perm m xs" "f \<le> length xs"
  shows "peaks_at m f = Ok \<lparr>mp_forest = f, mp_peaks = peaks_spec perm xs f\<rparr>"
proof -
  obtain ys where m: "nodes_of (mmr_nodes m) = buffer perm xs f @ ys" "f \<le> MAX_LEAVES" "wf_nodes (mmr_nodes m)"
      "f \<le> mmr_forest m"
    using assms by (rule holds_prefix)
  have "read_peaks (mmr_nodes m) 0 (map (\<lambda>(h, _). 2 ^ h) (blocks 0 f)) =
      (Ok (peaks_spec perm xs f) :: (mmr_error, qword list) outcome)"
    using read_peaks_blocks [OF m(3) blocks_valid [OF m(2)], of "[]" perm xs ys] m(1)
    by (simp add: buffer_def layout_def peaks_spec_def)
  then show ?thesis
    using m by (simp add: trees_desc_blocks [OF m(2), of 0] peaks_at_def mmr_peaks_new_def is_valid_size_def num_trees_def peaks_spec_def length_blocks)
qed

section \<open>Authentication paths\<close>

lemma auth_path_Suc:
  "auth_path perm xs (Suc h) p = auth_path perm xs h p @ [node_val perm xs h (sibling_start h p)]"
  by (simp add: auth_path_def)

lemma length_auth_path [simp]: "length (auth_path perm xs h p) = h"
  by (simp add: auth_path_def)

lemma take_auth_path: "k \<le> h \<Longrightarrow> take k (auth_path perm xs h p) = auth_path perm xs k p"
  by (simp add: auth_path_def take_map)

text \<open>The two halves of the subtree of height \<open>h + 1\<close> that contains \<open>p\<close>.\<close>

lemma halves:
  "bit p h \<Longrightarrow> block_start h p = block_start (Suc h) p + 2 ^ h \<and> sibling_start h p = block_start (Suc h) p"
  "\<not> bit p h \<Longrightarrow> block_start h p = block_start (Suc h) p \<and> sibling_start h p = block_start (Suc h) p + 2 ^ h"
proof -
  let ?q = "p div 2 ^ h"
  have s: "block_start (Suc h) p = (?q div 2) * 2 * 2 ^ h"
    unfolding block_start_def by (simp add: div_mult2_eq [of p "2 ^ h" 2, symmetric] mult.commute)
  show "block_start h p = block_start (Suc h) p + 2 ^ h \<and> sibling_start h p = block_start (Suc h) p"
    if b: "bit p h"
  proof -
    obtain k where k: "?q = 2 * k + 1"
      using b by (metis bit_iff_odd oddE)
    show ?thesis
      by (simp only: s block_start_def [of h] sibling_start_def k) (simp add: xor_Suc_0_eq algebra_simps)
  qed
  show "block_start h p = block_start (Suc h) p \<and> sibling_start h p = block_start (Suc h) p + 2 ^ h"
    if b: "\<not> bit p h"
  proof -
    obtain k where k: "?q = 2 * k"
      using b by (metis bit_iff_odd evenE)
    show ?thesis
      by (simp only: s block_start_def [of h] sibling_start_def k) (simp add: xor_Suc_0_eq algebra_simps)
  qed
qed

lemma block_start_0 [simp]: "block_start 0 p = p"
  by (simp add: block_start_def)

lemma block_end_mono: "h \<le> k \<Longrightarrow> block_start h p + 2 ^ h \<le> block_start k p + 2 ^ k"
proof (induction k rule: dec_induct)
  case (step k)
  then show ?case
    using halves [of p k] by (cases "bit p k") simp_all
qed simp

lemma sibling_end: "l < t \<Longrightarrow> sibling_start l p + 2 ^ l \<le> block_start t p + 2 ^ t"
  using halves [of p l] block_end_mono [of "Suc l" t p] by (cases "bit p l") simp_all

lemma fold_auth_path:
  assumes "\<forall>i < h. bit (ni_position idx) i \<longleftrightarrow> bit p i"
  shows "fold_path perm idx (xs ! p) (auth_path perm xs h p) = node_val perm xs h (block_start h p)"
  using assms
proof (induction h)
  case (Suc h)
  have "is_position_odd ((move_up ^^ h) idx) \<longleftrightarrow> bit p h"
    using Suc.prems by (simp add: move_up_odd is_nth_bit_odd_bit)
  then show ?case
    using halves [of p h] Suc
    by (cases "bit p h") (simp_all add: auth_path_Suc fold_path_append build_node_def)
qed (simp add: auth_path_def)

lemma collect_walk_path:
  assumes "wf_nodes st" "nodes_of st = P @ postorder perm xs h s @ R" "off \<le> length P"
    "s = block_start h p" "\<forall>i < h. bit rel i \<longleftrightarrow> bit p i" "2 ^ h \<le> MAX_LEAVES"
  shows "\<exists>i. collect_walk st off rel (2 ^ h) (length P - off + (2 * 2 ^ h - 2)) path =
      (Ok (i, path @ rev (auth_path perm xs h p)) :: ('e, nat \<times> qword list) outcome) \<and>
    node_store_index st (off + i) = (Ok (xs ! p) :: ('e, qword) outcome)"
  using assms(2-)
proof (induction h arbitrary: P R s path)
  case 0
  have "node_store_index st (length P) = (Ok (xs ! p) :: ('e, qword) outcome)"
    using index_root [OF assms(1) 0(1)] 0(3) by simp
  then show ?case
    using 0 by (subst collect_walk.simps) (simp add: auth_path_def)
next
  case (Suc h)
  let ?D = "length P - off" and ?l = "node_val perm xs h s" and ?r = "node_val perm xs h (s + 2 ^ h)"
  let ?P = "P @ postorder perm xs h s"
  define M where "M = 2 * 2 ^ h - (2::nat)"
  have M: "2 * 2 ^ Suc h - 2 = 2 * M + 2" "2 * 2 ^ h - 1 = M + 1"
    using one_le_power [of "2::nat" h] unfolding M_def power_Suc by linarith+
  have size: "nodes_from_mask (2 ^ h) = (Ok (M + 1) :: ('e, nat) outcome)"
    using Suc.prems(5) M(2) by simp
  have left: "node_store_index st (off + (?D + M)) = (Ok ?l :: ('e, qword) outcome)"
    using assms(1) Suc.prems(1,2)
    by (intro index_root [where P = P and R = "postorder perm xs h (s + 2 ^ h) @ [node_val perm xs (Suc h) s] @ R"])
      (simp_all only: M_def [symmetric], simp_all)
  have len: "length ?P = length P + (M + 1)"
    using M(2) by simp
  have right: "node_store_index st (off + (?D + 2 * M + 1)) = (Ok ?r :: ('e, qword) outcome)"
    using assms(1) Suc.prems(1,2)
    by (intro index_root [where P = ?P and R = "[node_val perm xs (Suc h) s] @ R"])
      (simp_all only: len M_def [symmetric], simp_all)
  have "drop_bit (Suc 0) (2 * 2 ^ h) = (2 ^ h :: nat)" "Suc 0 < 2 * 2 ^ h"
    by (simp_all add: drop_bit_eq_div less_le_trans [of _ 2])
  then have step: "collect_walk st off rel (2 ^ Suc h) (?D + (2 * M + 2)) path =
      (if bit p h then collect_walk st off rel (2 ^ h) (?D + 2 * M + 1) (path @ [?l])
       else collect_walk st off rel (2 ^ h) (?D + M) (path @ [?r]) :: ('e, nat \<times> qword list) outcome)"
    using left right size Suc.prems(4)
    by (subst collect_walk.simps) (simp add: usub_def Let_def bit_exp_and add.commute [of M])
  show ?case
  proof (cases "bit p h")
    case True
    have "length ?P - off + (2 * 2 ^ h - 2) = ?D + 2 * M + 1"
      unfolding len M_def [symmetric] using Suc.prems(2) by simp
    then show ?thesis
      using Suc.IH [of ?P "s + 2 ^ h" "[node_val perm xs (Suc h) s] @ R" "path @ [?l]"] Suc.prems step
        halves(1) [OF True] True M(1) by (simp add: auth_path_Suc)
  next
    case False
    show ?thesis
      using Suc.IH [of P s "postorder perm xs h (s + 2 ^ h) @ [node_val perm xs (Suc h) s] @ R" "path @ [?r]"]
        Suc.prems step halves(2) [OF False] False M by (simp add: auth_path_Suc flip: M_def)
  qed
qed

section \<open>Openings\<close>

lemma peak_position:
  assumes "owner f p t s"
  shows "s = block_start t p" "bit (p - s) i \<longleftrightarrow> i < t \<and> bit p i" "p - s < 2 ^ t"
proof -
  show s: "s = block_start t p"
    using owner_start [OF assms] by (simp add: block_start_def)
  have "p - s = take_bit t p"
    by (simp add: s block_start_def take_bit_eq_mod minus_div_mult_eq_mod)
  then show "bit (p - s) i \<longleftrightarrow> i < t \<and> bit p i" "p - s < 2 ^ t"
    by (auto simp: bit_take_bit_iff)
qed

lemma collect_holds:
  assumes "mmr_holds perm m xs" "f \<le> length xs" "owner f p t s"
  shows "collect_merkle_path_and_value m p f = Ok (xs ! p, auth_path perm xs t p)"
proof -
  obtain ys where m: "nodes_of (mmr_nodes m) = buffer perm xs f @ ys" "f \<le> MAX_LEAVES" "wf_nodes (mmr_nodes m)"
    using assms(1,2) by (rule holds_prefix)
  obtain r where r: "f = s + 2 ^ t + r" "2 ^ Suc t dvd s" "r < 2 ^ t"
    using assms(3) by (rule owner_at)
  let ?R = "layout perm xs (s + 2 ^ t) r @ ys" and ?off = "2 * s - count_ones s"
  have nodes: "nodes_of (mmr_nodes m) = buffer perm xs s @ postorder perm xs t s @ ?R"
    using m(1) blocks_at [OF r(2,3)] by (simp add: r(1) buffer_def layout_def)
  have valid: "2 ^ t \<le> MAX_LEAVES" "s \<le> MAX_LEAVES" "t < 64" "s \<le> p"
    using owner_exp [OF assms(3) m(2)] owner_height [OF assms(3) m(2)] m(2) r(1) assms(3)
    by (simp_all add: owner_def)
  have "\<exists>i. collect_walk (mmr_nodes m) ?off (p - s) (2 ^ t) (length (buffer perm xs s) - ?off + (2 * 2 ^ t - 2)) [] =
      (Ok (i, [] @ rev (auth_path perm xs t p)) :: (mmr_error, nat \<times> qword list) outcome) \<and>
    node_store_index (mmr_nodes m) (?off + i) = (Ok (xs ! p) :: (mmr_error, qword) outcome)"
    using peak_position [OF assms(3)] valid m(3) nodes
    by (intro collect_walk_path) (simp_all add: length_buffer)
  then obtain i where "collect_walk (mmr_nodes m) ?off (p - s) (2 ^ t) (2 * 2 ^ t - 2) [] =
      (Ok (i, rev (auth_path perm xs t p)) :: (mmr_error, nat \<times> qword list) outcome)"
    "node_store_index (mmr_nodes m) (?off + i) = (Ok (xs ! p) :: (mmr_error, qword) outcome)"
    by (auto simp: length_buffer)
  moreover have "(2::nat) * 2 ^ t - 1 - 1 = 2 * 2 ^ t - 2" "(1::nat) \<le> 2 * 2 ^ t - 1"
    using one_le_power [of "2::nat" t] by linarith+
  ultimately show ?thesis
    using valid
    by (simp add: collect_merkle_path_and_value_def owner_tree [OF assms(3)] owner_larger(2) [OF assms(3) m(2)]
        usub_def one_shl_def)
qed

definition opening_of :: "(hasher_state \<Rightarrow> hasher_state) \<Rightarrow> qword list \<Rightarrow> nat \<Rightarrow> nat \<Rightarrow> nat \<Rightarrow> mmr_proof" where
  "opening_of perm xs f p t =
    \<lparr>mproof_path = \<lparr>mpath_forest = f, mpath_position = p, mpath_merkle_path = auth_path perm xs t p\<rparr>,
     mproof_leaf = xs ! p\<rparr>"

lemma open_at_holds:
  assumes "mmr_holds perm m xs" "f \<le> length xs" "owner f p t s"
  shows "open_at m p f = Ok (opening_of perm xs f p t)"
proof -
  have "f \<le> MAX_LEAVES" "f \<le> mmr_forest m"
    using assms(1,2) by (simp_all add: mmr_holds_def)
  then show ?thesis
    using collect_holds [OF assms] owner_height [OF assms(3)]
    by (simp add: open_at_def merkle_path_new_def opening_of_def)
qed

text \<open>Verification computes the root of the tree of the leaf from the path, and compares.\<close>

lemma peaks_verify_short:
  assumes "owner f p t s" "f \<le> MAX_LEAVES" "mpath_forest (mproof_path proof) = f"
    "mpath_position (mproof_path proof) = p" "length (mpath_merkle_path (mproof_path proof)) = h" "h \<le> t" "p - s < 2 ^ h"
  shows "peaks_verify perm \<lparr>mp_forest = f, mp_peaks = peaks_spec perm xs f\<rparr> v proof =
    (let root = fold_path perm \<lparr>ni_depth = h, ni_position = word_of_nat (p - s)\<rparr> v (mpath_merkle_path (mproof_path proof)) in
     if root \<noteq> node_val perm xs t s then Err (InvalidMerklePath (ConflictingRoots (node_val perm xs t s) root))
     else Ok ())"
proof -
  have h: "h < 64"
    using owner_height [OF assms(1,2)] assms(6) by simp
  then have "p - s < 2 ^ 64"
    using assms(7) by (meson less_le_trans less_imp_le power_increasing one_le_numeral)
  then have "node_index_new h (word_of_nat (p - s)) =
      Ok \<lparr>ni_depth = h, ni_position = word_of_nat (p - s)\<rparr>"
    using h assms(7) by (simp add: node_index_new_Ok unat_of_nat)
  then have "compute_root perm (mpath_merkle_path (mproof_path proof)) (word_of_nat (p - s)) v =
      Ok (fold_path perm \<lparr>ni_depth = h, ni_position = word_of_nat (p - s)\<rparr> v (mpath_merkle_path (mproof_path proof)))"
    using assms(5) compute_root_valid by blast
  moreover have "peaks_spec perm xs f ! count_ones s = node_val perm xs t s"
    "count_ones s < length (peaks_spec perm xs f)"
    using owner_index [OF assms(1,2)] by (simp_all add: peaks_spec_def length_blocks)
  ultimately show ?thesis
    using assms(3,4)
    by (simp add: owner_index(1) [OF assms(1,2)] owner_relative [OF assms(1,2)] peaks_verify_def
        peak_index_def relative_pos_def get_peak_def expect_some_def path_verify_def Let_def)
qed

lemma peaks_verify_eq:
  assumes "owner f p t s" "f \<le> MAX_LEAVES" "mpath_forest (mproof_path proof) = f"
    "mpath_position (mproof_path proof) = p" "length (mpath_merkle_path (mproof_path proof)) = t"
  shows "peaks_verify perm \<lparr>mp_forest = f, mp_peaks = peaks_spec perm xs f\<rparr> v proof =
    (let root = fold_path perm \<lparr>ni_depth = t, ni_position = word_of_nat (p - s)\<rparr> v (mpath_merkle_path (mproof_path proof)) in
     if root \<noteq> node_val perm xs t s then Err (InvalidMerklePath (ConflictingRoots (node_val perm xs t s) root))
     else Ok ())"
  by (rule peaks_verify_short [OF assms order_refl peak_position(3) [OF assms(1)]])

lemma position_small:
  assumes "owner f p t s" "f \<le> MAX_LEAVES"
  shows "p - s < 2 ^ 64"
  using peak_position(3) [OF assms(1)] owner_height [OF assms] power_increasing [of t 64 "2 :: nat"] by simp

lemma bit_position: "owner f p t s \<Longrightarrow> f \<le> MAX_LEAVES \<Longrightarrow> i < t \<Longrightarrow> bit (word_of_nat (p - s) :: u64) i \<longleftrightarrow> bit p i"
  using owner_height [of f p t s] peak_position(2) [of f p t s i] by (simp add: bit_of_nat_iff)

lemma opening_verifies:
  assumes "owner f p t s" "f \<le> MAX_LEAVES"
  shows "peaks_verify perm \<lparr>mp_forest = f, mp_peaks = peaks_spec perm xs f\<rparr> (xs ! p) (opening_of perm xs f p t) = Ok ()"
proof -
  have "fold_path perm \<lparr>ni_depth = t, ni_position = word_of_nat (p - s)\<rparr> (xs ! p) (auth_path perm xs t p) =
      node_val perm xs t s"
    using bit_position [OF assms] peak_position(1) [OF assms(1)] by (simp add: fold_auth_path)
  then show ?thesis
    by (subst peaks_verify_eq [OF assms]) (simp_all add: opening_of_def)
qed

lemma auth_path_append:
  assumes "owner f p t s" "f \<le> length xs"
  shows "auth_path perm (xs @ ys) t p = auth_path perm xs t p"
proof -
  have "sibling_start l p + 2 ^ l \<le> length xs" if "l < t" for l
    using sibling_end [OF that, of p] owner_room [OF assms(1)] peak_position(1) [OF assms(1)] assms(2) by simp
  then show ?thesis
    by (simp add: auth_path_def)
qed

text \<open>Two paths of the same length that lead from different values to the same root meet: at some level their nodes have
  the same hash and different children.\<close>

definition same_hash :: "(hasher_state \<Rightarrow> hasher_state) \<Rightarrow> inner_node \<Rightarrow> inner_node \<Rightarrow> bool" where
  "same_hash perm a b \<longleftrightarrow>
    (in_left a, in_right a) \<noteq> (in_left b, in_right b) \<and> merge perm (in_left a) (in_right a) = merge perm (in_left b) (in_right b)"

lemma fold_path_binding:
  assumes "length p = length q" "fold_path perm idx v p = fold_path perm idx w q" "v \<noteq> w"
  shows "\<exists>k < length p. same_hash perm (inner_nodes_up perm idx v p ! k) (inner_nodes_up perm idx w q ! k)"
  using assms
proof (induction p q arbitrary: idx v w rule: list_induct2)
  case (Cons x p y q)
  obtain a b c d where ab: "build_node idx v x = (a, b)" "build_node idx w y = (c, d)"
    by (metis surj_pair)
  then have ne: "(a, b) \<noteq> (c, d)"
    using Cons.prems(2) by (auto simp: build_node_def split: if_splits)
  have nodes: "inner_nodes_up perm idx v (x # p) =
      \<lparr>in_value = merge perm a b, in_left = a, in_right = b\<rparr> # inner_nodes_up perm (move_up idx) (merge perm a b) p"
    "inner_nodes_up perm idx w (y # q) =
      \<lparr>in_value = merge perm c d, in_left = c, in_right = d\<rparr> # inner_nodes_up perm (move_up idx) (merge perm c d) q"
    using ab by (simp_all add: build_node_def Let_def)
  show ?case
  proof (cases "merge perm a b = merge perm c d")
    case True
    then show ?thesis
      unfolding nodes using ne by (intro exI [of _ 0]) (simp add: same_hash_def)
  next
    case False
    then show ?thesis
      unfolding nodes using Cons.IH [of "move_up idx" "merge perm a b" "merge perm c d"] Cons.prems(1) ab by fastforce
  qed
qed simp

lemma length_inner_nodes_up: "length (inner_nodes_up perm idx v path) = length path"
  by (induction path arbitrary: idx v) (auto simp: Let_def)

lemma opened_nodes:
  assumes "owner f p t s" "f \<le> MAX_LEAVES" "length path = t"
  shows "authenticated_nodes perm path (word_of_nat (p - s)) v =
    Ok (inner_nodes_up perm \<lparr>ni_depth = t, ni_position = word_of_nat (p - s)\<rparr> v path)"
proof -
  have "t < 64" "p - s < 2 ^ t" "p - s < 2 ^ 64"
    using owner_height [OF assms(1,2)] peak_position [OF assms(1)] position_small [OF assms(1,2)] by simp_all
  then show ?thesis
    using assms(3) by (intro authenticated_nodes_valid) (simp add: node_index_new_Ok unat_of_nat)
qed

text \<open>The part of a path above height \<open>l\<close> leads from the node at that height to the root; the depth of an index
  plays no part in it.\<close>

lemma fold_path_position:
  "ni_position i = ni_position j \<Longrightarrow> fold_path perm i v path = fold_path perm j v path"
proof (induction path arbitrary: i j v)
  case (Cons x path)
  then have "build_node i v x = build_node j v x" "ni_position (move_up i) = ni_position (move_up j)"
    by (simp_all add: build_node_def is_position_odd_def move_up_def)
  from this(1) Cons.IH [OF this(2)] show ?case
    by (simp split: prod.split)
qed simp

lemma fold_upper_path:
  assumes "owner f p t s" "f \<le> MAX_LEAVES" "l \<le> t"
  shows "fold_path perm \<lparr>ni_depth = d, ni_position = word_of_nat ((p - s) div 2 ^ l)\<rparr> (node_val perm xs l (block_start l p))
    (drop l (auth_path perm xs t p)) = node_val perm xs t s"
proof -
  let ?i = "\<lparr>ni_depth = t, ni_position = word_of_nat (p - s)\<rparr>" and ?path = "auth_path perm xs t p"
  have bits: "\<forall>i < t. bit (ni_position ?i) i \<longleftrightarrow> bit p i"
    using bit_position [OF assms(1,2)] by simp
  have low: "fold_path perm ?i (xs ! p) (take l ?path) = node_val perm xs l (block_start l p)"
    using bits assms(3) fold_auth_path [of l ?i p perm xs] by (simp add: take_auth_path)
  have "fold_path perm ?i (xs ! p) (take l ?path @ drop l ?path) = node_val perm xs t s"
    using fold_auth_path [OF bits, of perm xs] peak_position(1) [OF assms(1)] by simp
  then have "fold_path perm ((move_up ^^ l) ?i) (node_val perm xs l (block_start l p)) (drop l ?path) = node_val perm xs t s"
    unfolding fold_path_append low using assms(3) by simp
  moreover have "drop_bit l (word_of_nat (p - s) :: u64) = word_of_nat ((p - s) div 2 ^ l)"
    using position_small [OF assms(1,2)] div_le_dividend [of "p - s" "2 ^ l"]
    by (simp only: word_unat_eq_iff unat_drop_bit_eq) (simp add: unat_of_nat drop_bit_eq_div del: div_le_dividend)
  ultimately show ?thesis
    using fold_path_position [of "(move_up ^^ l) ?i" "\<lparr>ni_depth = d, ni_position = word_of_nat ((p - s) div 2 ^ l)\<rparr>"]
    by (simp add: ni_position_move_up)
qed

lemma mmr_new_holds: "mmr_holds perm mmr_new []"
  by (simp add: mmr_holds_def mmr_new_def buffer_def)

lemma mmr_adds_holds:
  "mmr_holds perm m xs \<Longrightarrow> length xs + length ys \<le> MAX_LEAVES \<Longrightarrow>
    \<exists>m'. foldO (\<lambda>x m. mmr_add perm m x) ys m = Ok m' \<and> mmr_holds perm m' (xs @ ys)"
proof (induction ys arbitrary: m xs)
  case (Cons y ys)
  then obtain m' where "mmr_add perm m y = Ok m'" "mmr_holds perm m' (xs @ [y])"
    using mmr_add_holds [of perm m xs y] by auto
  then show ?case
    using Cons.IH [of m' "xs @ [y]"] Cons.prems(2) by simp
qed simp

lemma mmr_adds_length: "mmr_holds perm m xs \<Longrightarrow> foldO (\<lambda>x m. mmr_add perm m x) ys m = Ok m' \<Longrightarrow>
    length xs + length ys \<le> MAX_LEAVES"
proof (induction ys arbitrary: m xs)
  case (Cons y ys)
  show ?case
  proof (cases "length xs < MAX_LEAVES")
    case True
    then obtain m1 where "mmr_add perm m y = Ok m1" "mmr_holds perm m1 (xs @ [y])"
      using mmr_add_holds [OF Cons.prems(1), of y] by blast
    then show ?thesis
      using Cons.IH [of m1 "xs @ [y]"] Cons.prems(2) by simp
  next
    case False
    then show ?thesis
      using Cons.prems by (simp add: mmr_add_def append_leaf_def mmr_holds_def)
  qed
qed (simp add: mmr_holds_def)

lemma add_values_loop:
  assumes "mmr_holds perm m xs" "length xs \<le> limit" "limit \<le> MAX_LEAVES"
  shows "if length xs + length vs \<le> limit
    then \<exists>m'. foldO (add_with_limit perm limit) vs (m, length xs) = Ok (m', length xs + length vs) \<and>
      mmr_holds perm m' (xs @ vs)
    else foldO (add_with_limit perm limit) vs (m, length xs) = Err (ForestSizeExceeded (limit + 1) limit)"
  using assms(1,2)
proof (induction vs arbitrary: m xs)
  case (Cons v vs)
  show ?case
  proof (cases "length xs < limit")
    case True
    then obtain m1 where "mmr_add perm m v = Ok m1" "mmr_holds perm m1 (xs @ [v])"
      using mmr_add_holds [OF Cons.prems(1)] assms(3) by fastforce
    then show ?thesis
      using Cons.IH [of m1 "xs @ [v]"] True by (simp split: if_splits)
  next
    case False
    then have "length xs = limit"
      using Cons.prems(2) by simp
    then show ?thesis
      by (simp add: Let_def)
  qed
qed simp

text \<open>The example used below: a range of three leaves.\<close>

definition three_leaves :: "qword list" where
  "three_leaves = [QWord 1 0 0 0, QWord 2 0 0 0, QWord 3 0 0 0]"

lemma three_leaves_range:
  obtains m where "foldO (\<lambda>x m. mmr_add perm m x) three_leaves mmr_new = Ok m" "mmr_holds perm m three_leaves"
  using mmr_adds_holds [OF mmr_new_holds, of three_leaves perm]
  by (auto simp: three_leaves_def MAX_LEAVES_eq)

section \<open>Theorems\<close>

text \<open>C27: a Merkle mountain range built by adding leaves one at a time holds, for its list of leaves,
  the perfect trees of the forest in postorder: adding a leaf appends the leaf and the roots of exactly
  the trees it completes, and is rejected, with nothing changed, when the forest is full.\<close>

theorem mmr_add_extends:
  assumes "mmr_holds perm m xs"
  shows "if length xs < MAX_LEAVES then \<exists>m'. mmr_add perm m x = Ok m' \<and> mmr_holds perm m' (xs @ [x])
    else mmr_add perm m x = Err (ForestSizeExceeded (MAX_LEAVES + 1) MAX_LEAVES)"
proof (cases "length xs < MAX_LEAVES")
  case False
  then have "mmr_forest m = MAX_LEAVES"
    using assms by (simp add: mmr_holds_def)
  then show ?thesis
    using False by (simp add: mmr_add_def append_leaf_def saturating_add_def MAX_LEAVES_def usize_max_def)
qed (simp add: mmr_add_holds [OF assms])

theorem mmr_add_extends_witness:
  "\<exists>m'. mmr_add id mmr_new (QWord 1 2 3 4) = Ok m' \<and> mmr_holds id m' [QWord 1 2 3 4]"
  using mmr_add_extends [OF mmr_new_holds, of id "QWord 1 2 3 4"] by (simp add: MAX_LEAVES_def usize_max_def)

text \<open>C28: every leaf can be opened, at the current size of the range and at every earlier one: the
  opening names the leaf that was added at that position, and verifies against the peaks of that
  size.\<close>

theorem mmr_open_verifies:
  assumes "mmr_holds perm m xs" "f \<le> length xs" "p < f"
  shows "\<exists>proof peaks. open_at m p f = Ok proof \<and> peaks_at m f = Ok peaks \<and>
    mproof_leaf proof = xs ! p \<and> peaks_verify perm peaks (xs ! p) proof = Ok ()"
proof -
  obtain t s where o: "owner f p t s"
    using owner_exists [OF assms(3)] by blast
  have f: "f \<le> MAX_LEAVES"
    using assms(1,2) by (simp add: mmr_holds_def)
  show ?thesis
    using opening_verifies [OF o f, of perm xs] open_at_holds [OF assms(1,2) o] peaks_at_holds [OF assms(1,2)] by (simp add: opening_of_def)
qed

theorem mmr_open_verifies_witness:
  "\<exists>m proof peaks. foldO (\<lambda>x m. mmr_add id m x) three_leaves mmr_new = Ok m \<and>
    open_at m 1 2 = Ok proof \<and> peaks_at m 2 = Ok peaks \<and> peaks_verify id peaks (QWord 2 0 0 0) proof = Ok ()"
proof -
  obtain m where m: "foldO (\<lambda>x m. mmr_add id m x) three_leaves mmr_new = Ok m" "mmr_holds id m three_leaves"
    by (rule three_leaves_range)
  show ?thesis
    using mmr_open_verifies [OF m(2), of 2 1] m(1) by (auto simp: three_leaves_def)
qed

text \<open>C29: an opening whose path has the height of the tree of its position is binding: if it verifies
  against the peaks of a range, the value is the leaf at that position, or the opening and the one the range
  itself makes for that position exhibit a collision of the hash: at some level of the two paths the inner nodes
  above the value and above the leaf have the same hash and different children.\<close>

theorem peaks_verify_binding:
  assumes "mmr_holds perm m xs" "peaks_at m f = Ok peaks" "mpath_forest (mproof_path proof) = f"
    "leaf_to_corresponding_tree f (mpath_position (mproof_path proof)) =
      (Ok (Some (length (mpath_merkle_path (mproof_path proof)))) :: (mmr_error, nat option) outcome)"
    "peaks_verify perm peaks v proof = Ok ()"
  shows "v = xs ! mpath_position (mproof_path proof) \<or>
    (\<exists>opening r ns ns' k. open_at m (mpath_position (mproof_path proof)) f = Ok opening \<and>
      leaf_relative_position f (mpath_position (mproof_path proof)) = (Ok (Some r) :: (mmr_error, nat option) outcome) \<and>
      authenticated_nodes perm (mpath_merkle_path (mproof_path proof)) (word_of_nat r) v = Ok ns \<and>
      authenticated_nodes perm (mpath_merkle_path (mproof_path opening)) (word_of_nat r) (mproof_leaf opening) = Ok ns' \<and>
      k < length ns \<and> k < length ns' \<and> same_hash perm (ns ! k) (ns' ! k))"
proof -
  let ?p = "mpath_position (mproof_path proof)" and ?path = "mpath_merkle_path (mproof_path proof)"
  have f: "f \<le> length xs" "f \<le> MAX_LEAVES"
    using assms(1,2) by (auto simp: peaks_at_def mmr_holds_def split: if_splits)
  have "?p < f"
    using assms(4) by (auto simp: leaf_to_corresponding_tree_def not_le split: if_splits)
  then obtain t s where o: "owner f ?p t s"
    using owner_exists by blast
  then have t: "length ?path = t"
    using assms(4) by (simp add: owner_tree)
  let ?idx = "\<lparr>ni_depth = t, ni_position = word_of_nat (?p - s)\<rparr>" and ?honest = "auth_path perm xs t ?p"
  have "peaks = \<lparr>mp_forest = f, mp_peaks = peaks_spec perm xs f\<rparr>"
    using assms(2) peaks_at_holds [OF assms(1) f(1)] by simp
  then have "fold_path perm ?idx v ?path = node_val perm xs t s"
    using assms(3,5) peaks_verify_eq [OF o f(2) assms(3) refl t, of perm xs v]
    by (auto simp: Let_def split: if_splits)
  also have "\<dots> = fold_path perm ?idx (xs ! ?p) ?honest"
    using bit_position [OF o f(2)] peak_position(1) [OF o] by (simp add: fold_auth_path)
  finally have root: "fold_path perm ?idx v ?path = fold_path perm ?idx (xs ! ?p) ?honest" .
  show ?thesis
  proof (cases "v = xs ! ?p")
    case False
    then obtain k where k: "k < t"
        "same_hash perm (inner_nodes_up perm ?idx v ?path ! k) (inner_nodes_up perm ?idx (xs ! ?p) ?honest ! k)"
      using t fold_path_binding [OF _ root False] by auto
    have nodes: "authenticated_nodes perm ?path (word_of_nat (?p - s)) v = Ok (inner_nodes_up perm ?idx v ?path)"
      "authenticated_nodes perm ?honest (word_of_nat (?p - s)) (xs ! ?p) = Ok (inner_nodes_up perm ?idx (xs ! ?p) ?honest)"
      by (rule opened_nodes [OF o f(2) t], rule opened_nodes [OF o f(2) length_auth_path])
    show ?thesis
      using k t nodes open_at_holds [OF assms(1) f(1) o] owner_relative [OF o f(2)]
      by (intro disjI2 exI [of _ "opening_of perm xs f ?p t"] exI [of _ "?p - s"] exI [of _ "inner_nodes_up perm ?idx v ?path"]
          exI [of _ "inner_nodes_up perm ?idx (xs ! ?p) ?honest"] exI [of _ k] conjI)
        (simp_all only: opening_of_def length_inner_nodes_up length_auth_path mmr_proof.simps mmr_path.simps)
  qed simp
qed

theorem peaks_verify_binding_witness:
  "\<exists>m peaks opening ns ns' k. mmr_holds id m three_leaves \<and> peaks_at m 3 = Ok peaks \<and>
    peaks_verify id peaks (QWord 9 0 0 0)
      ((opening_of id three_leaves 3 1 1)\<lparr>mproof_leaf := QWord 9 0 0 0\<rparr>) = Ok () \<and>
    open_at m 1 3 = Ok opening \<and>
    authenticated_nodes id [QWord 1 0 0 0] 1 (QWord 9 0 0 0) = Ok ns \<and>
    authenticated_nodes id (mpath_merkle_path (mproof_path opening)) 1 (mproof_leaf opening) = Ok ns' \<and>
    k < length ns \<and> k < length ns' \<and> same_hash id (ns ! k) (ns' ! k)"
proof -
  let ?forged = "(opening_of id three_leaves 3 1 1)\<lparr>mproof_leaf := QWord 9 0 0 0\<rparr>"
  obtain m where m: "mmr_holds id m three_leaves"
    by (rule three_leaves_range)
  have f: "3 \<le> length three_leaves" "3 \<le> MAX_LEAVES"
    by (simp_all add: three_leaves_def MAX_LEAVES_eq)
  have o: "owner 3 1 1 0"
    by (simp add: owner_def bit_iff_odd)
  have path: "auth_path id three_leaves 1 1 = [QWord 1 0 0 0]"
    by (simp add: auth_path_def sibling_start_def three_leaves_def)
  have "fold_path id \<lparr>ni_depth = 1, ni_position = word_of_nat (1 - 0)\<rparr> (QWord 9 0 0 0) [QWord 1 0 0 0] =
      node_val id three_leaves 1 0"
    by (simp add: three_leaves_def build_node_def is_position_odd_def merge_def digest_of_def)
  then have ver: "peaks_verify id \<lparr>mp_forest = 3, mp_peaks = peaks_spec id three_leaves 3\<rparr> (QWord 9 0 0 0) ?forged = Ok ()"
    using peaks_verify_eq [OF o f(2), of ?forged id three_leaves "QWord 9 0 0 0"] path by (simp add: opening_of_def)
  have tree: "leaf_to_corresponding_tree 3 1 = (Ok (Some 1) :: (mmr_error, nat option) outcome)"
    "leaf_relative_position 3 1 = (Ok (Some 1) :: (mmr_error, nat option) outcome)"
    using owner_tree [OF o] owner_relative [OF o f(2)] by simp_all
  have forged: "mpath_forest (mproof_path ?forged) = 3" "mpath_position (mproof_path ?forged) = 1"
    "mpath_merkle_path (mproof_path ?forged) = [QWord 1 0 0 0]"
    using path by (simp_all add: opening_of_def)
  have "QWord 9 0 0 0 \<noteq> three_leaves ! 1"
    by (simp add: three_leaves_def)
  then obtain pr ns ns' k where "open_at m 1 3 = Ok pr"
      "authenticated_nodes id [QWord 1 0 0 0] 1 (QWord 9 0 0 0) = Ok ns"
      "authenticated_nodes id (mpath_merkle_path (mproof_path pr)) 1 (mproof_leaf pr) = Ok ns'"
      "k < length ns" "k < length ns'" "same_hash id (ns ! k) (ns' ! k)"
    using peaks_verify_binding [OF m peaks_at_holds [OF m f(1)] forged(1) _ ver, unfolded forged] tree by auto
  then show ?thesis
    using m ver peaks_at_holds [OF m f(1)] by blast
qed

text \<open>C31: the range is append-only: whatever leaves are added, the peaks of an earlier size and the
  openings at that size stay the same.\<close>

theorem mmr_history_kept:
  assumes "mmr_holds perm m xs" "foldO (\<lambda>x m. mmr_add perm m x) ys m = Ok m'" "f \<le> length xs"
  shows "peaks_at m' f = peaks_at m f \<and> open_at m' p f = open_at m p f"
proof -
  have m': "mmr_holds perm m' (xs @ ys)"
    using mmr_adds_holds [OF assms(1) mmr_adds_length [OF assms(1,2)]] assms(2) by auto
  have "peaks_spec perm (xs @ ys) f = peaks_spec perm xs f"
    using assms(3) by (auto simp: peaks_spec_def dest!: blocks_range)
  moreover have "open_at m' p f = open_at m p f"
  proof (cases "p < f")
    case True
    then obtain t s where o: "owner f p t s"
      using owner_exists by blast
    have "auth_path perm (xs @ ys) t p = auth_path perm xs t p"
      using o assms(3) by (rule auth_path_append)
    then show ?thesis
      using open_at_holds [OF m' _ o] open_at_holds [OF assms(1,3) o] assms(3) True
      by (simp add: opening_of_def nth_append)
  next
    case False
    then show ?thesis
      using assms(1,3) m' by (simp add: open_at_def collect_merkle_path_and_value_def mmr_holds_def)
  qed
  ultimately show ?thesis
    using peaks_at_holds [OF m', of f] peaks_at_holds [OF assms(1,3)] assms(3) by simp
qed

theorem mmr_history_kept_witness:
  "\<exists>m m'. mmr_holds id m [QWord 1 2 3 4] \<and> mmr_add id m (QWord 5 6 7 8) = Ok m' \<and>
    peaks_at m' 1 = peaks_at m 1 \<and> open_at m' 0 1 = open_at m 0 1"
proof -
  obtain m where m: "mmr_holds id m [QWord 1 2 3 4]"
    using mmr_adds_holds [OF mmr_new_holds, of "[QWord 1 2 3 4]" id] by (auto simp: MAX_LEAVES_eq)
  obtain m' where m': "mmr_add id m (QWord 5 6 7 8) = Ok m'"
    using mmr_add_holds [OF m] by (auto simp: MAX_LEAVES_eq)
  show ?thesis
    using m m' mmr_history_kept [OF m, of "[QWord 5 6 7 8]" m' 1 0] by auto
qed

text \<open>C32: an opening at one size can be trimmed to any smaller size that still has the leaf; the result
  is the opening at that size.\<close>

theorem trimmed_opening:
  assumes "mmr_holds perm m xs" "f \<le> length xs" "open_at m p f = Ok proof" "p < g" "g \<le> f"
  shows "proof_with_forest proof g = open_at m p g"
proof -
  obtain t s where o: "owner f p t s"
    using owner_exists [of p f] assms(4,5) by auto
  obtain t' s' where o': "owner g p t' s'"
    using owner_exists [OF assms(4)] by auto
  have "proof = opening_of perm xs f p t" "open_at m p g = Ok (opening_of perm xs g p t')"
    using open_at_holds [OF assms(1,2) o] open_at_holds [OF assms(1) _ o'] assms(2,3,5) by simp_all
  moreover have "t' \<le> t"
    using owner_mono [OF o' o assms(5)] .
  moreover have "t' \<le> 255"
    using owner_height [OF o'] assms(1,2,5) by (simp add: mmr_holds_def)
  ultimately show ?thesis
    using assms(4,5)
    by (simp add: proof_with_forest_def path_with_forest_def opening_of_def owner_tree [OF o'] expect_some_def
        take_auth_path merkle_path_new_def)
qed

theorem trimmed_opening_witness:
  "\<exists>m proof. mmr_holds id m three_leaves \<and> open_at m 0 3 = Ok proof \<and> proof_with_forest proof 1 = open_at m 0 1"
proof -
  obtain m where m: "mmr_holds id m three_leaves"
    by (rule three_leaves_range)
  obtain t s where o: "owner 3 0 t s"
    using owner_exists [of 0 3] by auto
  have f: "3 \<le> length three_leaves"
    by (simp add: three_leaves_def)
  show ?thesis
    using m trimmed_opening [OF m f open_at_holds [OF m f o], of 1] open_at_holds [OF m f o] by auto
qed

text \<open>C33: a range is built from any list of at most the allowed number of leaves, and from no longer
  one.\<close>

theorem mmr_from_leaves:
  assumes "lower \<le> length vs" "limit \<le> MAX_LEAVES"
  shows "if length vs \<le> limit
    then \<exists>m. try_from_iter_with_limit perm lower vs limit = Ok m \<and> mmr_holds perm m vs
    else \<exists>requested. limit < requested \<and> requested \<le> length vs \<and>
      try_from_iter_with_limit perm lower vs limit = Err (ForestSizeExceeded requested limit)"
  using add_values_loop [of perm mmr_new "[]" limit vs] mmr_new_holds assms
  by (auto simp: try_from_iter_with_limit_def intro: exI [of _ lower] exI [of _ "limit + 1"])

theorem mmr_from_leaves_witness:
  "\<exists>m. try_from_iter_with_limit id 3 three_leaves 3 = Ok m \<and> mmr_holds id m three_leaves"
  using mmr_from_leaves [of 3 three_leaves 3 id] by (simp add: three_leaves_def MAX_LEAVES_eq)

text \<open>C34: the hypothesis on the length of the path in the binding of openings cannot be dropped: verification
  accepts every inner node above a leaf in place of a leaf. The lower part of the path of an opening is cut off, the
  position is moved to the number of the node in its level, counted from the first leaf of the tree, and the node
  that \<open>2 ^ l\<close> leaves hash to then verifies as if it were the leaf at that position.\<close>

theorem inner_node_accepted:
  assumes "mmr_holds perm m xs" "peaks_at m f = Ok peaks" "open_at m p f = Ok opening"
    "leaf_relative_position f p = (Ok (Some r) :: (mmr_error, nat option) outcome)"
    "l \<le> length (mpath_merkle_path (mproof_path opening))"
  shows "peaks_verify perm peaks (node_val perm xs l (p div 2 ^ l * 2 ^ l))
    \<lparr>mproof_path = \<lparr>mpath_forest = f, mpath_position = p - r + r div 2 ^ l,
       mpath_merkle_path = drop l (mpath_merkle_path (mproof_path opening))\<rparr>, mproof_leaf = leaf\<rparr> = Ok ()"
proof -
  have f: "f \<le> length xs" "f \<le> MAX_LEAVES"
    using assms(1,2) by (auto simp: peaks_at_def mmr_holds_def split: if_splits)
  have "p < f"
    using assms(4) by (auto simp: leaf_relative_position_def leaf_to_corresponding_tree_def not_le split: if_splits)
  then obtain t s where o: "owner f p t s"
    using owner_exists by blast
  have "leaf_relative_position f p = (Ok (Some (p - s)) :: (mmr_error, nat option) outcome)"
    "opening = opening_of perm xs f p t"
    using owner_relative [OF o f(2)] open_at_holds [OF assms(1) f(1) o] assms(3) by simp_all
  then have r: "r = p - s" and path: "mpath_merkle_path (mproof_path opening) = auth_path perm xs t p"
    using assms(4) by (simp_all add: opening_of_def)
  then have l: "l \<le> t" using assms(5) by simp
  have s: "s \<le> p" "r < 2 ^ t"
    using o peak_position(3) [OF o] r by (simp_all add: owner_def)
  let ?q = "r div 2 ^ l"
  have q: "?q < 2 ^ (t - l)"
    using s(2) l by (simp add: less_mult_imp_div_less flip: power_add)
  have "?q < 2 ^ t"
    using s(2) div_le_dividend [of r "2 ^ l"] by (rule le_less_trans [rotated])
  then have o': "owner f (s + ?q) t s"
    using o by (simp add: owner_def)
  have "fold_path perm \<lparr>ni_depth = t - l, ni_position = word_of_nat ?q\<rparr> (node_val perm xs l (block_start l p))
      (drop l (auth_path perm xs t p)) = node_val perm xs t s"
    using fold_upper_path [OF o f(2) l] r by simp
  moreover have "peaks = \<lparr>mp_forest = f, mp_peaks = peaks_spec perm xs f\<rparr>"
    using assms(2) peaks_at_holds [OF assms(1) f(1)] by simp
  moreover have "p - r + ?q = s + ?q"
    using s(1) r by simp
  ultimately show ?thesis
    using peaks_verify_short [OF o' f(2), where h = "t - l"] q path
    by (simp add: block_start_def)
qed

theorem inner_node_accepted_witness:
  "\<exists>m peaks. mmr_holds id m [QWord 1 0 0 0, QWord 2 0 0 0, QWord 3 0 0 0, QWord 4 0 0 0] \<and> peaks_at m 4 = Ok peaks \<and>
    peaks_verify id peaks (merge id (QWord 3 0 0 0) (QWord 4 0 0 0))
      \<lparr>mproof_path = \<lparr>mpath_forest = 4, mpath_position = 1,
         mpath_merkle_path = [merge id (QWord 1 0 0 0) (QWord 2 0 0 0)]\<rparr>, mproof_leaf = QWord 2 0 0 0\<rparr> = Ok ()"
proof -
  let ?xs = "[QWord 1 0 0 0, QWord 2 0 0 0, QWord 3 0 0 0, QWord 4 0 0 0]"
  obtain m where m: "mmr_holds id m ?xs"
    using mmr_adds_holds [OF mmr_new_holds, of ?xs id] by (auto simp: MAX_LEAVES_eq)
  have o: "owner 4 3 2 0" and f: "4 \<le> length ?xs" "4 \<le> MAX_LEAVES"
    by (simp_all add: owner_def bit_iff_odd MAX_LEAVES_eq)
  have path: "auth_path id ?xs 2 3 = [QWord 3 0 0 0, merge id (QWord 1 0 0 0) (QWord 2 0 0 0)]"
    by (simp add: auth_path_def sibling_start_def upt_rec)
  have nodes: "node_val id ?xs 1 (3 div 2 ^ 1 * 2 ^ 1) = merge id (QWord 3 0 0 0) (QWord 4 0 0 0)"
    "mpath_merkle_path (mproof_path (opening_of id ?xs 4 3 2)) = [QWord 3 0 0 0, merge id (QWord 1 0 0 0) (QWord 2 0 0 0)]"
    "(3 :: nat) - (3 - 0) + (3 - 0) div 2 ^ 1 = 1"
    using path by (simp_all add: opening_of_def)
  note accepted = inner_node_accepted [OF m peaks_at_holds [OF m f(1)] open_at_holds [OF m f(1) o]
      owner_relative [OF o f(2)], of 1 "QWord 2 0 0 0", unfolded nodes]
  show ?thesis
    using m peaks_at_holds [OF m f(1)] accepted by (intro exI conjI) simp_all
qed

end
