(* ===== verification/Mmr_Valid.thy ===== *)
theory Mmr_Valid
  imports Mmr_Correct
begin

text \<open>
  Validation of a serialized range: the iterator over the inner nodes visits every inner node of
  the buffer with its two children, so that a node buffer accepted by \<open>from_serialized_parts\<close> is the
  buffer of some list of leaves, and every such buffer is accepted.
\<close>

section \<open>Single bits\<close>

lemma xor_exp_clear: "\<not> bit (k::nat) j \<Longrightarrow> k XOR 2 ^ j = k + 2 ^ j"
proof -
  assume k: "\<not> bit k j"
  then have "k + 2 ^ j = k OR 2 ^ j"
    by (intro disjunctive_add) (auto simp: bit_exp_iff)
  also have "\<dots> = k XOR 2 ^ j"
    using k by (intro bit_eqI) (auto simp: bit_simps)
  finally show ?thesis by simp
qed

lemma xor_exp_set: "\<not> bit (k::nat) j \<Longrightarrow> (k + 2 ^ j) XOR 2 ^ j = k"
  by (simp add: xor.assoc flip: xor_exp_clear)

lemma not_bit_dvd: "2 ^ Suc j dvd (k::nat) \<Longrightarrow> \<not> bit k j"
  by (auto simp: bit_iff_odd elim!: dvdE)

lemma bit_dvd_add: "2 ^ Suc j dvd (k::nat) \<Longrightarrow> bit (k + 2 ^ j) j"
  using xor_exp_clear [of k j] not_bit_dvd [of j k] by (metis bit_exp_iff bit_xor_iff possible_bit_nat)

lemma set_bit_dvd:
  assumes "bit (k::nat) h" "2 ^ h dvd k"
  obtains k' where "k = k' + 2 ^ h" "2 ^ Suc h dvd k'"
proof -
  obtain s r where r: "k = s + 2 ^ h + r" "2 ^ Suc h dvd s" "r = k mod 2 ^ h"
    using assms(1) by (rule forest_at)
  have "r = 0"
    unfolding r(3) using assms(2) by (rule dvd_imp_mod_0)
  then show thesis
    using r(1,2) by (intro that [of s]) simp_all
qed

lemma clear_bit_dvd: "\<not> bit (k::nat) h \<Longrightarrow> 2 ^ h dvd k \<Longrightarrow> 2 ^ Suc h dvd k"
  using mod_Suc_exp [of k h] by (simp add: dvd_eq_mod_eq_0 del: power_Suc)

lemma even_or_one: "even (L::nat) \<Longrightarrow> L OR 1 = L + 1"
  by (simp add: or_Suc_0_eq)

lemma target_even: "n \<le> MAX_LEAVES \<Longrightarrow> without_single_leaf n = n - n mod 2"
proof -
  assume "n \<le> MAX_LEAVES"
  then have n: "n < 2 ^ 64"
    using valid_less [of n] by simp
  have "usize_max - 1 = high_bitmask 1"
    by (simp add: usize_max_def high_bitmask_def take_bit_eq_mod push_bit_eq_mult)
  then show ?thesis
    using high_mask [OF n, of 1] by (simp add: without_single_leaf_def minus_mod_eq_div_mult)
qed

section \<open>One inner node\<close>

text \<open>The parent of two subtrees of height \<open>j\<close>: the left one starts at leaf \<open>k\<close>. \<open>nodes_visited\<close> is
  the buffer up to and including the right subtree.\<close>

lemma next_parent:
  fixes m :: mmr
  assumes "wf_nodes (mmr_nodes m)" "2 ^ Suc j dvd k" "k + 2 * 2 ^ j \<le> n - n mod 2" "mmr_forest m = n"
    "n \<le> MAX_LEAVES"
    "mn_forest it < n - n mod 2"
    "(if mn_last_right it = 0 then (mn_forest it OR 1, mn_last_right it OR 1, mn_index it + 2)
      else (mn_forest it, mn_last_right it, mn_index it)) = (k + 2 ^ j, 2 ^ j, i)"
    "count_ones (mn_last_right it) \<le> 1"
    "nodes_of (mmr_nodes m) = P @ postorder perm xs j k @ postorder perm xs j (k + 2 ^ j) @ v # R"
    "i = length P + 2 * (2 * 2 ^ j - 1)"
  shows "mmr_nodes_next m it =
    (Ok (Some (\<lparr>in_value = v, in_left = node_val perm xs j k, in_right = node_val perm xs j (k + 2 ^ j)\<rparr>,
      if bit k (Suc j) then \<lparr>mn_forest = k, mn_last_right = 2 ^ Suc j, mn_index = i + 1\<rparr>
      else \<lparr>mn_forest = k + 2 ^ Suc j, mn_last_right = 0, mn_index = i + 1\<rparr>))
      :: ('e, (inner_node \<times> mmr_nodes_iter) option) outcome)"
proof -
  define M where "M = 2 * 2 ^ j - (2::nat)"
  have M: "2 * 2 ^ j - 1 = M + 1"
    using one_le_power [of "2::nat" j] unfolding M_def by linarith
  let ?P = "P @ postorder perm xs j k"
  have len: "length ?P = length P + (M + 1)"
    using M by simp
  have i: "i = length P + 2 * M + 2"
    using assms(10) M by simp
  have val: "node_store_index (mmr_nodes m) i = (Ok v :: ('e, qword) outcome)"
    using assms(1,9) M i by (simp add: node_vec.get_elems fetch_def nth_append)
  have left: "node_store_index (mmr_nodes m) (length P + M) = (Ok (node_val perm xs j k) :: ('e, qword) outcome)"
    using assms(1,9) by (intro index_root [where P = P and R = "postorder perm xs j (k + 2 ^ j) @ v # R"])
      (simp_all add: M_def)
  have right: "node_store_index (mmr_nodes m) (length P + 2 * M + 1) =
      (Ok (node_val perm xs j (k + 2 ^ j)) :: ('e, qword) outcome)"
    using assms(1,9) by (intro index_root [where P = ?P and R = "v # R"])
      (simp_all only: len M_def [symmetric], simp_all)
  have j: "2 ^ j \<le> MAX_LEAVES" "2 ^ j < (2::nat) ^ 32"
    using assms(3,5) valid_less [of n] by linarith+
  then have parent: "take_bit 64 (push_bit 1 (2 ^ j :: nat)) = 2 ^ Suc j"
    by (simp add: take_bit_nat_eq_self push_bit_eq_mult)
  have num: "num_nodes (2 ^ j) = (Ok (M + 1) :: ('e, nat) outcome)"
    using j(1) M by simp
  have "even k"
    using assms(2) by (metis dvd_mult_left power_Suc)
  then have one: "k AND 1 = 0"
    by (simp add: and_one_eq)
  have bits: "0 < k + 2 ^ j AND 2 ^ j" "(k + 2 ^ j) XOR 2 ^ j = k"
    using bit_dvd_add [OF assms(2)] xor_exp_set [OF not_bit_dvd [OF assms(2)]] by (simp_all add: bit_exp_and)
  have new: "\<not> bit k (Suc j) \<Longrightarrow> k XOR 2 ^ Suc j = k + 2 ^ Suc j"
    by (rule xor_exp_clear)
  have target: "without_single_leaf (mmr_forest m) = n - n mod 2"
    using target_even assms(4,5) by simp
  show ?thesis
    unfolding mmr_nodes_next_def target assms(7) Let_def prod.case
    using assms(6,8) bits j(1) num one parent val left right i new bit_exp_and [of k "Suc j"]
    by (cases "bit k (Suc j)") (simp_all add: usub_def add.commute [of M "length P"])
qed

section \<open>The walk over the inner nodes\<close>

lemma buffer_visit: "2 ^ h dvd k \<Longrightarrow> \<exists>ys. buffer perm xs (k + 2 ^ h) = buffer perm xs k @ postorder perm xs h k @ ys"
proof (induction k arbitrary: h rule: less_induct)
  case (less k)
  have n: "Suc (k + 2 ^ h - 1) = k + 2 ^ h"
    by simp
  show ?case
    using less.prems n
  proof (cases rule: pow_half_cases)
    case (one k')
    have "\<exists>ys. buffer perm xs (k' + 2 ^ Suc h) = buffer perm xs k' @ postorder perm xs (Suc h) k' @ ys"
      using one by (intro less.IH) simp_all
    then obtain ys where ys: "buffer perm xs (k' + 2 ^ Suc h) = buffer perm xs k' @ postorder perm xs (Suc h) k' @ ys"
      by blast
    have "k + 2 ^ h = k' + 2 ^ Suc h"
      using one(1) by simp
    then have "buffer perm xs (k + 2 ^ h) =
        buffer perm xs k @ postorder perm xs h k @ [node_val perm xs (Suc h) k'] @ ys"
      by (simp only: ys buffer_snoc [OF one(2)] postorder.simps append_assoc one(1))
    then show ?thesis
      by (rule exI)
  next
    case zero
    then show ?thesis
      using buffer_snoc [OF zero(1), of perm xs] by (intro exI [of _ "[]"]) (simp only: append_Nil2)
  qed
qed

text \<open>The states of the iterator: between two pairs of leaves, or at the parent of two subtrees of
  height \<open>j\<close>. What was visited is the buffer of the leaves \<open>xs\<close>.\<close>

inductive visiting :: "(hasher_state \<Rightarrow> hasher_state) \<Rightarrow> qword list \<Rightarrow> nat \<Rightarrow> qword list \<Rightarrow> mmr_nodes_iter \<Rightarrow> bool"
  for perm N n xs where
  pair: "even L \<Longrightarrow> L \<le> n - n mod 2 \<Longrightarrow> N = buffer perm xs L @ R \<Longrightarrow>
    visiting perm N n xs \<lparr>mn_forest = L, mn_last_right = 0, mn_index = length (buffer perm xs L)\<rparr>"
| parent: "2 ^ Suc j dvd k \<Longrightarrow> k + 2 * 2 ^ j \<le> n - n mod 2 \<Longrightarrow>
    N = buffer perm xs k @ postorder perm xs j k @ postorder perm xs j (k + 2 ^ j) @ R \<Longrightarrow>
    visiting perm N n xs
      \<lparr>mn_forest = k + 2 ^ j, mn_last_right = 2 ^ j, mn_index = length (buffer perm xs k) + 2 * (2 * 2 ^ j - 1)\<rparr>"

lemma buffer_parent:
  assumes "2 ^ Suc j dvd k" "k + 2 * 2 ^ j \<le> n"
  obtains ys where "buffer perm xs n = buffer perm xs k @ postorder perm xs j k @
    postorder perm xs j (k + 2 ^ j) @ node_val perm xs (Suc j) k # ys"
proof -
  obtain ys where "buffer perm xs (k + 2 ^ Suc j) = buffer perm xs k @ postorder perm xs (Suc j) k @ ys"
    using buffer_visit [OF assms(1)] by blast
  moreover obtain zs where "buffer perm xs n = buffer perm xs (k + 2 ^ Suc j) @ zs"
    using buffer_prefix [of "k + 2 ^ Suc j" n] assms(2) by auto
  ultimately show ?thesis
    by (intro that) simp
qed

lemma visit_parent:
  fixes m :: mmr
  defines "N \<equiv> nodes_of (mmr_nodes m)"
  assumes "wf_nodes (mmr_nodes m)" "2 ^ Suc j dvd k" "k + 2 * 2 ^ j \<le> n - n mod 2" "mmr_forest m = n"
    "n \<le> MAX_LEAVES" "mn_forest it < n - n mod 2" "count_ones (mn_last_right it) \<le> 1"
    "(if mn_last_right it = 0 then (mn_forest it OR 1, mn_last_right it OR 1, mn_index it + 2)
      else (mn_forest it, mn_last_right it, mn_index it)) =
      (k + 2 ^ j, 2 ^ j, length (buffer perm xs k) + 2 * (2 * 2 ^ j - 1))"
    "N = buffer perm xs k @ postorder perm xs j k @ postorder perm xs j (k + 2 ^ j) @ R"
    "length N = length (buffer perm xs n)"
  shows "\<exists>node it'. mmr_nodes_next m it = (Ok (Some (node, it')) :: ('e, (inner_node \<times> mmr_nodes_iter) option) outcome) \<and>
    (if in_value node = merge perm (in_left node) (in_right node) then visiting perm N n xs it'
     else N \<noteq> buffer perm xs n)"
proof -
  let ?i = "length (buffer perm xs k) + 2 * (2 * 2 ^ j - 1)"
  have n: "k + 2 * 2 ^ j \<le> n"
    using assms(4) by simp
  obtain ys where ys: "buffer perm xs n = buffer perm xs k @ postorder perm xs j k @
      postorder perm xs j (k + 2 ^ j) @ node_val perm xs (Suc j) k # ys"
    using assms(3) n by (rule buffer_parent)
  then have "length R = Suc (length ys)"
    using assms(10,11) by (simp del: length_postorder)
  then obtain v R' where R: "R = v # R'"
    by (cases R) simp_all
  let ?node = "\<lparr>in_value = v, in_left = node_val perm xs j k, in_right = node_val perm xs j (k + 2 ^ j)\<rparr>"
  let ?it = "if bit k (Suc j) then \<lparr>mn_forest = k, mn_last_right = 2 ^ Suc j, mn_index = ?i + 1\<rparr>
      else \<lparr>mn_forest = k + 2 ^ Suc j, mn_last_right = 0, mn_index = ?i + 1\<rparr>"
  have "mmr_nodes_next m it = (Ok (Some (?node, ?it)) :: ('e, (inner_node \<times> mmr_nodes_iter) option) outcome)"
    using assms(10) R unfolding N_def
    by (intro next_parent [OF assms(2-7,9,8)]) simp_all
  moreover have "visiting perm N n xs ?it" if v: "v = node_val perm xs (Suc j) k"
  proof -
    have N: "N = buffer perm xs k @ postorder perm xs (Suc j) k @ R'"
      using assms(10) R v by simp
    have i: "?i + 1 = length (buffer perm xs k) + (2 * 2 ^ Suc j - 1)"
      using one_le_power [of "2::nat" j] unfolding power_Suc by linarith
    show ?thesis
    proof (cases "bit k (Suc j)")
      case True
      then obtain k' where k: "k = k' + 2 ^ Suc j" "2 ^ Suc (Suc j) dvd k'"
        using assms(3) by (rule set_bit_dvd)
      then have buf: "buffer perm xs k = buffer perm xs k' @ postorder perm xs (Suc j) k'"
        by (simp only: buffer_snoc)
      then have "visiting perm N n xs \<lparr>mn_forest = k' + 2 ^ Suc j, mn_last_right = 2 ^ Suc j,
          mn_index = length (buffer perm xs k') + 2 * (2 * 2 ^ Suc j - 1)\<rparr>"
        using N k(2) assms(4)
        by (intro visiting.parent [where R = R']) (simp_all only: k(1) buf append_assoc, simp_all)
      moreover have "?i + 1 = length (buffer perm xs k') + 2 * (2 * 2 ^ Suc j - 1)"
        unfolding i by (simp only: buf length_append length_postorder)
      ultimately show ?thesis
        using True k(1) by simp
    next
      case False
      then have k: "2 ^ Suc (Suc j) dvd k"
        using assms(3) by (rule clear_bit_dvd)
      then have buf: "buffer perm xs (k + 2 ^ Suc j) = buffer perm xs k @ postorder perm xs (Suc j) k"
        by (rule buffer_snoc)
      have "even k"
        using dvd_trans [OF _ assms(3), of 2] by simp
      then have even: "even (k + 2 ^ Suc j)"
        by simp
      have le: "k + 2 ^ Suc j \<le> n - n mod 2"
        using assms(4) by simp
      have "visiting perm N n xs \<lparr>mn_forest = k + 2 ^ Suc j, mn_last_right = 0,
          mn_index = length (buffer perm xs (k + 2 ^ Suc j))\<rparr>"
        using even le by (rule visiting.pair [where R = R']) (simp only: N buf append_assoc)
      moreover have "?i + 1 = length (buffer perm xs (k + 2 ^ Suc j))"
        unfolding i by (simp only: buf length_append length_postorder)
      ultimately show ?thesis
        using False by simp
    qed
  qed
  moreover have "N \<noteq> buffer perm xs n" if "v \<noteq> node_val perm xs (Suc j) k"
    using that assms(10) R ys by simp
  ultimately show ?thesis
    by (intro exI [of _ ?node] exI [of _ ?it]) simp
qed

text \<open>The leaves of a node buffer: leaf \<open>p\<close> follows the nodes of the \<open>p\<close> leaves before it.\<close>

definition leaves_of :: "qword list \<Rightarrow> nat \<Rightarrow> qword list" where
  "leaves_of N n = map (\<lambda>p. N ! (2 * p - count_ones p)) [0..<n]"

lemma length_leaves_of [simp]: "length (leaves_of N n) = n"
  by (simp add: leaves_of_def)

lemma leaf_in_buffer: "p < n \<Longrightarrow> length (buffer perm xs p) = i \<Longrightarrow> leaves_of N n ! p = N ! i"
  by (auto simp: leaves_of_def length_buffer)

lemma buffer_even: "even L \<Longrightarrow> buffer perm xs (L + 1) = buffer perm xs L @ [xs ! L]"
  using buffer_snoc [of 0 L perm xs] by simp

lemma buffer_leaves:
  assumes "even L" "L + 2 \<le> n" "N = buffer perm xs L @ R" "length N = length (buffer perm xs n)"
    "xs = leaves_of N n"
  obtains R' where "R = xs ! L # xs ! (L + 1) # R'"
proof -
  obtain ys where "buffer perm xs n = buffer perm xs L @ postorder perm xs 0 L @ postorder perm xs 0 (L + 2 ^ 0) @
      node_val perm xs (Suc 0) L # ys"
    using assms(1,2) by (rule_tac buffer_parent [of 0 L n perm xs]) simp_all
  then obtain a b R' where R: "R = a # b # R'"
    using assms(3,4) by (cases R; cases "tl R") auto
  have "xs ! L = N ! length (buffer perm xs L)" "xs ! (L + 1) = N ! length (buffer perm xs (L + 1))"
    using leaf_in_buffer [of L n perm xs] leaf_in_buffer [of "L + 1" n perm xs] assms(2,5) by auto
  then have "xs ! L = a" "xs ! (L + 1) = b"
    using assms(1,3) R by (simp_all add: buffer_even [unfolded One_nat_def add_Suc_right add_0_right] nth_append)
  then show thesis
    using R that by simp
qed

lemma buffer_last:
  assumes "N = buffer perm xs (n - n mod 2) @ R" "length N = length (buffer perm xs n)" "xs = leaves_of N n"
  shows "N = buffer perm xs n"
proof (cases "even n")
  case True
  then show ?thesis
    using assms(1,2) by simp
next
  case False
  then obtain L where L: "n = L + 1" "even L"
    by (metis odd_pos oddE add.commute dvd_triv_left)
  then have "n - n mod 2 = L"
    by (simp add: mod_Suc odd_iff_mod_2_eq_one)
  with L have buf: "buffer perm xs n = buffer perm xs L @ [xs ! L]" and N: "N = buffer perm xs L @ R"
    using buffer_even [OF L(2)] assms(1) by simp_all
  then obtain a where R: "R = [a]"
    using assms(2) by (cases R) auto
  have "xs ! L = N ! length (buffer perm xs L)"
    using leaf_in_buffer [of L n perm xs] assms(3) L(1) by auto
  then show ?thesis
    using N R buf by simp
qed

lemma visit_all:
  fixes m :: mmr
  defines "N \<equiv> nodes_of (mmr_nodes m)"
  assumes "wf_nodes (mmr_nodes m)" "mmr_forest m = n" "n \<le> MAX_LEAVES" "length N = length (buffer perm xs n)"
    "xs = leaves_of N n" "visiting perm N n xs it"
  shows "inner_nodes_any (\<lambda>node. in_value node \<noteq> merge perm (in_left node) (in_right node)) m it =
    (Ok (N \<noteq> buffer perm xs n) :: ('e, bool) outcome)"
  using assms(7)
proof (induction "length (ns_chunks (mmr_nodes m)) * NODE_CHUNK_CAPACITY - mn_index it" arbitrary: it rule: less_induct)
  case less
  let ?T = "n - n mod 2"
  let ?bad = "\<lambda>node. in_value node \<noteq> merge perm (in_left node) (in_right node)"
  have step: ?case
    if st: "2 ^ Suc j dvd k" "k + 2 * 2 ^ j \<le> ?T" "mn_forest it < ?T" "count_ones (mn_last_right it) \<le> 1"
      "(if mn_last_right it = 0 then (mn_forest it OR 1, mn_last_right it OR 1, mn_index it + 2)
        else (mn_forest it, mn_last_right it, mn_index it)) =
        (k + 2 ^ j, 2 ^ j, length (buffer perm xs k) + 2 * (2 * 2 ^ j - 1))"
      "N = buffer perm xs k @ postorder perm xs j k @ postorder perm xs j (k + 2 ^ j) @ R" for j k R
  proof -
    obtain node it' where nx: "mmr_nodes_next m it = (Ok (Some (node, it')) :: ('e, (inner_node \<times> mmr_nodes_iter) option) outcome)"
        "if \<not> ?bad node then visiting perm N n xs it' else N \<noteq> buffer perm xs n"
      using visit_parent [OF assms(2) st(1,2) assms(3,4) st(3,4,5), folded N_def, OF st(6) assms(5)]
      by auto
    show ?thesis
    proof (cases "?bad node")
      case True
      then show ?thesis
        using nx by (subst inner_nodes_any.simps) simp
    next
      case False
      then have "inner_nodes_any ?bad m it' = (Ok (N \<noteq> buffer perm xs n) :: ('e, bool) outcome)"
        using nx(2) mmr_nodes_next_index [OF nx(1)] by (intro less.hyps diff_less_mono2) auto
      then show ?thesis
        using nx(1) False by (subst inner_nodes_any.simps) simp
    qed
  qed
  show ?case
    using less.prems
  proof cases
    case (pair L R)
    show ?thesis
    proof (cases "L < ?T")
      case True
      then have L: "L + 2 \<le> ?T"
        using pair(2) by (metis (no_types) Suc_leI add_2_eq_Suc' dvd_minus_mod le_neq_implies_less even_Suc)
      then have "L + 2 \<le> n" by simp
      with pair(2) obtain R' where "R = xs ! L # xs ! (L + 1) # R'"
        using pair(4) assms(5,6) by (rule buffer_leaves)
      then show ?thesis
        using True L pair by (intro step [of 0 L R']) (simp_all add: or_Suc_0_eq)
    next
      case False
      then have "N = buffer perm xs ?T @ R"
        using pair(3,4) by simp
      then have "N = buffer perm xs n"
        using assms(5,6) by (rule buffer_last)
      moreover have "mmr_nodes_next m it = (Ok None :: ('e, (inner_node \<times> mmr_nodes_iter) option) outcome)"
        using False pair(1) assms(3,4) by (simp add: mmr_nodes_next_def target_even)
      ultimately show ?thesis
        by (subst inner_nodes_any.simps) simp
    qed
  next
    case (parent j k R)
    have "k + 2 ^ j < ?T"
      using parent(3) one_le_power [of "2::nat" j] by linarith
    with parent show ?thesis
      by (intro step [of j k R]) simp_all
  qed
qed

lemma leaves_of_buffer:
  "length xs = n \<Longrightarrow> leaves_of (buffer perm xs n) n = xs"
proof (rule nth_equalityI)
  fix p
  assume "length xs = n" "p < length (leaves_of (buffer perm xs n) n)"
  then have p: "p < n" by simp
  obtain ys where ys: "buffer perm xs (p + 1) = buffer perm xs p @ ys" "ys \<noteq> [] \<and> hd ys = xs ! p"
    using buffer_visit [of 0 p perm xs] by auto
  moreover obtain zs where "buffer perm xs n = buffer perm xs (p + 1) @ zs"
    using buffer_prefix [of "p + 1" n perm xs] p by auto
  ultimately have "buffer perm xs n ! length (buffer perm xs p) = xs ! p"
    by (cases ys) (simp_all add: nth_append)
  then show "leaves_of (buffer perm xs n) n ! p = xs ! p"
    using leaf_in_buffer [OF p refl] by metis
qed simp

lemma from_serialized_parts_eq:
  assumes "wf_nodes nodes" "f \<le> MAX_LEAVES"
  defines "xs \<equiv> leaves_of (nodes_of nodes) f"
  shows "from_serialized_parts perm f nodes =
    (if length (nodes_of nodes) \<noteq> 2 * f - count_ones f
     then Err (PartsMmrError (InvalidNodeCount (2 * f - count_ones f) (length (nodes_of nodes))))
     else if nodes_of nodes \<noteq> buffer perm xs f then Err InconsistentParent
     else Ok \<lparr>mmr_forest = f, mmr_nodes = nodes\<rparr>)"
proof (cases "length (nodes_of nodes) = 2 * f - count_ones f")
  case True
  let ?m = "\<lparr>mmr_forest = f, mmr_nodes = nodes\<rparr>"
  have "visiting perm (nodes_of nodes) f xs \<lparr>mn_forest = 0, mn_last_right = 0, mn_index = length (buffer perm xs 0)\<rparr>"
    by (rule visiting.pair) (simp_all add: buffer_def)
  then have "visiting perm (nodes_of (mmr_nodes ?m)) f xs mmr_inner_nodes"
    by (simp add: mmr_inner_nodes_def buffer_def)
  then have "inner_nodes_any (\<lambda>node. in_value node \<noteq> merge perm (in_left node) (in_right node)) ?m mmr_inner_nodes =
      (Ok (nodes_of (mmr_nodes ?m) \<noteq> buffer perm xs f) :: (serialized_parts_error, bool) outcome)"
    using assms True by (intro visit_all) (simp_all add: length_buffer)
  then show ?thesis
    using True assms(1,2) by (simp add: from_serialized_parts_def mmr_from_store_def node_vec.len_elems)
next
  case False
  then show ?thesis
    using assms(1,2) by (simp add: from_serialized_parts_def mmr_from_store_def node_vec.len_elems)
qed

section \<open>Theorem\<close>

text \<open>C30: a serialized range is accepted exactly when its nodes are the buffer of as many leaves as its
  forest says, and the range accepted holds those leaves. Every other input is an error: a wrong number
  of nodes, or a parent that is not the hash of its children.\<close>

theorem serialized_range_valid:
  assumes "wf_nodes nodes" "f \<le> MAX_LEAVES"
  shows "case from_serialized_parts perm f nodes of
      Ok m \<Rightarrow> mmr_holds perm m (leaves_of (nodes_of nodes) f) \<and> mmr_nodes m = nodes
    | Err e \<Rightarrow> \<forall>xs. length xs = f \<longrightarrow> nodes_of nodes \<noteq> buffer perm xs f
    | Panic \<Rightarrow> False"
  using assms leaves_of_buffer
  by (auto simp: from_serialized_parts_eq mmr_holds_def length_buffer)

theorem serialized_range_valid_witness:
  "\<exists>m. from_serialized_parts id 3 (node_store_from_iter (buffer id three_leaves 3)) = Ok m \<and>
    mmr_holds id m three_leaves"
proof -
  let ?st = "node_store_from_iter (buffer id three_leaves 3)"
  have "length three_leaves = 3"
    by (simp add: three_leaves_def)
  moreover from this have "leaves_of (buffer id three_leaves 3) 3 = three_leaves"
    by (rule leaves_of_buffer)
  ultimately show ?thesis
    using serialized_range_valid [of ?st 3 id] node_store_from_iter_elems [of "buffer id three_leaves 3"]
    by (cases "from_serialized_parts id 3 ?st") (auto simp: MAX_LEAVES_eq)
qed

end
