(* ===== verification/Simulation.thy ===== *)
theory Simulation
  imports Processor_If
begin

text \<open>
  When one processor simulates another. The contract of the stack trait is a locale on two
  implementations and a relation of their states: reads agree on the sixteen accessible positions,
  updates keep the relation, and a new top element is unspecified until it is written, so that the law
  of \<open>increment_size\<close> is stated together with the write that follows it. The contracts of the other
  traits extend it to whole processors. The operations of the virtual machine are clients: each theory
  of operations adds one lemma per operation to the context of the second locale.
\<close>

section \<open>Short names for the methods\<close>

abbreviation sget :: "'p processor \<Rightarrow> 'p \<Rightarrow> nat \<Rightarrow> felt exec" where
  "sget P \<equiv> stk_get (stack P)"

abbreviation sget_word :: "'p processor \<Rightarrow> 'p \<Rightarrow> nat \<Rightarrow> qword exec" where
  "sget_word P \<equiv> stk_get_word (stack P)"

abbreviation sset :: "'p processor \<Rightarrow> 'p \<Rightarrow> nat \<Rightarrow> felt \<Rightarrow> 'p exec" where
  "sset P \<equiv> stk_set (stack P)"

abbreviation sset_word :: "'p processor \<Rightarrow> 'p \<Rightarrow> nat \<Rightarrow> qword \<Rightarrow> 'p exec" where
  "sset_word P \<equiv> stk_set_word (stack P)"

abbreviation sswap :: "'p processor \<Rightarrow> 'p \<Rightarrow> nat \<Rightarrow> nat \<Rightarrow> 'p exec" where
  "sswap P \<equiv> stk_swap (stack P)"

abbreviation sinc :: "'p processor \<Rightarrow> 'p \<Rightarrow> 'p exec" where
  "sinc P \<equiv> stk_increment_size (stack P)"

abbreviation sdec :: "'p processor \<Rightarrow> 'p \<Rightarrow> 'p exec" where
  "sdec P \<equiv> stk_decrement_size (stack P)"

type_synonym 'p op_result = "(op_helpers \<times> 'p) exec"

abbreviation rel_op :: "('p \<Rightarrow> 'q \<Rightarrow> bool) \<Rightarrow> 'a \<times> 'p \<Rightarrow> 'a \<times> 'q \<Rightarrow> bool" where
  "rel_op R \<equiv> rel_prod (=) R"

section \<open>The stack\<close>

locale stack_sim =
  fixes S :: "'p stack_interface" and T :: "'q stack_interface" and R :: "'p \<Rightarrow> 'q \<Rightarrow> bool"
  assumes get_law: "R p q \<Longrightarrow> i < 16 \<Longrightarrow> sim (=) (stk_get S p i) (stk_get T q i)"
    and get_word_law: "R p q \<Longrightarrow> i \<le> 12 \<Longrightarrow> sim (=) (stk_get_word S p i) (stk_get_word T q i)"
    and depth_law: "R p q \<Longrightarrow> sim (=) (stk_depth S p) (stk_depth T q)"
    and set_law: "R p q \<Longrightarrow> i < 16 \<Longrightarrow> sim R (stk_set S p i x) (stk_set T q i x)"
    and set_word_law: "R p q \<Longrightarrow> i \<le> 12 \<Longrightarrow> sim R (stk_set_word S p i w) (stk_set_word T q i w)"
    and swap_law: "R p q \<Longrightarrow> i < 16 \<Longrightarrow> j < 16 \<Longrightarrow> sim R (stk_swap S p i j) (stk_swap T q i j)"
    and swapw_nth_law: "R p q \<Longrightarrow> 0 < n \<Longrightarrow> n \<le> 3 \<Longrightarrow> sim R (stk_swapw_nth S p n) (stk_swapw_nth T q n)"
    and rotate_left_law:
      "R p q \<Longrightarrow> 0 < n \<Longrightarrow> n \<le> 16 \<Longrightarrow> sim R (stk_rotate_left S p n) (stk_rotate_left T q n)"
    and rotate_right_law:
      "R p q \<Longrightarrow> 0 < n \<Longrightarrow> n \<le> 16 \<Longrightarrow> sim R (stk_rotate_right S p n) (stk_rotate_right T q n)"
    and push_law: "R p q \<Longrightarrow>
      sim R (bindO (stk_increment_size S p) (\<lambda>p. stk_set S p 0 x))
        (bindO (stk_increment_size T q) (\<lambda>q. stk_set T q 0 x))"
    and decrement_law: "R p q \<Longrightarrow> sim R (stk_decrement_size S p) (stk_decrement_size T q)"
begin

lemma sim_get [sim_intros]:
  "R p q \<Longrightarrow> i < 16 \<Longrightarrow> (\<And>x. sim U (f x) (g x)) \<Longrightarrow> sim U (bindO (stk_get S p i) f) (bindO (stk_get T q i) g)"
  by (rule sim_bind_eq [OF get_law])

lemma sim_get_word [sim_intros]:
  "R p q \<Longrightarrow> i \<le> 12 \<Longrightarrow> (\<And>x. sim U (f x) (g x))
    \<Longrightarrow> sim U (bindO (stk_get_word S p i) f) (bindO (stk_get_word T q i) g)"
  by (rule sim_bind_eq [OF get_word_law])

lemma sim_depth [sim_intros]:
  "R p q \<Longrightarrow> (\<And>x. sim U (f x) (g x)) \<Longrightarrow> sim U (bindO (stk_depth S p) f) (bindO (stk_depth T q) g)"
  by (rule sim_bind_eq [OF depth_law])

lemma sim_set [sim_intros]:
  "R p q \<Longrightarrow> i < 16 \<Longrightarrow> (\<And>p q. R p q \<Longrightarrow> sim U (f p) (g q))
    \<Longrightarrow> sim U (bindO (stk_set S p i x) f) (bindO (stk_set T q i x) g)"
  by (rule sim_bind [OF set_law])

lemma sim_set_word [sim_intros]:
  "R p q \<Longrightarrow> i \<le> 12 \<Longrightarrow> (\<And>p q. R p q \<Longrightarrow> sim U (f p) (g q))
    \<Longrightarrow> sim U (bindO (stk_set_word S p i w) f) (bindO (stk_set_word T q i w) g)"
  by (rule sim_bind [OF set_word_law])

lemma sim_swap [sim_intros]:
  "R p q \<Longrightarrow> i < 16 \<Longrightarrow> j < 16 \<Longrightarrow> (\<And>p q. R p q \<Longrightarrow> sim U (f p) (g q))
    \<Longrightarrow> sim U (bindO (stk_swap S p i j) f) (bindO (stk_swap T q i j) g)"
  by (rule sim_bind [OF swap_law])

lemma sim_swapw_nth [sim_intros]:
  "R p q \<Longrightarrow> 0 < n \<Longrightarrow> n \<le> 3 \<Longrightarrow> (\<And>p q. R p q \<Longrightarrow> sim U (f p) (g q))
    \<Longrightarrow> sim U (bindO (stk_swapw_nth S p n) f) (bindO (stk_swapw_nth T q n) g)"
  by (rule sim_bind [OF swapw_nth_law])

lemma sim_rotate_left [sim_intros]:
  "R p q \<Longrightarrow> 0 < n \<Longrightarrow> n \<le> 16 \<Longrightarrow> (\<And>p q. R p q \<Longrightarrow> sim U (f p) (g q))
    \<Longrightarrow> sim U (bindO (stk_rotate_left S p n) f) (bindO (stk_rotate_left T q n) g)"
  by (rule sim_bind [OF rotate_left_law])

lemma sim_rotate_right [sim_intros]:
  "R p q \<Longrightarrow> 0 < n \<Longrightarrow> n \<le> 16 \<Longrightarrow> (\<And>p q. R p q \<Longrightarrow> sim U (f p) (g q))
    \<Longrightarrow> sim U (bindO (stk_rotate_right S p n) f) (bindO (stk_rotate_right T q n) g)"
  by (rule sim_bind [OF rotate_right_law])

lemma sim_push [sim_intros]:
  assumes "R p q" "\<And>p q. R p q \<Longrightarrow> sim U (f p) (g q)"
  shows "sim U (bindO (stk_increment_size S p) (\<lambda>p. bindO (stk_set S p 0 x) f))
    (bindO (stk_increment_size T q) (\<lambda>q. bindO (stk_set T q 0 x) g))"
  using sim_bind [OF push_law [OF assms(1)] assms(2)] by (simp add: bindO_assoc)

lemma sim_decrement [sim_intros]:
  "R p q \<Longrightarrow> (\<And>p q. R p q \<Longrightarrow> sim U (f p) (g q))
    \<Longrightarrow> sim U (bindO (stk_decrement_size S p) f) (bindO (stk_decrement_size T q) g)"
  by (rule sim_bind [OF decrement_law])

lemma sim_get_double_word [sim_intros]:
  assumes "R p q" "i \<le> 8" "\<And>x. sim U (f x) (g x)"
  shows "sim U (bindO (stk_get_double_word S p i) f) (bindO (stk_get_double_word T q i) g)"
  unfolding stk_get_double_word_def bindO_assoc bindO.simps
  using assms by (intro sim_intros) simp_all

end

section \<open>Processors\<close>

locale processor_sim = stack_sim "stack P" "stack Q" R
  for P :: "'p processor" and Q :: "'q processor" and R :: "'p \<Rightarrow> 'q \<Rightarrow> bool" +
  assumes caller_hash_law: "R p q \<Longrightarrow> sys_caller_hash (system P) p = sys_caller_hash (system Q) q"
    and clock_law: "R p q \<Longrightarrow> sys_clock (system P) p = sys_clock (system Q) q"
    and ctx_law: "R p q \<Longrightarrow> sys_ctx (system P) p = sys_ctx (system Q) q"
    and deferred_root_law: "R p q \<Longrightarrow> sys_deferred_root (system P) p = sys_deferred_root (system Q) q"
    and log_deferred_law: "R p q \<Longrightarrow>
      sim R (sys_log_deferred_statement (system P) p s r) (sys_log_deferred_statement (system Q) q s r)"
    and pop_stack_law:
      "R p q \<Longrightarrow> sim (rel_op R) (adv_pop_stack (advice_provider P) p) (adv_pop_stack (advice_provider Q) q)"
    and pop_stack_word_law: "R p q \<Longrightarrow>
      sim (rel_op R) (adv_pop_stack_word (advice_provider P) p) (adv_pop_stack_word (advice_provider Q) q)"
    and pop_stack_dword_law: "R p q \<Longrightarrow>
      sim (rel_op R) (adv_pop_stack_dword (advice_provider P) p) (adv_pop_stack_dword (advice_provider Q) q)"
    and get_merkle_path_law: "R p q \<Longrightarrow>
      sim (\<lambda>x y. x = y \<and> (\<exists>path. x = Some path \<and> length path \<le> 255))
        (adv_get_merkle_path (advice_provider P) p root d i) (adv_get_merkle_path (advice_provider Q) q root d i)"
    and update_merkle_node_law: "R p q \<Longrightarrow>
      sim (\<lambda>x y. rel_op R x y \<and> (\<exists>path. fst x = Some path \<and> length path \<le> 255))
        (adv_update_merkle_node (advice_provider P) p root d i w)
        (adv_update_merkle_node (advice_provider Q) q root d i w)"
    and read_element_law:
      "R p q \<Longrightarrow> sim (=) (mem_read_element (memory P) p c a) (mem_read_element (memory Q) q c a)"
    and read_word_law:
      "R p q \<Longrightarrow> sim (=) (mem_read_word (memory P) p c a k) (mem_read_word (memory Q) q c a k)"
    and write_element_law:
      "R p q \<Longrightarrow> sim R (mem_write_element (memory P) p c a x) (mem_write_element (memory Q) q c a x)"
    and write_word_law:
      "R p q \<Longrightarrow> sim R (mem_write_word (memory P) p c a k w) (mem_write_word (memory Q) q c a k w)"
    and permute_law: "R p q \<Longrightarrow> sim (=) (hsh_permute (hasher P) p st) (hsh_permute (hasher Q) q st)"
    and verify_merkle_root_law: "R p q \<Longrightarrow> length path \<le> 255 \<Longrightarrow>
      sim (=) (hsh_verify_merkle_root (hasher P) p root v (Some path) idx e)
        (hsh_verify_merkle_root (hasher Q) q root v (Some path) idx e)"
    and update_merkle_root_law: "R p q \<Longrightarrow> length path \<le> 255 \<Longrightarrow>
      sim (=) (hsh_update_merkle_root (hasher P) p root v w (Some path) idx e)
        (hsh_update_merkle_root (hasher Q) q root v w (Some path) idx e)"
begin

lemma sim_ctx [sim_intros]:
  "R p q \<Longrightarrow> (\<And>c. sim U (f c) (g c)) \<Longrightarrow> sim U (Let (sys_ctx (system P) p) f) (Let (sys_ctx (system Q) q) g)"
  by (simp add: ctx_law Let_def)

lemma sim_clock [sim_intros]:
  "R p q \<Longrightarrow> (\<And>c. sim U (f c) (g c)) \<Longrightarrow> sim U (Let (sys_clock (system P) p) f) (Let (sys_clock (system Q) q) g)"
  by (simp add: clock_law Let_def)

lemma sim_caller_hash [sim_intros]:
  "R p q \<Longrightarrow> (\<And>c. sim U (f c) (g c))
    \<Longrightarrow> sim U (Let (sys_caller_hash (system P) p) f) (Let (sys_caller_hash (system Q) q) g)"
  by (simp add: caller_hash_law Let_def)

lemma sim_deferred_root [sim_intros]:
  "R p q \<Longrightarrow> (\<And>c. sim U (f c) (g c))
    \<Longrightarrow> sim U (Let (sys_deferred_root (system P) p) f) (Let (sys_deferred_root (system Q) q) g)"
  by (simp add: deferred_root_law Let_def)

lemma sim_log_deferred [sim_intros]:
  "R p q \<Longrightarrow> (\<And>p q. R p q \<Longrightarrow> sim U (f p) (g q))
    \<Longrightarrow> sim U (bindO (sys_log_deferred_statement (system P) p s r) f)
      (bindO (sys_log_deferred_statement (system Q) q s r) g)"
  by (rule sim_bind [OF log_deferred_law])

lemma sim_bind_op:
  "sim (rel_op R) m n \<Longrightarrow> (\<And>x p q. R p q \<Longrightarrow> sim U (f x p) (g x q))
    \<Longrightarrow> sim U (bindO m (\<lambda>(x, p). f x p)) (bindO n (\<lambda>(x, q). g x q))"
  by (erule sim_bind) auto

lemma sim_pop_stack [sim_intros]:
  "R p q \<Longrightarrow> (\<And>x p q. R p q \<Longrightarrow> sim U (f x p) (g x q))
    \<Longrightarrow> sim U (bindO (adv_pop_stack (advice_provider P) p) (\<lambda>(x, p). f x p))
      (bindO (adv_pop_stack (advice_provider Q) q) (\<lambda>(x, q). g x q))"
  by (rule sim_bind_op [OF pop_stack_law])

lemma sim_pop_stack_word [sim_intros]:
  "R p q \<Longrightarrow> (\<And>x p q. R p q \<Longrightarrow> sim U (f x p) (g x q))
    \<Longrightarrow> sim U (bindO (adv_pop_stack_word (advice_provider P) p) (\<lambda>(x, p). f x p))
      (bindO (adv_pop_stack_word (advice_provider Q) q) (\<lambda>(x, q). g x q))"
  by (rule sim_bind_op [OF pop_stack_word_law])

lemma sim_pop_stack_dword [sim_intros]:
  "R p q \<Longrightarrow> (\<And>x y p q. R p q \<Longrightarrow> sim U (f x y p) (g x y q))
    \<Longrightarrow> sim U (bindO (adv_pop_stack_dword (advice_provider P) p) (\<lambda>((x, y), p). f x y p))
      (bindO (adv_pop_stack_dword (advice_provider Q) q) (\<lambda>((x, y), q). g x y q))"
  by (rule sim_bind [OF pop_stack_dword_law]) auto

lemma sim_get_merkle_path [sim_intros]:
  assumes "R p q" "\<And>path. length path \<le> 255 \<Longrightarrow> sim U (f (Some path)) (g (Some path))"
  shows "sim U (bindO (adv_get_merkle_path (advice_provider P) p root d i) f)
      (bindO (adv_get_merkle_path (advice_provider Q) q root d i) g)"
  using get_merkle_path_law [OF assms(1)] by (rule sim_bind) (auto intro: assms(2))

lemma sim_update_merkle_node [sim_intros]:
  assumes "R p q" "\<And>path p q. length path \<le> 255 \<Longrightarrow> R p q \<Longrightarrow> sim U (f (Some path) p) (g (Some path) q)"
  shows "sim U (bindO (adv_update_merkle_node (advice_provider P) p root d i w) (\<lambda>(path, p). f path p))
      (bindO (adv_update_merkle_node (advice_provider Q) q root d i w) (\<lambda>(path, q). g path q))"
  using update_merkle_node_law [OF assms(1)] by (rule sim_bind) (auto intro: assms(2))

lemma sim_read_element [sim_intros]:
  "R p q \<Longrightarrow> (\<And>x. sim U (f x) (g x))
    \<Longrightarrow> sim U (bindO (mem_read_element (memory P) p c a) f) (bindO (mem_read_element (memory Q) q c a) g)"
  by (rule sim_bind_eq [OF read_element_law])

lemma sim_read_word [sim_intros]:
  "R p q \<Longrightarrow> (\<And>x. sim U (f x) (g x))
    \<Longrightarrow> sim U (bindO (mem_read_word (memory P) p c a k) f) (bindO (mem_read_word (memory Q) q c a k) g)"
  by (rule sim_bind_eq [OF read_word_law])

lemma sim_write_element [sim_intros]:
  "R p q \<Longrightarrow> (\<And>p q. R p q \<Longrightarrow> sim U (f p) (g q))
    \<Longrightarrow> sim U (bindO (mem_write_element (memory P) p c a x) f) (bindO (mem_write_element (memory Q) q c a x) g)"
  by (rule sim_bind [OF write_element_law])

lemma sim_write_word [sim_intros]:
  "R p q \<Longrightarrow> (\<And>p q. R p q \<Longrightarrow> sim U (f p) (g q))
    \<Longrightarrow> sim U (bindO (mem_write_word (memory P) p c a k w) f) (bindO (mem_write_word (memory Q) q c a k w) g)"
  by (rule sim_bind [OF write_word_law])

lemma sim_permute [sim_intros]:
  "R p q \<Longrightarrow> (\<And>x. sim U (f x) (g x))
    \<Longrightarrow> sim U (bindO (hsh_permute (hasher P) p st) f) (bindO (hsh_permute (hasher Q) q st) g)"
  by (rule sim_bind_eq [OF permute_law])

lemma sim_verify_merkle_root [sim_intros]:
  "R p q \<Longrightarrow> length path \<le> 255 \<Longrightarrow> (\<And>x. sim U (f x) (g x))
    \<Longrightarrow> sim U (bindO (hsh_verify_merkle_root (hasher P) p root v (Some path) idx e) f)
      (bindO (hsh_verify_merkle_root (hasher Q) q root v (Some path) idx e) g)"
  by (rule sim_bind_eq [OF verify_merkle_root_law])

lemma sim_update_merkle_root [sim_intros]:
  "R p q \<Longrightarrow> length path \<le> 255 \<Longrightarrow> (\<And>x. sim U (f x) (g x))
    \<Longrightarrow> sim U (bindO (hsh_update_merkle_root (hasher P) p root v w (Some path) idx e) f)
      (bindO (hsh_update_merkle_root (hasher Q) q root v w (Some path) idx e) g)"
  by (rule sim_bind_eq [OF update_merkle_root_law])

end

section \<open>Control flow\<close>

text \<open>The methods that only the nodes of a program call: contexts and registers. The clock is left to the contract of a cycle.\<close>

locale machine_sim = processor_sim P Q R
  for P :: "'p processor" and Q :: "'q processor" and R :: "'p \<Rightarrow> 'q \<Rightarrow> bool" +
  assumes start_context_law: "R p q \<Longrightarrow> sim R (stk_start_context (stack P) p) (stk_start_context (stack Q) q)"
    and restore_context_law: "R p q \<Longrightarrow> sim R (stk_restore_context (stack P) p) (stk_restore_context (stack Q) q)"
    and set_caller_hash_law:
      "R p q \<Longrightarrow> R (sys_set_caller_hash (system P) p w) (sys_set_caller_hash (system Q) q w)"
    and set_ctx_law: "R p q \<Longrightarrow> R (sys_set_ctx (system P) p c) (sys_set_ctx (system Q) q c)"
    and save_call_state_law: "R p q \<Longrightarrow> R (sys_save_call_state (system P) p) (sys_save_call_state (system Q) q)"
    and restore_call_state_law:
      "R p q \<Longrightarrow> sim R (sys_restore_call_state (system P) p) (sys_restore_call_state (system Q) q)"
begin

lemma sim_start_context [sim_intros]:
  "R p q \<Longrightarrow> (\<And>p q. R p q \<Longrightarrow> sim U (f p) (g q))
    \<Longrightarrow> sim U (bindO (stk_start_context (stack P) p) f) (bindO (stk_start_context (stack Q) q) g)"
  by (rule sim_bind [OF start_context_law])

lemma sim_restore_context [sim_intros]:
  "R p q \<Longrightarrow> (\<And>p q. R p q \<Longrightarrow> sim U (f p) (g q))
    \<Longrightarrow> sim U (bindO (stk_restore_context (stack P) p) f) (bindO (stk_restore_context (stack Q) q) g)"
  by (rule sim_bind [OF restore_context_law])

lemma sim_restore_call_state [sim_intros]:
  "R p q \<Longrightarrow> (\<And>p q. R p q \<Longrightarrow> sim U (f p) (g q))
    \<Longrightarrow> sim U (bindO (sys_restore_call_state (system P) p) f) (bindO (sys_restore_call_state (system Q) q) g)"
  by (rule sim_bind [OF restore_call_state_law])

lemmas sim_registers [intro] = set_caller_hash_law set_ctx_law save_call_state_law

end

end
