(* ===== verification/Ops_Core.thy ===== *)
theory Ops_Core
  imports Simulation
begin

text \<open>
  The stack, system and field operations of \<open>processor/src/execution/operations\<close>
  (\<open>stack_ops\<close>, \<open>sys_ops\<close>, \<open>field_ops\<close>), written against an arbitrary processor as the handlers are.
  Each returns the helper registers of the row and the new state.
\<close>

section \<open>Stack operations\<close>

definition op_push :: "'p processor \<Rightarrow> 'p \<Rightarrow> felt \<Rightarrow> 'p op_result" where
  "op_push P p element =
    bindO (sinc P p) (\<lambda>p. bindO (sset P p 0 element) (\<lambda>p. Ok (HEmpty, p)))"

definition op_pad :: "'p processor \<Rightarrow> 'p \<Rightarrow> 'p op_result" where
  "op_pad P p =
    bindO (sinc P p) (\<lambda>p. bindO (sset P p 0 0) (\<lambda>p. Ok (HEmpty, p)))"

definition op_swap :: "'p processor \<Rightarrow> 'p \<Rightarrow> 'p op_result" where
  "op_swap P p = bindO (sswap P p 0 1) (\<lambda>p. Ok (HEmpty, p))"

definition op_swap_double_word :: "'p processor \<Rightarrow> 'p \<Rightarrow> 'p op_result" where
  "op_swap_double_word P p =
    bindO (sswap P p 0 8) (\<lambda>p. bindO (sswap P p 1 9) (\<lambda>p. bindO (sswap P p 2 10) (\<lambda>p.
    bindO (sswap P p 3 11) (\<lambda>p. bindO (sswap P p 4 12) (\<lambda>p. bindO (sswap P p 5 13) (\<lambda>p.
    bindO (sswap P p 6 14) (\<lambda>p. bindO (sswap P p 7 15) (\<lambda>p. Ok (HEmpty, p)))))))))"

definition dup_nth :: "'p processor \<Rightarrow> 'p \<Rightarrow> nat \<Rightarrow> 'p op_result" where
  "dup_nth P p n =
    bindO (sget P p n) (\<lambda>to_dup.
    bindO (sinc P p) (\<lambda>p. bindO (sset P p 0 to_dup) (\<lambda>p. Ok (HEmpty, p))))"

definition op_cswap :: "'p processor \<Rightarrow> 'p \<Rightarrow> 'p op_result" where
  "op_cswap P p =
    bindO (sget P p 0) (\<lambda>condition. bindO (sdec P p) (\<lambda>p.
    if as_canonical_u64 condition = 0 then Ok (HEmpty, p)
    else if as_canonical_u64 condition = 1 then bindO (sswap P p 0 1) (\<lambda>p. Ok (HEmpty, p))
    else Err (OperationErr (NotBinaryValue CtxOperation condition))))"

definition op_cswapw :: "'p processor \<Rightarrow> 'p \<Rightarrow> 'p op_result" where
  "op_cswapw P p =
    bindO (sget P p 0) (\<lambda>condition. bindO (sdec P p) (\<lambda>p.
    if as_canonical_u64 condition = 0 then Ok (HEmpty, p)
    else if as_canonical_u64 condition = 1
    then bindO (sswap P p 0 4) (\<lambda>p. bindO (sswap P p 1 5) (\<lambda>p.
         bindO (sswap P p 2 6) (\<lambda>p. bindO (sswap P p 3 7) (\<lambda>p. Ok (HEmpty, p)))))
    else Err (OperationErr (NotBinaryValue CtxOperation condition))))"

section \<open>System operations\<close>

definition op_assert :: "'p processor \<Rightarrow> 'p \<Rightarrow> felt \<Rightarrow> 'p op_result" where
  "op_assert P p err_code =
    bindO (sget P p 0) (\<lambda>top.
    if top \<noteq> 1 then Err (OperationErr (FailedAssertion err_code))
    else bindO (sdec P p) (\<lambda>p. Ok (HEmpty, p)))"

definition op_sdepth :: "'p processor \<Rightarrow> 'p \<Rightarrow> 'p op_result" where
  "op_sdepth P p =
    bindO (stk_depth (stack P) p) (\<lambda>depth.
    bindO (sinc P p) (\<lambda>p. bindO (sset P p 0 (from_u32 depth)) (\<lambda>p. Ok (HEmpty, p))))"

definition op_caller :: "'p processor \<Rightarrow> 'p \<Rightarrow> 'p op_result" where
  "op_caller P p =
    (let caller_hash = sys_caller_hash (system P) p in
     bindO (sset_word P p 0 caller_hash) (\<lambda>p. Ok (HEmpty, p)))"

definition op_clk :: "'p processor \<Rightarrow> 'p \<Rightarrow> 'p op_result" where
  "op_clk P p =
    (let clk = sys_clock (system P) p in
     bindO (sinc P p) (\<lambda>p. bindO (sset P p 0 (from_u32 clk)) (\<lambda>p. Ok (HEmpty, p))))"

section \<open>Field operations\<close>

definition pop2_applyfn_push :: "'p processor \<Rightarrow> 'p \<Rightarrow> (felt \<Rightarrow> felt \<Rightarrow> felt) \<Rightarrow> 'p exec" where
  "pop2_applyfn_push P p f =
    bindO (sget P p 0) (\<lambda>b. bindO (sget P p 1) (\<lambda>a.
    bindO (sdec P p) (\<lambda>p. sset P p 0 (f a b))))"

definition pop2_applyfn_push_op ::
    "'p processor \<Rightarrow> 'p \<Rightarrow> (felt \<Rightarrow> felt \<Rightarrow> felt exec) \<Rightarrow> 'p exec" where
  "pop2_applyfn_push_op P p f =
    bindO (sget P p 0) (\<lambda>b. bindO (sget P p 1) (\<lambda>a.
    bindO (sdec P p) (\<lambda>p. bindO (f a b) (\<lambda>r. sset P p 0 r))))"

definition assert_binary :: "felt \<Rightarrow> unit exec" where
  "assert_binary value =
    (if value \<noteq> 0 \<and> value \<noteq> 1 then Err (OperationErr (NotBinaryValue CtxOperation value)) else Ok ())"

definition op_add :: "'p processor \<Rightarrow> 'p \<Rightarrow> 'p op_result" where
  "op_add P p = bindO (pop2_applyfn_push P p (\<lambda>a b. a + b)) (\<lambda>p. Ok (HEmpty, p))"

definition op_neg :: "'p processor \<Rightarrow> 'p \<Rightarrow> 'p op_result" where
  "op_neg P p =
    bindO (sget P p 0) (\<lambda>element. bindO (sset P p 0 (- element)) (\<lambda>p. Ok (HEmpty, p)))"

definition op_mul :: "'p processor \<Rightarrow> 'p \<Rightarrow> 'p op_result" where
  "op_mul P p = bindO (pop2_applyfn_push P p (\<lambda>a b. a * b)) (\<lambda>p. Ok (HEmpty, p))"

definition op_inv :: "'p processor \<Rightarrow> 'p \<Rightarrow> 'p op_result" where
  "op_inv P p =
    bindO (sget P p 0) (\<lambda>top.
    if top = 0 then Err (OperationErr DivideByZero)
    else bindO (sset P p 0 (inverse top)) (\<lambda>p. Ok (HEmpty, p)))"

definition op_incr :: "'p processor \<Rightarrow> 'p \<Rightarrow> 'p op_result" where
  "op_incr P p =
    bindO (sget P p 0) (\<lambda>top. bindO (sset P p 0 (top + 1)) (\<lambda>p. Ok (HEmpty, p)))"

definition op_and :: "'p processor \<Rightarrow> 'p \<Rightarrow> 'p op_result" where
  "op_and P p =
    bindO (pop2_applyfn_push_op P p (\<lambda>a b.
      bindO (assert_binary b) (\<lambda>_. bindO (assert_binary a) (\<lambda>_.
        if a = 1 \<and> b = 1 then Ok 1 else Ok 0)))) (\<lambda>p. Ok (HEmpty, p))"

definition op_or :: "'p processor \<Rightarrow> 'p \<Rightarrow> 'p op_result" where
  "op_or P p =
    bindO (pop2_applyfn_push_op P p (\<lambda>a b.
      bindO (assert_binary b) (\<lambda>_. bindO (assert_binary a) (\<lambda>_.
        if a = 1 \<or> b = 1 then Ok 1 else Ok 0)))) (\<lambda>p. Ok (HEmpty, p))"

definition op_not :: "'p processor \<Rightarrow> 'p \<Rightarrow> 'p op_result" where
  "op_not P p =
    bindO (sget P p 0) (\<lambda>top.
    if top = 0 then bindO (sset P p 0 1) (\<lambda>p. Ok (HEmpty, p))
    else if top = 1 then bindO (sset P p 0 0) (\<lambda>p. Ok (HEmpty, p))
    else Err (OperationErr (NotBinaryValue CtxOperation top)))"

definition op_eq :: "'p processor \<Rightarrow> 'p \<Rightarrow> 'p op_result" where
  "op_eq P p =
    bindO (sget P p 0) (\<lambda>b. bindO (sget P p 1) (\<lambda>a.
    bindO (sdec P p) (\<lambda>p.
    let result = (if a = b then 1 else 0) in
    bindO (sset P p 0 result) (\<lambda>p. Ok (HEq a b, p)))))"

definition op_eqz :: "'p processor \<Rightarrow> 'p \<Rightarrow> 'p op_result" where
  "op_eqz P p =
    bindO (sget P p 0) (\<lambda>old_top.
    bindO (sset P p 0 (if old_top = 0 then 1 else 0)) (\<lambda>p. Ok (HEqz old_top, p)))"

definition op_expacc :: "'p processor \<Rightarrow> 'p \<Rightarrow> 'p op_result" where
  "op_expacc P p =
    bindO (sget P p 1) (\<lambda>old_base. bindO (sget P p 2) (\<lambda>old_acc. bindO (sget P p 3) (\<lambda>old_exp.
    let old_exp_int = as_canonical_u64 old_exp;
        new_exp = new_unchecked (drop_bit 1 old_exp_int);
        exp_lsb = old_exp_int AND 1;
        acc_update_val = (if exp_lsb = 1 then old_base else 1);
        new_acc = old_acc * acc_update_val;
        new_base = old_base * old_base in
    bindO (sset P p 0 (new_unchecked exp_lsb)) (\<lambda>p. bindO (sset P p 1 new_base) (\<lambda>p.
    bindO (sset P p 2 new_acc) (\<lambda>p. bindO (sset P p 3 new_exp) (\<lambda>p.
      Ok (HExpacc acc_update_val, p))))))))"

definition op_ext2mul :: "'p processor \<Rightarrow> 'p \<Rightarrow> 'p op_result" where
  "op_ext2mul P p =
    bindO (sget_word P p 0) (\<lambda>w.
    let b0 = word_a w; b1 = word_b w; a0 = word_c w; a1 = word_d w;
        b0_times_a0 = b0 * a0;
        b1_times_a1 = b1 * a1;
        c1 = (b0 + b1) * (a1 + a0) - b0_times_a0 - b1_times_a1;
        c0 = b0_times_a0 + 7 * b1_times_a1 in
    bindO (sset P p 2 c0) (\<lambda>p. bindO (sset P p 3 c1) (\<lambda>p. Ok (HEmpty, p))))"

section \<open>Simulation\<close>

lemma assert_binary_safe: "assert_binary x \<noteq> Panic"
  by (simp add: assert_binary_def)

context processor_sim
begin

lemma stack_ops_sim:
  assumes "R p q"
  shows "sim (rel_op R) (op_push P p x) (op_push Q q x)" "sim (rel_op R) (op_pad P p) (op_pad Q q)"
    "sim (rel_op R) (op_swap P p) (op_swap Q q)"
    "sim (rel_op R) (op_swap_double_word P p) (op_swap_double_word Q q)"
    "n < 16 \<Longrightarrow> sim (rel_op R) (dup_nth P p n) (dup_nth Q q n)"
    "sim (rel_op R) (op_cswap P p) (op_cswap Q q)" "sim (rel_op R) (op_cswapw P p) (op_cswapw Q q)"
  unfolding op_push_def op_pad_def op_swap_def op_swap_double_word_def dup_nth_def op_cswap_def op_cswapw_def
  using assms by (intro sim_intros; simp)+

lemma sys_ops_sim:
  assumes "R p q"
  shows "sim (rel_op R) (op_assert P p e) (op_assert Q q e)" "sim (rel_op R) (op_sdepth P p) (op_sdepth Q q)"
    "sim (rel_op R) (op_caller P p) (op_caller Q q)" "sim (rel_op R) (op_clk P p) (op_clk Q q)"
  unfolding op_assert_def op_sdepth_def op_caller_def op_clk_def
  using assms by (intro sim_intros; simp)+

lemma field_ops_sim:
  assumes "R p q"
  shows "sim (rel_op R) (op_add P p) (op_add Q q)" "sim (rel_op R) (op_neg P p) (op_neg Q q)"
    "sim (rel_op R) (op_mul P p) (op_mul Q q)" "sim (rel_op R) (op_inv P p) (op_inv Q q)"
    "sim (rel_op R) (op_incr P p) (op_incr Q q)" "sim (rel_op R) (op_not P p) (op_not Q q)"
    "sim (rel_op R) (op_eq P p) (op_eq Q q)" "sim (rel_op R) (op_eqz P p) (op_eqz Q q)"
    "sim (rel_op R) (op_expacc P p) (op_expacc Q q)" "sim (rel_op R) (op_ext2mul P p) (op_ext2mul Q q)"
  unfolding op_add_def op_neg_def op_mul_def op_inv_def op_incr_def op_not_def op_eq_def op_eqz_def
    op_expacc_def op_ext2mul_def pop2_applyfn_push_def bindO_assoc
  using assms by (intro sim_intros; simp)+

lemma binary_ops_sim:
  assumes "R p q"
  shows "sim (rel_op R) (op_and P p) (op_and Q q)" "sim (rel_op R) (op_or P p) (op_or Q q)"
  unfolding op_and_def op_or_def pop2_applyfn_push_op_def bindO_assoc
  using assms by (intro sim_intros sim_value assert_binary_safe; simp)+

end

end
