(* ===== verification/Ops_U32.thy ===== *)
theory Ops_U32
  imports Ops_Core
begin

text \<open>
  The 32-bit operations of \<open>processor/src/execution/operations/u32_ops/mod.rs\<close>. Their arithmetic is done
  on \<open>u64\<close>, and a result that is meant to fit is made into an element without a reduction; the
  additions and products that would panic on overflow in a debug build are checked.
\<close>

section \<open>Operations\<close>

definition U32_MAX :: u64 where
  "U32_MAX = 0xFFFFFFFF"

text \<open>\<open>a + b\<close>, \<open>a * b\<close> and \<open>a - b\<close> on \<open>u64\<close>; an overflow is a panic.\<close>

definition add_u64 :: "u64 \<Rightarrow> u64 \<Rightarrow> ('e, u64) outcome" where
  "add_u64 a b = (if unat a + unat b < 2 ^ 64 then Ok (a + b) else Panic)"

definition mul_u64 :: "u64 \<Rightarrow> u64 \<Rightarrow> ('e, u64) outcome" where
  "mul_u64 a b = (if unat a * unat b < 2 ^ 64 then Ok (a * b) else Panic)"

definition sub_u64 :: "u64 \<Rightarrow> u64 \<Rightarrow> ('e, u64) outcome" where
  "sub_u64 a b = (if unat b \<le> unat a then Ok (a - b) else Panic)"

definition is_u32 :: "felt \<Rightarrow> bool" where
  "is_u32 x \<longleftrightarrow> \<not> as_canonical_u64 x > U32_MAX"

definition require_u32_operands2 :: "'p processor \<Rightarrow> 'p \<Rightarrow> (felt \<times> felt) exec" where
  "require_u32_operands2 P p =
    bindO (sget P p 0) (\<lambda>operand_0. bindO (sget P p 1) (\<lambda>operand_1.
    let invalid_values = filter (\<lambda>x. \<not> is_u32 x) [operand_0, operand_1] in
    if invalid_values \<noteq> [] then Err (OperationErr (NotU32Values invalid_values))
    else Ok (operand_0, operand_1)))"

definition require_u32_operands3 :: "'p processor \<Rightarrow> 'p \<Rightarrow> (felt \<times> felt \<times> felt) exec" where
  "require_u32_operands3 P p =
    bindO (sget P p 0) (\<lambda>operand_0. bindO (sget P p 1) (\<lambda>operand_1. bindO (sget P p 2) (\<lambda>operand_2.
    let invalid_values = filter (\<lambda>x. \<not> is_u32 x) [operand_0, operand_1, operand_2] in
    if invalid_values \<noteq> [] then Err (OperationErr (NotU32Values invalid_values))
    else Ok (operand_0, operand_1, operand_2))))"

definition split_element :: "felt \<Rightarrow> felt \<times> felt" where
  "split_element value =
    (let v = as_canonical_u64 value; lo = (ucast (ucast v :: u32) :: u64); hi = drop_bit 32 v in
     (new_unchecked hi, new_unchecked lo))"

definition op_u32split :: "'p processor \<Rightarrow> 'p \<Rightarrow> 'p op_result" where
  "op_u32split P p =
    bindO (sget P p 0) (\<lambda>top.
    let (top_hi, top_lo) = split_element top in
    bindO (sinc P p) (\<lambda>p. bindO (sset P p 0 top_lo) (\<lambda>p. bindO (sset P p 1 top_hi) (\<lambda>p.
      Ok (HU32Split top_lo top_hi, p)))))"

definition op_u32add :: "'p processor \<Rightarrow> 'p \<Rightarrow> 'p op_result" where
  "op_u32add P p =
    bindO (require_u32_operands2 P p) (\<lambda>(a, b).
    bindO (add_u64 (as_canonical_u64 a) (as_canonical_u64 b)) (\<lambda>r.
    let (carry, sum) = split_element (new_unchecked r) in
    bindO (sset P p 0 sum) (\<lambda>p. bindO (sset P p 1 carry) (\<lambda>p. Ok (HU32Add sum carry, p)))))"

definition op_u32add3 :: "'p processor \<Rightarrow> 'p \<Rightarrow> 'p op_result" where
  "op_u32add3 P p =
    bindO (require_u32_operands3 P p) (\<lambda>(a, b, c).
    bindO (add_u64 (as_canonical_u64 a) (as_canonical_u64 b)) (\<lambda>r.
    bindO (add_u64 r (as_canonical_u64 c)) (\<lambda>r.
    let (carry, sum) = split_element (new_unchecked r) in
    bindO (sdec P p) (\<lambda>p. bindO (sset P p 0 sum) (\<lambda>p. bindO (sset P p 1 carry) (\<lambda>p.
      Ok (HU32Add3 sum carry, p)))))))"

definition op_u32sub :: "'p processor \<Rightarrow> 'p \<Rightarrow> 'p op_result" where
  "op_u32sub P p =
    bindO (require_u32_operands2 P p) (\<lambda>(b, a).
    let result = as_canonical_u64 a - as_canonical_u64 b;
        borrow = new_unchecked (drop_bit 63 result);
        diff = new_unchecked (result AND U32_MAX) in
    bindO (sset P p 0 borrow) (\<lambda>p. bindO (sset P p 1 diff) (\<lambda>p. Ok (HU32Sub diff, p))))"

definition op_u32mul :: "'p processor \<Rightarrow> 'p \<Rightarrow> 'p op_result" where
  "op_u32mul P p =
    bindO (require_u32_operands2 P p) (\<lambda>(a, b).
    bindO (mul_u64 (as_canonical_u64 a) (as_canonical_u64 b)) (\<lambda>r.
    let (hi, lo) = split_element (new_unchecked r) in
    bindO (sset P p 0 lo) (\<lambda>p. bindO (sset P p 1 hi) (\<lambda>p. Ok (HU32Mul lo hi, p)))))"

definition op_u32madd :: "'p processor \<Rightarrow> 'p \<Rightarrow> 'p op_result" where
  "op_u32madd P p =
    bindO (require_u32_operands3 P p) (\<lambda>(a, b, c).
    bindO (mul_u64 (as_canonical_u64 a) (as_canonical_u64 b)) (\<lambda>r.
    bindO (add_u64 r (as_canonical_u64 c)) (\<lambda>r.
    let (hi, lo) = split_element (new_unchecked r) in
    bindO (sdec P p) (\<lambda>p. bindO (sset P p 0 lo) (\<lambda>p. bindO (sset P p 1 hi) (\<lambda>p.
      Ok (HU32Madd lo hi, p)))))))"

definition op_u32div :: "'p processor \<Rightarrow> 'p \<Rightarrow> 'p op_result" where
  "op_u32div P p =
    bindO (require_u32_operands2 P p) (\<lambda>(b, a).
    let denominator = as_canonical_u64 b; numerator = as_canonical_u64 a in
    if denominator = 0 then Err (OperationErr DivideByZero)
    else
      let quotient = numerator div denominator in
      bindO (mul_u64 quotient denominator) (\<lambda>m. bindO (sub_u64 numerator m) (\<lambda>remainder.
      bindO (sset P p 0 (new_unchecked remainder)) (\<lambda>p.
      bindO (sset P p 1 (new_unchecked quotient)) (\<lambda>p.
      bindO (sub_u64 denominator remainder) (\<lambda>d. bindO (sub_u64 d 1) (\<lambda>d.
        Ok (HU32Div (new_unchecked quotient) (new_unchecked remainder) (new_unchecked d), p))))))))"

definition op_u32and :: "'p processor \<Rightarrow> 'p \<Rightarrow> 'p op_result" where
  "op_u32and P p =
    bindO (require_u32_operands2 P p) (\<lambda>(a, b).
    let result = as_canonical_u64 a AND as_canonical_u64 b in
    bindO (sdec P p) (\<lambda>p. bindO (sset P p 0 (new_unchecked result)) (\<lambda>p. Ok (HEmpty, p))))"

definition op_u32xor :: "'p processor \<Rightarrow> 'p \<Rightarrow> 'p op_result" where
  "op_u32xor P p =
    bindO (require_u32_operands2 P p) (\<lambda>(a, b).
    let result = as_canonical_u64 a XOR as_canonical_u64 b in
    bindO (sdec P p) (\<lambda>p. bindO (sset P p 0 (new_unchecked result)) (\<lambda>p. Ok (HEmpty, p))))"

definition op_u32assert2 :: "'p processor \<Rightarrow> 'p \<Rightarrow> felt \<Rightarrow> 'p op_result" where
  "op_u32assert2 P p err_code =
    bindO (sget P p 0) (\<lambda>first. bindO (sget P p 1) (\<lambda>second.
    let first_invalid = \<not> is_u32 first; second_invalid = \<not> is_u32 second in
    if first_invalid \<or> second_invalid
    then
      let invalid_values = (if first_invalid then [first] else []) @ (if second_invalid then [second] else []) in
      if err_code \<noteq> 0 then Err (OperationErr (U32AssertionFailed err_code invalid_values))
      else Err (OperationErr (NotU32Values invalid_values))
    else Ok (HU32Assert2 first second, p)))"

section \<open>Arithmetic on 32-bit operands\<close>

lemma is_u32_iff: "is_u32 x \<longleftrightarrow> val x < 2 ^ 32"
  by (auto simp: is_u32_def U32_MAX_def word_less_nat_alt unat_as_canonical)

lemma require_u32_invalid: "filter (\<lambda>x. \<not> is_u32 x) xs = [] \<longleftrightarrow> (\<forall>x \<in> set xs. val x < 2 ^ 32)"
  by (simp add: filter_empty_conv is_u32_iff)

lemma u32_mult_bound:
  assumes "a < 2 ^ 32" "b < (2 :: nat) ^ 32"
  shows "a * b \<le> (2 ^ 32 - 1) * (2 ^ 32 - 1)"
  using assms by (intro mult_le_mono) auto

lemma add_u64_Ok: "unat a + unat b < 2 ^ 64 \<Longrightarrow> add_u64 a b = Ok (a + b) \<and> unat (a + b) = unat a + unat b"
  by (simp add: add_u64_def unat_word_ariths)

lemma mul_u64_Ok: "unat a * unat b < 2 ^ 64 \<Longrightarrow> mul_u64 a b = Ok (a * b) \<and> unat (a * b) = unat a * unat b"
  by (simp add: mul_u64_def unat_word_ariths)

lemma sub_u64_Ok: "unat b \<le> unat a \<Longrightarrow> sub_u64 a b = Ok (a - b) \<and> unat (a - b) = unat a - unat b"
  by (simp add: sub_u64_def unat_sub word_le_nat_alt)

lemma new_unchecked_of_nat: "new_unchecked w = of_nat (unat w)"
  by (simp add: new_unchecked_def)

lemma split_element_eq: "split_element x = (of_nat (val x div 2 ^ 32), of_nat (val x mod 2 ^ 32))"
proof -
  have "unat (drop_bit 32 (as_canonical_u64 x)) = val x div 2 ^ 32"
    by (simp add: drop_bit_eq_div unat_div)
  moreover have "unat (ucast (ucast (as_canonical_u64 x) :: u32) :: u64) = val x mod 2 ^ 32"
    by (simp add: unsigned_ucast_eq take_bit_eq_mod unat_mod)
  ultimately show ?thesis
    by (simp only: split_element_def Let_def new_unchecked_of_nat)
qed

text \<open>A sum or a product of 32-bit operands is below the modulus, so splitting it gives its halves.\<close>

lemma split_exact:
  assumes "unat w < 18446744069414584321"
  shows "split_element (new_unchecked w) = (of_nat (unat w div 2 ^ 32), of_nat (unat w mod 2 ^ 32))"
  using assms by (simp add: split_element_eq val_new_unchecked)

section \<open>Simulation\<close>

lemma sim_add_u64:
  "unat a + unat b < 2 ^ 64 \<Longrightarrow> (unat (a + b) = unat a + unat b \<Longrightarrow> sim U (f (a + b)) (g (a + b)))
    \<Longrightarrow> sim U (bindO (add_u64 a b) f) (bindO (add_u64 a b) g)"
  by (simp add: add_u64_Ok)

lemma sim_mul_u64:
  "unat a * unat b < 2 ^ 64 \<Longrightarrow> (unat (a * b) = unat a * unat b \<Longrightarrow> sim U (f (a * b)) (g (a * b)))
    \<Longrightarrow> sim U (bindO (mul_u64 a b) f) (bindO (mul_u64 a b) g)"
  by (simp add: mul_u64_Ok)

lemma sim_sub_u64:
  "unat b \<le> unat a \<Longrightarrow> (unat (a - b) = unat a - unat b \<Longrightarrow> sim U (f (a - b)) (g (a - b)))
    \<Longrightarrow> sim U (bindO (sub_u64 a b) f) (bindO (sub_u64 a b) g)"
  by (simp add: sub_u64_Ok)

lemma u32_sums:
  assumes "val a < 2 ^ 32" "val b < 2 ^ 32" "val c < 2 ^ 32"
  shows "val a + val b < 2 ^ 64" "val a + val b + val c < 2 ^ 64" "val a * val b < 2 ^ 64"
    "val a * val b + val c < 18446744069414584321"
  using assms u32_mult_bound [OF assms(1,2)] by auto

lemma div_mult_u64: "val a div val b * val b < 18446744073709551616"
  using div_times_less_eq_dividend [of "val a" "val b"] val_less [of a] by linarith

lemma val_mod_less: "b \<noteq> 0 \<Longrightarrow> val a mod val b < val b"
  by (rule mod_less_divisor) (simp add: neq0_conv [symmetric] del: neq0_conv)

context processor_sim
begin

lemma sim_require_u32_operands2 [sim_intros]:
  assumes "R p q" "\<And>a b. val a < 2 ^ 32 \<Longrightarrow> val b < 2 ^ 32 \<Longrightarrow> sim U (f a b) (g a b)"
  shows "sim U (bindO (require_u32_operands2 P p) (\<lambda>(a, b). f a b))
    (bindO (require_u32_operands2 Q q) (\<lambda>(a, b). g a b))"
  unfolding require_u32_operands2_def bindO_assoc
  by (intro sim_get assms(1)) (auto simp: Let_def is_u32_iff intro: assms(2))

lemma sim_require_u32_operands3 [sim_intros]:
  assumes "R p q"
    "\<And>a b c. val a < 2 ^ 32 \<Longrightarrow> val b < 2 ^ 32 \<Longrightarrow> val c < 2 ^ 32 \<Longrightarrow> sim U (f a b c) (g a b c)"
  shows "sim U (bindO (require_u32_operands3 P p) (\<lambda>(a, b, c). f a b c))
    (bindO (require_u32_operands3 Q q) (\<lambda>(a, b, c). g a b c))"
  unfolding require_u32_operands3_def bindO_assoc
  by (intro sim_get assms(1)) (auto simp: Let_def is_u32_iff intro: assms(2))

lemma u32_ops_sim:
  assumes "R p q"
  shows "sim (rel_op R) (op_u32split P p) (op_u32split Q q)"
    "sim (rel_op R) (op_u32add P p) (op_u32add Q q)" "sim (rel_op R) (op_u32sub P p) (op_u32sub Q q)"
    "sim (rel_op R) (op_u32and P p) (op_u32and Q q)" "sim (rel_op R) (op_u32xor P p) (op_u32xor Q q)"
    "sim (rel_op R) (op_u32assert2 P p e) (op_u32assert2 Q q e)"
  unfolding op_u32split_def op_u32add_def op_u32sub_def op_u32and_def op_u32xor_def op_u32assert2_def
  using assms by (intro sim_intros sim_add_u64; simp)+

lemma u32_wide_ops_sim:
  assumes "R p q"
  shows "sim (rel_op R) (op_u32add3 P p) (op_u32add3 Q q)"
    "sim (rel_op R) (op_u32mul P p) (op_u32mul Q q)" "sim (rel_op R) (op_u32madd P p) (op_u32madd Q q)"
  unfolding op_u32add3_def op_u32mul_def op_u32madd_def
  using assms u32_sums by (intro sim_intros sim_add_u64 sim_mul_u64; fastforce)+

lemma u32div_sim:
  assumes "R p q"
  shows "sim (rel_op R) (op_u32div P p) (op_u32div Q q)"
  unfolding op_u32div_def Let_def
  by (intro sim_intros sim_mul_u64 sim_sub_u64 assms)
    (auto simp: unat_div div_mult_u64 minus_div_mult_eq_mod word_unat_eq_iff Suc_le_eq val_mod_less
      intro: less_imp_le)

end

end
