(* ===== verification/Ops_Io.thy ===== *)
theory Ops_Io
  imports Ops_Core
begin

text \<open>
  The input and output operations of \<open>processor/src/execution/operations/io_ops/mod.rs\<close>: reading the
  advice stack, and moving elements and words between the operand stack and the memory of the current
  context.
\<close>

section \<open>Operations\<close>

definition WORD_SIZE_FELT :: felt where
  "WORD_SIZE_FELT = 4"

definition DOUBLE_WORD_SIZE :: felt where
  "DOUBLE_WORD_SIZE = 8"

definition op_advpop :: "'p processor \<Rightarrow> 'p \<Rightarrow> 'p op_result" where
  "op_advpop P p =
    bindO (adv_pop_stack (advice_provider P) p) (\<lambda>(value, p).
    bindO (sinc P p) (\<lambda>p. bindO (sset P p 0 value) (\<lambda>p. Ok (HEmpty, p))))"

definition op_advpopw :: "'p processor \<Rightarrow> 'p \<Rightarrow> 'p op_result" where
  "op_advpopw P p =
    bindO (adv_pop_stack_word (advice_provider P) p) (\<lambda>(word, p).
    bindO (sset_word P p 0 word) (\<lambda>p. Ok (HEmpty, p)))"

definition op_mloadw :: "'p processor \<Rightarrow> 'p \<Rightarrow> 'p op_result" where
  "op_mloadw P p =
    bindO (sget P p 0) (\<lambda>addr.
    let c = sys_ctx (system P) p in let k = sys_clock (system P) p in
    bindO (sdec P p) (\<lambda>p.
    bindO (mem_read_word (memory P) p c addr k) (\<lambda>word.
    bindO (sset_word P p 0 word) (\<lambda>p. Ok (HEmpty, p)))))"

definition op_mstorew :: "'p processor \<Rightarrow> 'p \<Rightarrow> 'p op_result" where
  "op_mstorew P p =
    bindO (sget P p 0) (\<lambda>addr.
    bindO (sget P p 1) (\<lambda>w0. bindO (sget P p 2) (\<lambda>w1. bindO (sget P p 3) (\<lambda>w2. bindO (sget P p 4) (\<lambda>w3.
    let word = QWord w0 w1 w2 w3 in
    let c = sys_ctx (system P) p in let k = sys_clock (system P) p in
    bindO (sdec P p) (\<lambda>p.
    bindO (mem_write_word (memory P) p c addr k word) (\<lambda>p. Ok (HEmpty, p))))))))"

definition op_mload :: "'p processor \<Rightarrow> 'p \<Rightarrow> 'p op_result" where
  "op_mload P p =
    (let c = sys_ctx (system P) p in
    bindO (sget P p 0) (\<lambda>addr.
    bindO (mem_read_element (memory P) p c addr) (\<lambda>element.
    bindO (sset P p 0 element) (\<lambda>p. Ok (HEmpty, p)))))"

definition op_mstore :: "'p processor \<Rightarrow> 'p \<Rightarrow> 'p op_result" where
  "op_mstore P p =
    bindO (sget P p 0) (\<lambda>addr. bindO (sget P p 1) (\<lambda>value.
    let c = sys_ctx (system P) p in
    bindO (sdec P p) (\<lambda>p.
    bindO (mem_write_element (memory P) p c addr value) (\<lambda>p. Ok (HEmpty, p)))))"

definition op_mstream :: "'p processor \<Rightarrow> 'p \<Rightarrow> 'p op_result" where
  "op_mstream P p =
    (let c = sys_ctx (system P) p in let k = sys_clock (system P) p in
    bindO (sget P p 12) (\<lambda>addr_first_word.
    let addr_second_word = addr_first_word + WORD_SIZE_FELT in
    bindO (mem_read_word (memory P) p c addr_first_word k) (\<lambda>first_word.
    bindO (mem_read_word (memory P) p c addr_second_word k) (\<lambda>second_word.
    bindO (sset_word P p 0 first_word) (\<lambda>p. bindO (sset_word P p 4 second_word) (\<lambda>p.
    bindO (sset P p 12 (addr_first_word + DOUBLE_WORD_SIZE)) (\<lambda>p. Ok (HEmpty, p))))))))"

definition op_pipe :: "'p processor \<Rightarrow> 'p \<Rightarrow> 'p op_result" where
  "op_pipe P p =
    (let k = sys_clock (system P) p in let c = sys_ctx (system P) p in
    bindO (sget P p 12) (\<lambda>addr_first_word.
    let addr_second_word = addr_first_word + WORD_SIZE_FELT in
    bindO (adv_pop_stack_dword (advice_provider P) p) (\<lambda>((word0, word1), p).
    bindO (mem_write_word (memory P) p c addr_first_word k word0) (\<lambda>p.
    bindO (mem_write_word (memory P) p c addr_second_word k word1) (\<lambda>p.
    bindO (sset_word P p 0 word0) (\<lambda>p. bindO (sset_word P p 4 word1) (\<lambda>p.
    bindO (sset P p 12 (addr_first_word + DOUBLE_WORD_SIZE)) (\<lambda>p. Ok (HEmpty, p)))))))))"

section \<open>Simulation\<close>

context processor_sim
begin

lemma io_ops_sim:
  assumes "R p q"
  shows "sim (rel_op R) (op_advpop P p) (op_advpop Q q)" "sim (rel_op R) (op_advpopw P p) (op_advpopw Q q)"
    "sim (rel_op R) (op_mloadw P p) (op_mloadw Q q)" "sim (rel_op R) (op_mstorew P p) (op_mstorew Q q)"
    "sim (rel_op R) (op_mload P p) (op_mload Q q)" "sim (rel_op R) (op_mstore P p) (op_mstore Q q)"
    "sim (rel_op R) (op_mstream P p) (op_mstream Q q)" "sim (rel_op R) (op_pipe P p) (op_pipe Q q)"
  unfolding op_advpop_def op_advpopw_def op_mloadw_def op_mstorew_def op_mload_def op_mstore_def
    op_mstream_def op_pipe_def
  using assms by (intro sim_intros; simp)+

end

end
