(* ===== verification/Ops_Fri.thy ===== *)
theory Ops_Fri
  imports Ops_Core
begin

text \<open>
  The FRI folding operation of \<open>processor/src/execution/operations/fri_ops/mod.rs\<close>. The four values of a
  query are folded in two steps; folding is evaluation at the challenge of the polynomial of degree
  three through the four values on the coset.
\<close>

section \<open>Constants and helpers\<close>

definition EIGHT :: felt where
  "EIGHT = 8"

definition TWO_INV :: felt where
  "TWO_INV = 9223372034707292161"

definition TAU_INV :: felt where
  "TAU_INV = 18446462594437873665"

definition TAU2_INV :: felt where
  "TAU2_INV = 18446744069414584320"

definition TAU3_INV :: felt where
  "TAU3_INV = 281474976710656"

definition bit_reverse_coset :: "nat \<Rightarrow> nat exec" where
  "bit_reverse_coset coset =
    (if coset = 0 then Ok 0 else if coset = 1 then Ok 2 else if coset = 2 then Ok 1
     else if coset = 3 then Ok 3 else Panic)"

definition get_tau_factor :: "nat \<Rightarrow> felt exec" where
  "get_tau_factor coset =
    (if coset = 0 then Ok 1 else if coset = 1 then Ok TAU_INV else if coset = 2 then Ok TAU2_INV
     else if coset = 3 then Ok TAU3_INV else Panic)"

definition get_coset_flags :: "nat \<Rightarrow> (felt \<times> felt \<times> felt \<times> felt) exec" where
  "get_coset_flags coset =
    (if coset = 0 then Ok (1, 0, 0, 0) else if coset = 1 then Ok (0, 1, 0, 0)
     else if coset = 2 then Ok (0, 0, 1, 0) else if coset = 3 then Ok (0, 0, 0, 1) else Panic)"

text \<open>The four query values, in the order of the stack.\<close>

type_synonym quad4 = "quad \<times> quad \<times> quad \<times> quad"

definition get_query_values :: "'p processor \<Rightarrow> 'p \<Rightarrow> quad4 exec" where
  "get_query_values P p =
    bindO (sget_word P p 0) (\<lambda>v. bindO (sget_word P p 4) (\<lambda>w.
      Ok (Quad (word_a v) (word_b v), Quad (word_c v) (word_d v),
          Quad (word_a w) (word_b w), Quad (word_c w) (word_d w))))"

fun reorder_bitrev4 :: "quad4 \<Rightarrow> quad4" where
  "reorder_bitrev4 (v0, v1, v2, v3) = (v0, v2, v1, v3)"

fun quad4_nth :: "quad4 \<Rightarrow> nat \<Rightarrow> quad exec" where
  "quad4_nth (v0, v1, v2, v3) i = fetch [v0, v1, v2, v3] i"

definition compute_evaluation_points :: "quad \<Rightarrow> felt \<Rightarrow> quad \<times> quad" where
  "compute_evaluation_points alpha x_inv = (let ev = quad_scale alpha x_inv; es = ev * ev in (ev, es))"

definition fold2 :: "quad \<Rightarrow> quad \<Rightarrow> quad \<Rightarrow> quad" where
  "fold2 f_x f_neg_x ep = quad_scale (f_x + f_neg_x + ((f_x - f_neg_x) * ep)) TWO_INV"

fun fold4 :: "quad4 \<Rightarrow> quad \<Rightarrow> quad \<Rightarrow> quad \<times> quad \<times> quad" where
  "fold4 (v0, v1, v2, v3) ev es =
    (let tmp0 = fold2 v0 v2 ev;
         tmp1 = fold2 v1 v3 (quad_scale ev TAU_INV);
         folded_value = fold2 tmp0 tmp1 es in
     (folded_value, tmp0, tmp1))"

section \<open>The operation\<close>

definition op_fri_ext2fold4 :: "'p processor \<Rightarrow> 'p \<Rightarrow> 'p op_result" where
  "op_fri_ext2fold4 P p =
    bindO (get_query_values P p) (\<lambda>query_values.
    let query_values_reordered = reorder_bitrev4 query_values in
    bindO (sget P p 9) (\<lambda>c.
    let coset = as_canonical_u64 c in
    if coset > 3 then Err (OperationErr (FriError (CosetExceeds3 coset)))
    else
      bindO (sget P p 8) (\<lambda>folded_pos. bindO (sget P p 10) (\<lambda>poe.
      if poe = 0 then Err (OperationErr (FriError DomainSizeZero))
      else
        bindO (sget P p 11) (\<lambda>pe0. bindO (sget P p 12) (\<lambda>pe1.
        let prev_value = Quad pe0 pe1 in
        bindO (sget P p 13) (\<lambda>a0. bindO (sget P p 14) (\<lambda>a1.
        let alpha = Quad a0 a1 in
        bindO (sget P p 15) (\<lambda>layer_ptr.
        bindO (bit_reverse_coset (unat coset)) (\<lambda>row_idx.
        bindO (quad4_nth query_values row_idx) (\<lambda>row.
        if row \<noteq> prev_value
        then Err (OperationErr (FriError (InconsistentProjection coset row_idx prev_value row)))
        else
          bindO (get_tau_factor (unat coset)) (\<lambda>f_tau.
          let x = poe * f_tau; x_inv = inverse x in
          let (ev, es) = compute_evaluation_points alpha x_inv in
          let (folded_value, tmp0, tmp1) = fold4 query_values_reordered ev es in
          bindO (get_coset_flags (unat coset)) (\<lambda>(_, flag1, flag2, flag3).
          let poe2 = poe * poe; poe4 = poe2 * poe2 in
          bindO (sdec P p) (\<lambda>p.
          bindO (sset P p 0 (c0 tmp0)) (\<lambda>p. bindO (sset P p 1 (c1 tmp0)) (\<lambda>p.
          bindO (sset P p 2 (c0 tmp1)) (\<lambda>p. bindO (sset P p 3 (c1 tmp1)) (\<lambda>p.
          bindO (sset P p 4 flag1) (\<lambda>p. bindO (sset P p 5 flag2) (\<lambda>p. bindO (sset P p 6 flag3) (\<lambda>p.
          bindO (sset P p 7 poe2) (\<lambda>p.
          let next_layer_ptr = layer_ptr + EIGHT in
          bindO (sset P p 8 next_layer_ptr) (\<lambda>p. bindO (sset P p 9 next_layer_ptr) (\<lambda>p.
          bindO (sset P p 10 poe4) (\<lambda>p. bindO (sset P p 11 folded_pos) (\<lambda>p.
          bindO (sset P p 12 (c0 folded_value)) (\<lambda>p. bindO (sset P p 13 (c1 folded_value)) (\<lambda>p.
          bindO (sset P p 14 next_layer_ptr) (\<lambda>p.
            Ok (HFriExt2Fold4 ev es x x_inv, p))))))))))))))))))))))))))))))"

section \<open>Simulation\<close>

lemma coset_safe:
  assumes "c \<le> 3"
  shows "bit_reverse_coset c \<noteq> Panic" "get_tau_factor c \<noteq> Panic" "get_coset_flags c \<noteq> Panic"
    "bit_reverse_coset c = Ok r \<Longrightarrow> r < 4"
  using assms by (auto simp: bit_reverse_coset_def get_tau_factor_def get_coset_flags_def split: if_splits)

lemma quad4_nth_safe: "i < 4 \<Longrightarrow> quad4_nth vs i \<noteq> Panic"
  by (cases vs) (simp add: fetch_def)

lemma u64_le_3: "\<not> (3 :: u64) < c \<Longrightarrow> unat c \<le> 3"
  by (simp add: word_less_nat_alt)

context processor_sim
begin

lemma sim_get_query_values [sim_intros]:
  assumes "R p q" "\<And>x. sim U (f x) (g x)"
  shows "sim U (bindO (get_query_values P p) f) (bindO (get_query_values Q q) g)"
  unfolding get_query_values_def bindO_assoc bindO.simps
  using assms by (intro sim_intros) simp_all

lemma fri_sim:
  assumes "R p q"
  shows "sim (rel_op R) (op_fri_ext2fold4 P p) (op_fri_ext2fold4 Q q)"
  unfolding op_fri_ext2fold4_def
  by (intro sim_intros sim_value coset_safe quad4_nth_safe u64_le_3 assms; (assumption | simp)?)
    (auto dest!: u64_le_3 coset_safe(4))

end

end
