(* ===== verification/Ops_Crypto.thy ===== *)
theory Ops_Crypto
  imports Ops_Io Ops_U32
begin

text \<open>
  The cryptographic operations of \<open>processor/src/execution/operations/crypto_ops/mod.rs\<close>: the
  permutation, Merkle path verification and update, the two Horner evaluation steps, the log of deferred
  statements and the stream cipher.
\<close>

section \<open>Hashing and Merkle paths\<close>

definition MAX_MERKLE_DEPTH :: nat where
  "MAX_MERKLE_DEPTH = 64"

definition op_hperm :: "'p processor \<Rightarrow> 'p \<Rightarrow> 'p op_result" where
  "op_hperm P p =
    bindO (stk_get_double_word (stack P) p 0) (\<lambda>(rate0, rate1).
    bindO (sget_word P p 8) (\<lambda>capacity.
    bindO (hsh_permute (hasher P) p (rate0, rate1, capacity)) (\<lambda>(addr, r0, r1, cap).
    bindO (sset_word P p 0 r0) (\<lambda>p. bindO (sset_word P p 4 r1) (\<lambda>p. bindO (sset_word P p 8 cap) (\<lambda>p.
      Ok (HHPerm addr, p)))))))"

definition validate_merkle_depth :: "felt \<Rightarrow> unit exec" where
  "validate_merkle_depth depth =
    (let depth_u64 = as_canonical_u64 depth in
     if depth_u64 = 0 \<or> unat depth_u64 > MAX_MERKLE_DEPTH
     then Err (OperationErr (MerkleDepthOutOfRange depth)) else Ok ())"

definition validate_materialized_merkle_path_length :: "nat \<Rightarrow> felt \<Rightarrow> unit exec" where
  "validate_materialized_merkle_path_length path_len expected_depth =
    (if path_len \<noteq> unat (as_canonical_u64 expected_depth)
     then Err (OperationErr (InvalidMerklePathLength path_len expected_depth)) else Ok ())"

definition validate_merkle_path_length :: "merkle_path option \<Rightarrow> felt \<Rightarrow> unit exec" where
  "validate_merkle_path_length path expected_depth =
    (case path of
       Some path \<Rightarrow> validate_materialized_merkle_path_length (length path) expected_depth
     | None \<Rightarrow> Ok ())"

definition op_mpverify :: "'p processor \<Rightarrow> 'p \<Rightarrow> felt \<Rightarrow> 'p op_result" where
  "op_mpverify P p err_code =
    bindO (sget_word P p 0) (\<lambda>node. bindO (sget P p 4) (\<lambda>depth. bindO (sget P p 5) (\<lambda>index.
    bindO (sget_word P p 6) (\<lambda>root.
    bindO (validate_merkle_depth depth) (\<lambda>_.
    bindO (adv_get_merkle_path (advice_provider P) p root depth index) (\<lambda>path.
    bindO (validate_merkle_path_length path depth) (\<lambda>_.
    bindO (hsh_verify_merkle_root (hasher P) p root node path index
      (MerklePathVerificationFailed node index root err_code)) (\<lambda>addr.
      Ok (HMerklePath addr, p)))))))))"

definition op_mrupdate :: "'p processor \<Rightarrow> 'p \<Rightarrow> 'p op_result" where
  "op_mrupdate P p =
    bindO (sget_word P p 0) (\<lambda>old_value. bindO (sget P p 4) (\<lambda>depth. bindO (sget P p 5) (\<lambda>index.
    bindO (sget_word P p 6) (\<lambda>claimed_old_root. bindO (sget_word P p 10) (\<lambda>new_value.
    bindO (validate_merkle_depth depth) (\<lambda>_.
    bindO (adv_update_merkle_node (advice_provider P) p claimed_old_root depth index new_value) (\<lambda>(path, p).
    bindO (validate_merkle_path_length path depth) (\<lambda>_.
    bindO (hsh_update_merkle_root (hasher P) p claimed_old_root old_value new_value path index
      (MerklePathVerificationFailed old_value index claimed_old_root 0)) (\<lambda>(addr, new_root).
    bindO (sset_word P p 0 new_root) (\<lambda>p. Ok (HMerklePath addr, p)))))))))))"

section \<open>Horner evaluation\<close>

definition read_horner_eval_point :: "'p processor \<Rightarrow> 'p \<Rightarrow> felt \<Rightarrow> quad exec" where
  "read_horner_eval_point P p addr =
    (let k = sys_clock (system P) p in let c = sys_ctx (system P) p in
    bindO (mem_read_word (memory P) p c addr k) (\<lambda>word.
    if word_c word \<noteq> 0 \<or> word_d word \<noteq> 0
    then Err (OperationErr (InvalidHornerEvaluationPointWord c (as_canonical_u64 addr)))
    else Ok (Quad (word_a word) (word_b word))))"

definition op_horner_eval_base :: "'p processor \<Rightarrow> 'p \<Rightarrow> 'p op_result" where
  "op_horner_eval_base P p =
    bindO (sget P p 13) (\<lambda>alpha_addr.
    bindO (read_horner_eval_point P p alpha_addr) (\<lambda>alpha.
    bindO (stk_get_double_word (stack P) p 0) (\<lambda>(v, w).
    let k0 = quad_of (word_a v); k1 = quad_of (word_b v); k2 = quad_of (word_c v); k3 = quad_of (word_d v);
        k4 = quad_of (word_a w); k5 = quad_of (word_b w); k6 = quad_of (word_c w); k7 = quad_of (word_d w) in
    bindO (sget P p 14) (\<lambda>acc_low. bindO (sget P p 15) (\<lambda>acc_high.
    let acc = Quad acc_low acc_high;
        tmp0 = (acc * alpha + k0) * alpha + k1;
        tmp1 = ((tmp0 * alpha + k2) * alpha + k3) * alpha + k4;
        acc_new = ((tmp1 * alpha + k5) * alpha + k6) * alpha + k7 in
    bindO (sset P p 15 (c1 acc_new)) (\<lambda>p. bindO (sset P p 14 (c0 acc_new)) (\<lambda>p.
      Ok (HHornerEvalBase alpha tmp0 tmp1, p))))))))"

definition op_horner_eval_ext :: "'p processor \<Rightarrow> 'p \<Rightarrow> 'p op_result" where
  "op_horner_eval_ext P p =
    bindO (stk_get_double_word (stack P) p 0) (\<lambda>(v, w).
    let coef = [Quad (word_a v) (word_b v), Quad (word_c v) (word_d v),
                Quad (word_a w) (word_b w), Quad (word_c w) (word_d w)] in
    bindO (sget P p 13) (\<lambda>alpha_addr.
    bindO (read_horner_eval_point P p alpha_addr) (\<lambda>alpha.
    bindO (sget P p 14) (\<lambda>acc_low. bindO (sget P p 15) (\<lambda>acc_high.
    let acc_old = Quad acc_low acc_high;
        acc_tmp = fold (\<lambda>coef acc. coef + alpha * acc) (take 2 coef) acc_old;
        acc_new = fold (\<lambda>coef acc. coef + alpha * acc) (drop 2 coef) acc_tmp in
    bindO (sset P p 15 (c1 acc_new)) (\<lambda>p. bindO (sset P p 14 (c0 acc_new)) (\<lambda>p.
      Ok (HHornerEvalExt alpha acc_tmp, p))))))))"

section \<open>Deferred statements\<close>

definition TAG_AND :: qword where
  "TAG_AND = QWord 1 0 0 0"

definition op_log_deferred :: "'p processor \<Rightarrow> 'p \<Rightarrow> 'p op_result" where
  "op_log_deferred P p =
    bindO (sget_word P p 4) (\<lambda>statement_digest.
    let state_prev = sys_deferred_root (system P) p in
    bindO (hsh_permute (hasher P) p (state_prev, statement_digest, TAG_AND)) (\<lambda>(addr, state_new, out_rate1, out_cap).
    bindO (sys_log_deferred_statement (system P) p statement_digest state_new) (\<lambda>p.
    bindO (sset_word P p 0 state_new) (\<lambda>p. bindO (sset_word P p 4 out_rate1) (\<lambda>p.
    bindO (sset_word P p 8 out_cap) (\<lambda>p. Ok (HLogDeferred addr state_prev, p)))))))"

section \<open>Stream cipher\<close>

definition MEMORY_SIZE :: u64 where
  "MEMORY_SIZE = 0x100000000"

text \<open>\<open>u32::try_from\<close> of an address, with the error of the memory.\<close>

definition addr_u32 :: "u64 \<Rightarrow> u32 exec" where
  "addr_u32 a = (if a > U32_MAX then Err (MemoryErr (AddressOutOfBounds a)) else Ok (ucast a))"

definition validate_dual_word_stream_addrs :: "felt \<Rightarrow> felt \<Rightarrow> context_id \<Rightarrow> row_index \<Rightarrow> unit exec" where
  "validate_dual_word_stream_addrs src_addr dst_addr c k =
    (let src_addr_u64 = as_canonical_u64 src_addr; dst_addr_u64 = as_canonical_u64 dst_addr in
    bindO (addr_u32 src_addr_u64) (\<lambda>src_addr_u32.
    bindO (add_u64 src_addr_u64 8) (\<lambda>src_end.
    if src_end > MEMORY_SIZE then Err (MemoryErr (AddressOutOfBounds src_addr_u64))
    else
      bindO (addr_u32 dst_addr_u64) (\<lambda>dst_addr_u32.
      bindO (add_u64 dst_addr_u64 8) (\<lambda>dst_end.
      if dst_end > MEMORY_SIZE then Err (MemoryErr (AddressOutOfBounds dst_addr_u64))
      else if src_addr_u64 < dst_end \<and> dst_addr_u64 < src_end
      then
        let dst_word2 = dst_addr_u32 + 4;
            overlap_first = dst_addr_u32 \<ge> src_addr_u32 \<and> dst_addr_u64 < src_end;
            offending_addr = (if overlap_first then dst_addr_u32 else dst_word2) in
        Err (MemoryErr (IllegalMemoryAccess c offending_addr (from_u32 k)))
      else Ok ())))))"

definition op_crypto_stream :: "'p processor \<Rightarrow> 'p \<Rightarrow> 'p op_result" where
  "op_crypto_stream P p =
    (let c = sys_ctx (system P) p in let k = sys_clock (system P) p in
    bindO (sget P p 12) (\<lambda>src_addr. bindO (sget P p 13) (\<lambda>dst_addr.
    bindO (validate_dual_word_stream_addrs src_addr dst_addr c k) (\<lambda>_.
    let src_addr_word2 = src_addr + WORD_SIZE_FELT in
    bindO (mem_read_word (memory P) p c src_addr k) (\<lambda>plain1.
    bindO (mem_read_word (memory P) p c src_addr_word2 k) (\<lambda>plain2.
    bindO (stk_get_double_word (stack P) p 0) (\<lambda>(rate1, rate2).
    let cipher1 = QWord (word_a plain1 + word_a rate1) (word_b plain1 + word_b rate1)
                    (word_c plain1 + word_c rate1) (word_d plain1 + word_d rate1);
        cipher2 = QWord (word_a plain2 + word_a rate2) (word_b plain2 + word_b rate2)
                    (word_c plain2 + word_c rate2) (word_d plain2 + word_d rate2);
        dst_addr_word2 = dst_addr + WORD_SIZE_FELT in
    bindO (mem_write_word (memory P) p c dst_addr k cipher1) (\<lambda>p.
    bindO (mem_write_word (memory P) p c dst_addr_word2 k cipher2) (\<lambda>p.
    bindO (sset_word P p 0 cipher1) (\<lambda>p. bindO (sset_word P p 4 cipher2) (\<lambda>p.
    bindO (sset P p 12 (src_addr + DOUBLE_WORD_SIZE)) (\<lambda>p.
    bindO (sset P p 13 (dst_addr + DOUBLE_WORD_SIZE)) (\<lambda>p. Ok (HEmpty, p))))))))))))))"

section \<open>Simulation\<close>

lemma validate_merkle_safe:
  "validate_merkle_depth d \<noteq> Panic" "validate_merkle_path_length path d \<noteq> Panic"
  by (simp_all add: validate_merkle_depth_def validate_merkle_path_length_def
      validate_materialized_merkle_path_length_def Let_def split: option.split)

lemma addr_u32_Ok: "addr_u32 a = Ok b \<Longrightarrow> unat a < 2 ^ 32 \<and> unat b = unat a"
  by (auto simp: addr_u32_def U32_MAX_def word_less_nat_alt unsigned_ucast_eq take_bit_eq_mod
      split: if_splits)

lemma validate_dual_word_safe: "validate_dual_word_stream_addrs a b c k \<noteq> Panic"
proof -
  have "addr_u32 x \<noteq> Panic" for x by (simp add: addr_u32_def)
  moreover have "add_u64 x 8 \<noteq> Panic" if "addr_u32 x = Ok y" for x y
    using addr_u32_Ok [OF that] by (simp add: add_u64_def)
  ultimately show ?thesis
    by (auto simp: validate_dual_word_stream_addrs_def Let_def bindO_eq_Panic)
qed

context processor_sim
begin

lemma sim_read_horner_eval_point [sim_intros]:
  assumes "R p q" "\<And>x. sim U (f x) (g x)"
  shows "sim U (bindO (read_horner_eval_point P p a) f) (bindO (read_horner_eval_point Q q a) g)"
proof -
  have "sim (=) (read_horner_eval_point P p a) (read_horner_eval_point Q q a)"
    unfolding read_horner_eval_point_def using assms(1) by (intro sim_intros; simp)
  then show ?thesis using assms(2) by (rule sim_bind_eq)
qed

lemma crypto_ops_sim:
  assumes "R p q"
  shows "sim (rel_op R) (op_hperm P p) (op_hperm Q q)" "sim (rel_op R) (op_mpverify P p e) (op_mpverify Q q e)"
    "sim (rel_op R) (op_mrupdate P p) (op_mrupdate Q q)"
    "sim (rel_op R) (op_log_deferred P p) (op_log_deferred Q q)"
    "sim (rel_op R) (op_horner_eval_base P p) (op_horner_eval_base Q q)"
    "sim (rel_op R) (op_horner_eval_ext P p) (op_horner_eval_ext Q q)"
    "sim (rel_op R) (op_crypto_stream P p) (op_crypto_stream Q q)"
  unfolding op_hperm_def op_mpverify_def op_mrupdate_def op_log_deferred_def op_horner_eval_base_def
    op_horner_eval_ext_def op_crypto_stream_def
  using assms by (intro sim_intros sim_value validate_merkle_safe validate_dual_word_safe; simp)+

end

end
