(* ===== verification/Ops_Ace.thy ===== *)
theory Ops_Ace
  imports Ops_Core
begin

text \<open>
  Arithmetic circuit evaluation: the instruction decoder
  (\<open>processor/src/trace/chiplets/ace/instruction.rs\<close>), the evaluation with its wire bus
  (\<open>processor/src/trace/chiplets/ace/trace.rs\<close>) and the operation
  (\<open>processor/src/execution/operations/eval_circuit.rs\<close>).
\<close>

section \<open>Instructions\<close>

datatype ace_op = AceSub | AceMul | AceAdd

definition ID_BITS :: nat where
  "ID_BITS = 30"

definition MAX_ID :: u64 where
  "MAX_ID = 0x3FFFFFFF"

definition MAX_NUM_ACE_WIRES :: u64 where
  "MAX_NUM_ACE_WIRES = MAX_ID"

definition ace_op_try_from :: "u64 \<Rightarrow> ace_op option" where
  "ace_op_try_from v =
    (if v = 0 then Some AceSub else if v = 1 then Some AceMul else if v = 2 then Some AceAdd else None)"

definition decode_instruction :: "felt \<Rightarrow> (u32 \<times> u32 \<times> ace_op) option" where
  "decode_instruction instruction =
    (let remaining = as_canonical_u64 instruction;
         id_l = ucast (remaining AND MAX_ID);
         remaining = drop_bit ID_BITS remaining;
         id_r = ucast (remaining AND MAX_ID);
         remaining = drop_bit ID_BITS remaining in
     if id_l > ucast MAX_ID \<or> id_r > ucast MAX_ID then None
     else Option.bind (ace_op_try_from remaining) (\<lambda>op. Some (id_l, id_r, op)))"

section \<open>The wire bus\<close>

record wire_bus =
  id_next :: felt
  wires :: "(quad \<times> u32) list"
  num_wires :: u32

definition wire_bus_new :: "u32 \<Rightarrow> wire_bus exec" where
  "wire_bus_new n =
    bindO (assertO (n \<noteq> 0)) (\<lambda>_. Ok \<lparr>id_next = from_u32 (n - 1), wires = [], num_wires = n\<rparr>)"

definition is_finalized :: "wire_bus \<Rightarrow> bool" where
  "is_finalized b \<longleftrightarrow> length (wires b) = unat (num_wires b)"

definition wire_insert :: "wire_bus \<Rightarrow> quad \<Rightarrow> (felt \<times> wire_bus) exec" where
  "wire_insert b value =
    bindO (assertO (\<not> is_finalized b)) (\<lambda>_.
      Ok (id_next b, b\<lparr>wires := wires b @ [(value, 0)], id_next := id_next b - 1\<rparr>))"

text \<open>\<open>num_wires.checked_sub(id + 1)\<close> and the access to that wire; the multiplicity is incremented.\<close>

definition read_value :: "wire_bus \<Rightarrow> u32 \<Rightarrow> (quad \<times> wire_bus) option exec" where
  "read_value b i =
    bindO (assertO (unat i + 1 < 2 ^ 32)) (\<lambda>_.
    if unat (num_wires b) < unat i + 1 then Ok None
    else
      let k = unat (num_wires b) - (unat i + 1) in
      if k < length (wires b)
      then
        (case wires b ! k of (v, m) \<Rightarrow>
          bindO (assertO (unat m + 1 < 2 ^ 32)) (\<lambda>_.
            Ok (Some (v, b\<lparr>wires := (wires b)[k := (v, m + 1)]\<rparr>))))
      else Ok None)"

section \<open>Circuit evaluation\<close>

record read_node =
  rn_ptr :: felt
  rn_id_0 :: felt
  rn_v_0 :: quad
  rn_id_1 :: felt
  rn_v_1 :: quad

record eval_node =
  en_ptr :: felt
  en_eval_op :: felt
  en_id_0 :: felt
  en_v_0 :: quad
  en_id_1 :: felt
  en_v_1 :: quad
  en_id_2 :: felt
  en_v_2 :: quad

record circuit_evaluation =
  ce_ctx :: context_id
  ce_clk :: row_index
  ce_bus :: wire_bus
  read_nodes :: "read_node list"
  eval_nodes :: "eval_node list"

definition circuit_evaluation_new ::
    "context_id \<Rightarrow> row_index \<Rightarrow> u32 \<Rightarrow> u32 \<Rightarrow> circuit_evaluation exec" where
  "circuit_evaluation_new c k num_read_rows num_eval_rows =
    (let n = 2 * ucast num_read_rows + ucast num_eval_rows in
     bindO (assertO (n \<le> MAX_NUM_ACE_WIRES)) (\<lambda>_.
     bindO (wire_bus_new (ucast n)) (\<lambda>b.
       Ok \<lparr>ce_ctx = c, ce_clk = k, ce_bus = b, read_nodes = [], eval_nodes = []\<rparr>)))"

definition do_read :: "circuit_evaluation \<Rightarrow> felt \<Rightarrow> qword \<Rightarrow> circuit_evaluation exec" where
  "do_read e ptr word =
    (let v_0 = Quad (word_a word) (word_b word) in
     bindO (wire_insert (ce_bus e) v_0) (\<lambda>(id_0, b).
     let v_1 = Quad (word_c word) (word_d word) in
     bindO (wire_insert b v_1) (\<lambda>(id_1, b).
       Ok (e\<lparr>ce_bus := b,
             read_nodes := read_nodes e @
               [\<lparr>rn_ptr = ptr, rn_id_0 = id_0, rn_v_0 = v_0, rn_id_1 = id_1, rn_v_1 = v_1\<rparr>]\<rparr>))))"

fun ace_apply :: "ace_op \<Rightarrow> quad \<Rightarrow> quad \<Rightarrow> quad" where
  "ace_apply AceSub l r = l - r"
| "ace_apply AceMul l r = l * r"
| "ace_apply AceAdd l r = l + r"

fun ace_selector :: "ace_op \<Rightarrow> felt" where
  "ace_selector AceSub = - 1"
| "ace_selector AceMul = 0"
| "ace_selector AceAdd = 1"

definition do_eval :: "circuit_evaluation \<Rightarrow> felt \<Rightarrow> felt \<Rightarrow> circuit_evaluation exec" where
  "do_eval e ptr instruction =
    (case decode_instruction instruction of
       None \<Rightarrow> Err (AceChipError DecodeFailed)
     | Some (id_l, id_r, op) \<Rightarrow>
         bindO (read_value (ce_bus e) id_l) (\<lambda>r.
         case r of
           None \<Rightarrow> Err (AceChipError WireReadFailed)
         | Some (v_l, b) \<Rightarrow>
             bindO (read_value b id_r) (\<lambda>r.
             case r of
               None \<Rightarrow> Err (AceChipError WireReadFailed)
             | Some (v_r, b) \<Rightarrow>
                 let v_0 = ace_apply op v_l v_r in
                 bindO (wire_insert b v_0) (\<lambda>(id_0, b).
                   Ok (e\<lparr>ce_bus := b,
                         eval_nodes := eval_nodes e @
                           [\<lparr>en_ptr = ptr, en_eval_op = ace_selector op, en_id_0 = id_0, en_v_0 = v_0,
                             en_id_1 = from_u32 id_l, en_v_1 = v_l, en_id_2 = from_u32 id_r,
                             en_v_2 = v_r\<rparr>]\<rparr>)))))"

definition output_value :: "circuit_evaluation \<Rightarrow> quad option" where
  "output_value e =
    (if \<not> is_finalized (ce_bus e) then None
     else if wires (ce_bus e) = [] then None else Some (fst (last (wires (ce_bus e)))))"

section \<open>The operation\<close>

definition PTR_OFFSET_ELEM :: felt where
  "PTR_OFFSET_ELEM = 1"

definition PTR_OFFSET_WORD :: felt where
  "PTR_OFFSET_WORD = 4"

definition saturating_add_u64 :: "u64 \<Rightarrow> u64 \<Rightarrow> u64" where
  "saturating_add_u64 a b = (if unat a + unat b < 2 ^ 64 then a + b else - 1)"

text \<open>The two loops over the memory region.\<close>

fun read_rows ::
    "'p processor \<Rightarrow> 'p \<Rightarrow> context_id \<Rightarrow> row_index \<Rightarrow> nat \<Rightarrow> felt \<Rightarrow> circuit_evaluation
      \<Rightarrow> (felt \<times> circuit_evaluation) exec" where
  "read_rows P p c k 0 ptr e = Ok (ptr, e)"
| "read_rows P p c k (Suc n) ptr e =
    bindO (mem_read_word (memory P) p c ptr k) (\<lambda>word.
    bindO (do_read e ptr word) (\<lambda>e. read_rows P p c k n (ptr + PTR_OFFSET_WORD) e))"

fun eval_rows ::
    "'p processor \<Rightarrow> 'p \<Rightarrow> context_id \<Rightarrow> nat \<Rightarrow> felt \<Rightarrow> circuit_evaluation \<Rightarrow> circuit_evaluation exec" where
  "eval_rows P p c 0 ptr e = Ok e"
| "eval_rows P p c (Suc n) ptr e =
    bindO (mem_read_element (memory P) p c ptr) (\<lambda>instruction.
    bindO (do_eval e ptr instruction) (\<lambda>e. eval_rows P p c n (ptr + PTR_OFFSET_ELEM) e))"

definition eval_circuit_impl ::
    "'p processor \<Rightarrow> 'p \<Rightarrow> context_id \<Rightarrow> felt \<Rightarrow> row_index \<Rightarrow> felt \<Rightarrow> felt \<Rightarrow> circuit_evaluation exec" where
  "eval_circuit_impl P p c ptr k num_vars num_eval =
    (let num_vars = as_canonical_u64 num_vars; num_eval = as_canonical_u64 num_eval;
         n = saturating_add_u64 num_vars num_eval in
     if n > MAX_NUM_ACE_WIRES then Err (AceChipError (TooManyWires n))
     else if num_vars mod 2 \<noteq> 0 \<or> num_vars = 0 then Err (AceChipError (VarsNotAligned num_vars))
     else if num_eval mod 4 \<noteq> 0 \<or> num_eval = 0 then Err (AceChipError (EvalsNotAligned num_eval))
     else
       let num_read_rows = (ucast (num_vars div 2) :: u32); num_eval_rows = (ucast num_eval :: u32) in
       bindO (circuit_evaluation_new c k num_read_rows num_eval_rows) (\<lambda>e.
       bindO (read_rows P p c k (unat num_read_rows) ptr e) (\<lambda>(ptr, e).
       bindO (eval_rows P p c (unat num_eval_rows) ptr e) (\<lambda>e.
       if output_value e = None \<or> output_value e \<noteq> Some 0 then Err (AceChipError CircuitNotZero)
       else Ok e))))"

definition op_eval_circuit :: "'p processor \<Rightarrow> 'p \<Rightarrow> 'p op_result" where
  "op_eval_circuit P p =
    bindO (sget P p 2) (\<lambda>num_eval. bindO (sget P p 1) (\<lambda>num_read. bindO (sget P p 0) (\<lambda>ptr.
    let c = sys_ctx (system P) p in let k = sys_clock (system P) p in
    bindO (eval_circuit_impl P p c ptr k num_read num_eval) (\<lambda>_. Ok (HEmpty, p)))))"

section \<open>Reference evaluation\<close>

text \<open>
  A circuit as a mathematical object: the values of the wires in the order they are produced; wire \<open>i\<close> of
  \<open>n\<close> is the one at position \<open>n - 1 - i\<close>.
\<close>

definition wire_at :: "nat \<Rightarrow> quad list \<Rightarrow> nat \<Rightarrow> quad option" where
  "wire_at n ws i = (if i < n \<and> n - 1 - i < length ws then Some (ws ! (n - 1 - i)) else None)"

definition gate_value :: "nat \<Rightarrow> quad list \<Rightarrow> felt \<Rightarrow> (ace_error, quad) outcome" where
  "gate_value n ws g =
    (case decode_instruction g of
       None \<Rightarrow> Err DecodeFailed
     | Some (l, r, op) \<Rightarrow>
         (case (wire_at n ws (unat l), wire_at n ws (unat r)) of
            (Some x, Some y) \<Rightarrow> Ok (ace_apply op x y)
          | _ \<Rightarrow> Err WireReadFailed))"

fun eval_gates :: "nat \<Rightarrow> quad list \<Rightarrow> felt list \<Rightarrow> (ace_error, quad list) outcome" where
  "eval_gates n ws [] = Ok ws"
| "eval_gates n ws (g # gs) = bindO (gate_value n ws g) (\<lambda>v. eval_gates n (ws @ [v]) gs)"

fun word_values :: "qword \<Rightarrow> quad list" where
  "word_values (QWord a b c d) = [Quad a b, Quad c d]"

text \<open>The number of times the gates of an evaluation read a wire.\<close>

definition uses :: "felt \<Rightarrow> eval_node list \<Rightarrow> nat" where
  "uses i ns = length (filter (\<lambda>e. en_id_1 e = i) ns) + length (filter (\<lambda>e. en_id_2 e = i) ns)"

text \<open>
  An evaluation in progress: the wires are those of the rows, in order, the next identifier is the one of
  the next wire, the multiplicity of a wire counts the gates that read it, and every gate row carries
  the value of the operation on the values of the wires it names.
\<close>

definition gate_ok :: "nat \<Rightarrow> quad list \<Rightarrow> eval_node \<Rightarrow> bool" where
  "gate_ok n ws e \<longleftrightarrow>
    (\<exists>op \<in> {AceSub, AceMul, AceAdd}. en_eval_op e = ace_selector op \<and> en_v_0 e = ace_apply op (en_v_1 e) (en_v_2 e)) \<and>
    wire_at n ws (val (en_id_0 e)) = Some (en_v_0 e) \<and>
    wire_at n ws (val (en_id_1 e)) = Some (en_v_1 e) \<and>
    wire_at n ws (val (en_id_2 e)) = Some (en_v_2 e)"

definition wire_values :: "circuit_evaluation \<Rightarrow> quad list" where
  "wire_values e = map fst (wires (ce_bus e))"

definition wf_evaluation :: "circuit_evaluation \<Rightarrow> bool" where
  "wf_evaluation e \<longleftrightarrow>
    (let b = ce_bus e; n = unat (num_wires b) in
     0 < n \<and> n < 2 ^ 30 \<and> length (wires b) \<le> n \<and>
     length (wires b) = 2 * length (read_nodes e) + length (eval_nodes e) \<and>
     id_next b = of_nat n - 1 - of_nat (length (wires b)) \<and>
     (\<forall>k < length (wires b). unat (snd (wires b ! k)) = uses (of_nat (n - 1 - k)) (eval_nodes e)) \<and>
     (\<forall>g \<in> set (eval_nodes e). gate_ok n (wire_values e) g))"

lemma wf_evaluationD:
  assumes "wf_evaluation e"
  shows "0 < unat (num_wires (ce_bus e))" "unat (num_wires (ce_bus e)) < 2 ^ 30"
    "length (wires (ce_bus e)) \<le> unat (num_wires (ce_bus e))"
    "length (wires (ce_bus e)) = 2 * length (read_nodes e) + length (eval_nodes e)"
    "id_next (ce_bus e) = of_nat (unat (num_wires (ce_bus e))) - 1 - of_nat (length (wires (ce_bus e)))"
    "k < length (wires (ce_bus e)) \<Longrightarrow>
      unat (snd (wires (ce_bus e) ! k)) = uses (of_nat (unat (num_wires (ce_bus e)) - 1 - k)) (eval_nodes e)"
    "g \<in> set (eval_nodes e) \<Longrightarrow> gate_ok (unat (num_wires (ce_bus e))) (wire_values e) g"
  using assms unfolding wf_evaluation_def Let_def by blast+

lemma length_wire_values [simp]: "length (wire_values e) = length (wires (ce_bus e))"
  by (simp add: wire_values_def)

lemma uses_le: "uses i ns \<le> 2 * length ns"
  unfolding uses_def by (rule order_trans [OF add_mono [OF length_filter_le length_filter_le]]) simp

lemma wire_at_append: "wire_at n ws i = Some v \<Longrightarrow> wire_at n (ws @ vs) i = Some v"
  by (auto simp: wire_at_def nth_append split: if_splits)

lemma gate_ok_append: "gate_ok n ws e \<Longrightarrow> gate_ok n (ws @ vs) e"
  by (auto simp: gate_ok_def wire_at_append)

lemma wf_evaluation_node_bound: "wf_evaluation e \<Longrightarrow> length (eval_nodes e) < 2 ^ 30"
  by (simp add: wf_evaluation_def Let_def)

lemma decode_bound:
  assumes "decode_instruction g = Some (l, r, op)"
  shows "unat l < 2 ^ 30" "unat r < 2 ^ 30"
  using assms
  by (auto simp: decode_instruction_def Let_def MAX_ID_def word_le_nat_alt not_less split: if_splits bind_splits)

text \<open>Reading a wire returns its value and counts one use of it.\<close>

lemma read_value_None:
  assumes "unat i < 2 ^ 30" "wire_at (unat (num_wires b)) (map fst (wires b)) (unat i) = None"
  shows "read_value b i = Ok None"
  using assms by (auto simp: read_value_def wire_at_def Let_def split: if_splits)

lemma read_value_Some:
  assumes "unat i < 2 ^ 30" "\<And>k. k < length (wires b) \<Longrightarrow> unat (snd (wires b ! k)) + 1 < 2 ^ 32"
    and "length (wires b) \<le> unat (num_wires b)"
    and "wire_at (unat (num_wires b)) (map fst (wires b)) (unat i) = Some v"
  obtains b' where "read_value b i = Ok (Some (v, b'))" "map fst (wires b') = map fst (wires b)"
    "num_wires b' = num_wires b" "id_next b' = id_next b"
    "\<And>k. k < length (wires b) \<Longrightarrow>
      unat (snd (wires b' ! k)) = unat (snd (wires b ! k)) + (if unat i = unat (num_wires b) - 1 - k then 1 else 0)"
proof -
  define j where "j = unat (num_wires b) - 1 - unat i"
  have j: "unat i < unat (num_wires b)" "j < length (wires b)" "v = fst (wires b ! j)"
    using assms(4) by (auto simp: wire_at_def j_def split: if_splits)
  define b' where "b' = b\<lparr>wires := (wires b)[j := (v, snd (wires b ! j) + 1)]\<rparr>"
  have m: "unat (snd (wires b ! j)) + 1 < 4294967296"
    using assms(2) [OF j(2)] by simp
  have "read_value b i = Ok (Some (v, b'))"
    using assms(1) j m by (auto simp: read_value_def Let_def b'_def j_def split: prod.splits)
  moreover have "map fst (wires b') = map fst (wires b)"
    using j by (simp add: b'_def list_eq_iff_nth_eq nth_list_update)
  moreover have "unat (snd (wires b' ! k)) = unat (snd (wires b ! k))
      + (if unat i = unat (num_wires b) - 1 - k then 1 else 0)" if "k < length (wires b)" for k
  proof -
    have "(unat i = unat (num_wires b) - 1 - k) = (j = k)"
      using j(1) that assms(3) by (auto simp: j_def)
    then show ?thesis
      using that m by (auto simp: b'_def nth_list_update unat_word_ariths)
  qed
  ultimately show thesis
    using that [of b'] by (simp add: b'_def)
qed

lemma wf_evaluation_insert_id:
  assumes "wf_evaluation e" "length (wires (ce_bus e)) < unat (num_wires (ce_bus e))"
  shows "val (id_next (ce_bus e)) = unat (num_wires (ce_bus e)) - 1 - length (wires (ce_bus e))"
proof -
  let ?n = "unat (num_wires (ce_bus e))" and ?l = "length (wires (ce_bus e))"
  have "(of_nat ?n :: felt) - 1 - of_nat ?l = of_nat (?n - 1 - ?l)"
    using assms(2) by (simp add: of_nat_diff)
  moreover have "?n < 2 ^ 30" "id_next (ce_bus e) = of_nat ?n - 1 - of_nat ?l"
    using assms(1) by (simp_all add: wf_evaluation_def Let_def)
  ultimately show ?thesis by simp
qed

lemma uses_append [simp]: "uses i (ns @ ms) = uses i ns + uses i ms"
  by (simp add: uses_def)

text \<open>The two reads of a gate.\<close>

lemma read_wire:
  assumes wf: "wf_evaluation e" and l: "unat l < 2 ^ 30"
    and x: "wire_at (unat (num_wires (ce_bus e))) (wire_values e) (unat l) = Some x"
  obtains b where "read_value (ce_bus e) l = Ok (Some (x, b))"
    "map fst (wires b) = wire_values e" "num_wires b = num_wires (ce_bus e)" "id_next b = id_next (ce_bus e)"
    "\<And>k. k < length (wires (ce_bus e)) \<Longrightarrow> unat (snd (wires b ! k)) = unat (snd (wires (ce_bus e) ! k))
      + (if unat l = unat (num_wires (ce_bus e)) - 1 - k then 1 else 0)"
    "\<And>k. k < length (wires (ce_bus e)) \<Longrightarrow> unat (snd (wires b ! k)) + 1 < 2 ^ 32"
    "length (wires b) = length (wires (ce_bus e))"
proof -
  let ?b = "ce_bus e" and ?n = "unat (num_wires (ce_bus e))"
  have len: "length (wires ?b) \<le> ?n"
    using wf by (simp add: wf_evaluation_def Let_def)
  have mult: "unat (snd (wires ?b ! k)) + 2 < 2 ^ 32" if "k < length (wires ?b)" for k
    using wf that uses_le [of "of_nat (?n - 1 - k)" "eval_nodes e"]
    by (simp add: wf_evaluation_def Let_def)
  then have m0: "unat (snd (wires ?b ! k)) + 1 < 2 ^ 32" if "k < length (wires ?b)" for k
    using that by (metis add_lessD1 add.assoc nat_1_add_1)
  obtain b where b: "read_value ?b l = Ok (Some (x, b))" "map fst (wires b) = map fst (wires ?b)"
    "num_wires b = num_wires ?b" "id_next b = id_next ?b"
    "\<And>k. k < length (wires ?b) \<Longrightarrow>
      unat (snd (wires b ! k)) = unat (snd (wires ?b ! k)) + (if unat l = ?n - 1 - k then 1 else 0)"
    using read_value_Some [OF l m0 len x [unfolded wire_values_def]] by metis
  moreover have "length (wires b) = length (wires ?b)"
    using b(2) by (metis length_map)
  moreover have "unat (snd (wires b ! k)) + 1 < 2 ^ 32" if "k < length (wires ?b)" for k
    using b(5) [of k] mult [of k] that by simp
  ultimately show thesis
    using that [of b] by (simp add: wire_values_def)
qed

lemma read_gate:
  assumes wf: "wf_evaluation e" and lr: "unat l < 2 ^ 30" "unat r < 2 ^ 30"
    and x: "wire_at (unat (num_wires (ce_bus e))) (wire_values e) (unat l) = Some x"
    and y: "wire_at (unat (num_wires (ce_bus e))) (wire_values e) (unat r) = Some y"
  obtains b1 b2 where "read_value (ce_bus e) l = Ok (Some (x, b1))" "read_value b1 r = Ok (Some (y, b2))"
    "map fst (wires b2) = wire_values e" "num_wires b2 = num_wires (ce_bus e)" "id_next b2 = id_next (ce_bus e)"
    "\<And>k. k < length (wires (ce_bus e)) \<Longrightarrow> unat (snd (wires b2 ! k)) = unat (snd (wires (ce_bus e) ! k))
      + (if unat l = unat (num_wires (ce_bus e)) - 1 - k then 1 else 0)
      + (if unat r = unat (num_wires (ce_bus e)) - 1 - k then 1 else 0)"
proof -
  have len: "length (wires (ce_bus e)) \<le> unat (num_wires (ce_bus e))"
    using wf by (simp add: wf_evaluation_def Let_def)
  obtain b1 where b1: "read_value (ce_bus e) l = Ok (Some (x, b1))"
    "map fst (wires b1) = wire_values e" "num_wires b1 = num_wires (ce_bus e)" "id_next b1 = id_next (ce_bus e)"
    "\<And>k. k < length (wires (ce_bus e)) \<Longrightarrow> unat (snd (wires b1 ! k)) = unat (snd (wires (ce_bus e) ! k))
      + (if unat l = unat (num_wires (ce_bus e)) - 1 - k then 1 else 0)"
    "\<And>k. k < length (wires (ce_bus e)) \<Longrightarrow> unat (snd (wires b1 ! k)) + 1 < 2 ^ 32"
    "length (wires b1) = length (wires (ce_bus e))"
    using read_wire [OF wf lr(1) x] by metis
  have y1: "wire_at (unat (num_wires b1)) (map fst (wires b1)) (unat r) = Some y"
    using y b1(2,3) by simp
  have len1: "length (wires b1) \<le> unat (num_wires b1)"
    using len b1(3,7) by simp
  have m1: "unat (snd (wires b1 ! k)) + 1 < 2 ^ 32" if "k < length (wires b1)" for k
    using b1(6) [of k] b1(7) that by simp
  obtain b2 where "read_value b1 r = Ok (Some (y, b2))" "map fst (wires b2) = map fst (wires b1)"
    "num_wires b2 = num_wires b1" "id_next b2 = id_next b1"
    "\<And>k. k < length (wires b1) \<Longrightarrow>
      unat (snd (wires b2 ! k)) = unat (snd (wires b1 ! k)) + (if unat r = unat (num_wires b1) - 1 - k then 1 else 0)"
    using read_value_Some [OF lr(2) m1 len1 y1] by metis
  then show thesis
    using b1 by (intro that [of b1 b2]) simp_all
qed

lemma wire_at_fresh:
  assumes "wire_at n ws (val i) = Some v" "length ws \<le> k" "k < n" "n < 2 ^ 30"
  shows "i \<noteq> of_nat (n - 1 - k)"
proof
  assume "i = of_nat (n - 1 - k)"
  then have "val i = n - 1 - k"
    using assms(3,4) by (simp del: of_nat_diff)
  then show False
    using assms(1-3) by (simp add: wire_at_def split: if_splits)
qed

lemma uses_fresh:
  assumes "\<And>g. g \<in> set ns \<Longrightarrow> gate_ok n ws g" "length ws \<le> k" "k < n" "n < 2 ^ 30"
  shows "uses (of_nat (n - 1 - k)) ns = 0"
  using assms wire_at_fresh [OF _ assms(2-4)]
  by (fastforce simp: uses_def filter_empty_conv gate_ok_def simp del: of_nat_diff)

lemma wf_evaluation_gate:
  fixes e node b
  defines "n \<equiv> unat (num_wires (ce_bus e))"
  assumes wf: "wf_evaluation e" and room: "length (wires (ce_bus e)) < n"
    and b: "map fst (wires b) = wire_values e" "num_wires b = num_wires (ce_bus e)" "id_next b = id_next (ce_bus e)"
      "\<And>k. k < length (wires (ce_bus e)) \<Longrightarrow>
        unat (snd (wires b ! k)) = unat (snd (wires (ce_bus e) ! k)) + uses (of_nat (n - 1 - k)) [node]"
    and node: "en_id_0 node = id_next b" "gate_ok n (wire_values e @ [en_v_0 node]) node"
      "wire_at n (wire_values e) (val (en_id_1 node)) = Some (en_v_1 node)"
      "wire_at n (wire_values e) (val (en_id_2 node)) = Some (en_v_2 node)"
    and e': "e' = e\<lparr>ce_bus := b\<lparr>wires := wires b @ [(en_v_0 node, 0)], id_next := id_next b - 1\<rparr>,
      eval_nodes := eval_nodes e @ [node]\<rparr>"
  shows "wf_evaluation e'"
proof -
  have len: "length (wires b) = length (wires (ce_bus e))"
    using b(1) by (metis length_map length_wire_values)
  have vals: "wire_values e' = wire_values e @ [en_v_0 node]"
    using e' b(1) by (simp add: wire_values_def)
  have n: "n < 2 ^ 30"
    using wf by (simp add: wf_evaluation_def Let_def n_def)
  have fresh: "uses (of_nat (n - 1 - length (wires b))) (eval_nodes e @ [node]) = 0"
  proof -
    have "uses (of_nat (n - 1 - length (wire_values e))) (eval_nodes e) = 0"
      using wf room n by (intro uses_fresh) (auto simp: wf_evaluation_def Let_def n_def)
    moreover have "uses (of_nat (n - 1 - length (wire_values e))) [node] = 0"
      using wire_at_fresh [OF node(3) le_refl] wire_at_fresh [OF node(4) le_refl] room n
      by (simp add: uses_def del: of_nat_diff)
    ultimately show ?thesis by (simp add: len)
  qed
  note D = wf_evaluationD [OF wf, folded n_def]
  have n': "unat (num_wires (ce_bus e')) = n" "length (wires (ce_bus e')) = Suc (length (wires (ce_bus e)))"
    using b(2) len by (simp_all add: e' n_def)
  have "unat (snd (wires (ce_bus e') ! k)) = uses (of_nat (n - 1 - k)) (eval_nodes e')"
    if "k < length (wires (ce_bus e'))" for k
  proof (cases "k < length (wires (ce_bus e))")
    case True
    then show ?thesis
      using b(4) D(6) len by (simp add: e' nth_append)
  next
    case False
    then have "k = length (wires b)" using that len by (simp add: n'(2))
    then show ?thesis
      using fresh by (simp add: e')
  qed
  moreover have "gate_ok n (wire_values e') g" if "g \<in> set (eval_nodes e')" for g
    using D(7) node(2) that unfolding vals by (auto simp: e' intro: gate_ok_append)
  moreover have "id_next (ce_bus e') = of_nat n - 1 - of_nat (length (wires (ce_bus e')))"
    using D(5) b(3) unfolding n' by (simp add: e' algebra_simps)
  ultimately show ?thesis
    using D(1,2,4) room n' unfolding wf_evaluation_def Let_def by (simp add: e')
qed

text \<open>One gate: the value the reference gives, or its error; the invariant is kept.\<close>

lemma do_eval_gate:
  assumes wf: "wf_evaluation e" and room: "length (wires (ce_bus e)) < unat (num_wires (ce_bus e))"
  shows "(\<exists>x. gate_value (unat (num_wires (ce_bus e))) (wire_values e) g = Err x \<and>
            do_eval e ptr g = Err (AceChipError x)) \<or>
    (\<exists>v e'. gate_value (unat (num_wires (ce_bus e))) (wire_values e) g = Ok v \<and> do_eval e ptr g = Ok e' \<and>
       wf_evaluation e' \<and> wire_values e' = wire_values e @ [v] \<and> num_wires (ce_bus e') = num_wires (ce_bus e) \<and>
       read_nodes e' = read_nodes e)"
proof (cases "decode_instruction g")
  case (Some d)
  obtain l r op where d: "decode_instruction g = Some (l, r, op)"
    using Some by (cases d) auto
  note lr = decode_bound [OF d]
  let ?n = "unat (num_wires (ce_bus e))" and ?ws = "wire_values e"
  consider (left) "wire_at ?n ?ws (unat l) = None"
    | (right) x where "wire_at ?n ?ws (unat l) = Some x" "wire_at ?n ?ws (unat r) = None"
    | (both) x y where "wire_at ?n ?ws (unat l) = Some x" "wire_at ?n ?ws (unat r) = Some y"
    by (meson not_Some_eq)
  then show ?thesis
  proof cases
    case left
    then show ?thesis
      using lr(1) by (simp add: gate_value_def d do_eval_def read_value_None wire_values_def)
  next
    case right
    then have "gate_value ?n ?ws g = Err WireReadFailed"
      by (simp add: gate_value_def d)
    moreover have "do_eval e ptr g = Err (AceChipError WireReadFailed)"
    proof -
      obtain b1 where "read_value (ce_bus e) l = Ok (Some (x, b1))" "map fst (wires b1) = ?ws"
        "num_wires b1 = num_wires (ce_bus e)"
        using read_wire [OF wf lr(1) right(1)] by metis
      then show ?thesis
        using right(2) read_value_None [OF lr(2), of b1] by (simp add: do_eval_def d)
    qed
    ultimately show ?thesis by simp
  next
    case both
    obtain b1 b2 where rd: "read_value (ce_bus e) l = Ok (Some (x, b1))" "read_value b1 r = Ok (Some (y, b2))"
      and b2: "map fst (wires b2) = ?ws" "num_wires b2 = num_wires (ce_bus e)" "id_next b2 = id_next (ce_bus e)"
        "\<And>k. k < length (wires (ce_bus e)) \<Longrightarrow> unat (snd (wires b2 ! k)) = unat (snd (wires (ce_bus e) ! k))
          + (if unat l = ?n - 1 - k then 1 else 0) + (if unat r = ?n - 1 - k then 1 else 0)"
      using read_gate [OF wf lr both] by blast
    define node where "node = \<lparr>en_ptr = ptr, en_eval_op = ace_selector op, en_id_0 = id_next b2,
      en_v_0 = ace_apply op x y, en_id_1 = from_u32 l, en_v_1 = x, en_id_2 = from_u32 r, en_v_2 = y\<rparr>"
    define e' where "e' = e\<lparr>ce_bus := b2\<lparr>wires := wires b2 @ [(en_v_0 node, 0)], id_next := id_next b2 - 1\<rparr>,
      eval_nodes := eval_nodes e @ [node]\<rparr>"
    have len: "length (wires b2) = length (wires (ce_bus e))"
      using b2(1) by (metis length_map length_wire_values)
    have "do_eval e ptr g = Ok e'"
      using room len b2(2) by (simp add: do_eval_def d rd wire_insert_def is_finalized_def e'_def node_def Let_def)
    moreover have "wf_evaluation e'"
    proof (rule wf_evaluation_gate [OF wf room b2(1-3) _ _ _ _ _ e'_def])
      fix k assume k: "k < length (wires (ce_bus e))"
      have ids: "(from_u32 i = of_nat (?n - 1 - k)) = (unat i = ?n - 1 - k)" for i
        using wf_evaluationD(2) [OF wf] by (subst val_inject [symmetric]) (simp del: of_nat_diff)
      have "uses (of_nat (?n - 1 - k)) [node] =
          (if unat l = ?n - 1 - k then 1 else 0) + (if unat r = ?n - 1 - k then 1 else 0)"
        unfolding uses_def node_def using ids [of l] ids [of r] by simp
      then show "unat (snd (wires b2 ! k)) = unat (snd (wires (ce_bus e) ! k)) + uses (of_nat (?n - 1 - k)) [node]"
        using b2(4) [OF k] by simp
    next
      show "gate_ok ?n (?ws @ [en_v_0 node]) node"
        using both wf_evaluation_insert_id [OF wf room] room b2(3) 
        by (cases op) (auto simp: gate_ok_def node_def wire_at_append, auto simp: wire_at_def nth_append)
    qed (use both in \<open>simp_all add: node_def\<close>)
    moreover have "wire_values e' = ?ws @ [ace_apply op x y]"
      using b2(1) by (simp add: e'_def wire_values_def node_def)
    ultimately show ?thesis
      using both b2(2) by (simp add: gate_value_def d e'_def)
  qed
qed (simp add: gate_value_def do_eval_def)

text \<open>One word of inputs: two wires.\<close>

lemma do_read_word:
  assumes wf: "wf_evaluation e" and room: "length (wires (ce_bus e)) + 2 \<le> unat (num_wires (ce_bus e))"
  obtains e' where "do_read e ptr w = Ok e'" "wf_evaluation e'" "wire_values e' = wire_values e @ word_values w"
    "num_wires (ce_bus e') = num_wires (ce_bus e)" "eval_nodes e' = eval_nodes e"
proof -
  let ?b = "ce_bus e" and ?n = "unat (num_wires (ce_bus e))"
  obtain x y where w: "word_values w = [x, y]" "x = Quad (word_a w) (word_b w)" "y = Quad (word_c w) (word_d w)"
    by (cases w) simp
  define e' where "e' = e\<lparr>ce_bus := ?b\<lparr>wires := wires ?b @ [(x, 0), (y, 0)], id_next := id_next ?b - 1 - 1\<rparr>,
    read_nodes := read_nodes e @
      [\<lparr>rn_ptr = ptr, rn_id_0 = id_next ?b, rn_v_0 = x, rn_id_1 = id_next ?b - 1, rn_v_1 = y\<rparr>]\<rparr>"
  note D = wf_evaluationD [OF wf]
  have do: "do_read e ptr w = Ok e'"
    using room by (simp add: do_read_def wire_insert_def is_finalized_def w e'_def Let_def)
  have vals: "wire_values e' = wire_values e @ word_values w"
    by (simp add: wire_values_def e'_def w(1))
  have "unat (snd (wires (ce_bus e') ! k)) = uses (of_nat (?n - 1 - k)) (eval_nodes e')"
    if "k < length (wires (ce_bus e'))" for k
  proof (cases "k < length (wires ?b)")
    case True
    then show ?thesis using D(6) by (simp add: e'_def nth_append)
  next
    case False
    then have "uses (of_nat (?n - 1 - k)) (eval_nodes e) = 0"
      using D(2,7) room that by (intro uses_fresh [of _ _ "wire_values e"]) (auto simp: e'_def)
    moreover have "snd (wires (ce_bus e') ! k) = 0"
      using False that by (auto simp: e'_def nth_append nth_Cons split: nat.splits)
    ultimately show ?thesis by (simp add: e'_def)
  qed
  moreover have "gate_ok ?n (wire_values e') g" if "g \<in> set (eval_nodes e')" for g
    using D(7) that unfolding vals by (auto simp: e'_def intro: gate_ok_append)
  moreover have "id_next (ce_bus e') = of_nat ?n - 1 - of_nat (length (wires (ce_bus e')))"
    using D(5) by (simp add: e'_def algebra_simps)
  ultimately have "wf_evaluation e'"
    using D(1,2,4) room unfolding wf_evaluation_def Let_def by (simp add: e'_def)
  then show thesis
    using that do vals by (simp add: e'_def)
qed

lemma gate_value_total: "gate_value n ws g \<noteq> Panic"
  by (auto simp: gate_value_def split: option.splits)

lemma circuit_evaluation_new_wf:
  assumes "0 < unat r" "2 * unat r + unat m < 2 ^ 30"
  obtains e where "circuit_evaluation_new c k r m = Ok e" "wf_evaluation e" "wire_values e = []"
    "unat (num_wires (ce_bus e)) = 2 * unat r + unat m" "eval_nodes e = []"
proof -
  define n where "n = (2 * ucast r + ucast m :: u64)"
  define w where "w = (ucast n :: u32)"
  have n: "unat n = 2 * unat r + unat m"
    using assms(2) by (simp add: n_def unat_word_ariths)
  then have w: "unat w = 2 * unat r + unat m"
    using assms(2) by (simp add: w_def unsigned_ucast_eq take_bit_eq_mod)
  then have nz: "w \<noteq> 0"
    using assms(1) by (auto simp: word_unat_eq_iff)
  define e where "e = \<lparr>ce_ctx = c, ce_clk = k, ce_bus = \<lparr>id_next = from_u32 (w - 1), wires = [], num_wires = w\<rparr>,
    read_nodes = [], eval_nodes = []\<rparr>"
  have "n \<le> MAX_NUM_ACE_WIRES"
    using n assms(2) by (simp add: word_le_nat_alt MAX_NUM_ACE_WIRES_def MAX_ID_def)
  then have new: "circuit_evaluation_new c k r m = Ok e"
    using nz by (simp add: circuit_evaluation_new_def wire_bus_new_def Let_def e_def flip: n_def w_def)
  have "id_next (ce_bus e) = of_nat (unat w - 1)"
    using nz by (simp add: e_def from_u32_def new_unchecked_def unat_minus_one del: of_nat_diff)
  then have "id_next (ce_bus e) = of_nat (unat w) - 1"
    using w assms(1) by (simp add: of_nat_diff)
  then have "wf_evaluation e"
    using w assms unfolding wf_evaluation_def Let_def by (simp add: e_def)
  then show thesis
    using that new w by (simp add: e_def wire_values_def)
qed

section \<open>The circuit of a memory region\<close>

text \<open>
  \<open>eval_circuit_impl\<close> on a region that holds the input words \<open>ins\<close> followed by the gates \<open>gs\<close>: it succeeds
  exactly when the reference evaluation does and its last wire is zero.
\<close>

lemma length_word_values: "length (concat (map word_values ins)) = 2 * length ins"
proof (induction ins)
  case (Cons w ins)
  then show ?case by (cases w) simp
qed simp

lemma read_rows_words:
  assumes "wf_evaluation e" "length (wires (ce_bus e)) + 2 * length ins \<le> unat (num_wires (ce_bus e))"
    and "\<And>i. i < length ins \<Longrightarrow> mem_read_word (memory P) p c (ptr + 4 * of_nat i) k = Ok (ins ! i)"
  shows "\<exists>e'. read_rows P p c k (length ins) ptr e = Ok (ptr + 4 * of_nat (length ins), e') \<and> wf_evaluation e' \<and>
    wire_values e' = wire_values e @ concat (map word_values ins) \<and>
    num_wires (ce_bus e') = num_wires (ce_bus e) \<and> eval_nodes e' = eval_nodes e"
  using assms
proof (induction ins arbitrary: ptr e)
  case (Cons w ins)
  have first: "mem_read_word (memory P) p c ptr k = Ok w"
    using Cons.prems(3) [of 0] by simp
  obtain e1 where e1: "do_read e ptr w = Ok e1" "wf_evaluation e1" "wire_values e1 = wire_values e @ word_values w"
    "num_wires (ce_bus e1) = num_wires (ce_bus e)" "eval_nodes e1 = eval_nodes e"
    using do_read_word [OF Cons.prems(1), of ptr w] Cons.prems(2) by auto
  have len: "length (wires (ce_bus e1)) = length (wires (ce_bus e)) + 2"
    using arg_cong [OF e1(3), of length] length_word_values [of "[w]"] by simp
  have rest: "mem_read_word (memory P) p c (ptr + PTR_OFFSET_WORD + 4 * of_nat i) k = Ok (ins ! i)" if "i < length ins" for i
    using Cons.prems(3) [of "Suc i"] that by (simp add: PTR_OFFSET_WORD_def algebra_simps)
  show ?case
    using Cons.IH [OF e1(2) _ rest] Cons.prems(2) e1 len first
    by (auto simp: PTR_OFFSET_WORD_def algebra_simps)
qed simp

lemma eval_rows_gates:
  assumes "wf_evaluation e" "length (wires (ce_bus e)) + length gs \<le> unat (num_wires (ce_bus e))"
    and "\<And>i. i < length gs \<Longrightarrow> mem_read_element (memory P) p c (ptr + of_nat i) = Ok (gs ! i)"
  shows "(\<exists>x. eval_gates (unat (num_wires (ce_bus e))) (wire_values e) gs = Err x \<and>
      eval_rows P p c (length gs) ptr e = Err (AceChipError x)) \<or>
    (\<exists>ws e'. eval_gates (unat (num_wires (ce_bus e))) (wire_values e) gs = Ok ws \<and>
      eval_rows P p c (length gs) ptr e = Ok e' \<and> wf_evaluation e' \<and> wire_values e' = ws \<and>
      num_wires (ce_bus e') = num_wires (ce_bus e))"
  using assms
proof (induction gs arbitrary: ptr e)
  case (Cons g gs)
  have first: "mem_read_element (memory P) p c ptr = Ok g"
    using Cons.prems(3) [of 0] by simp
  have rest: "mem_read_element (memory P) p c (ptr + PTR_OFFSET_ELEM + of_nat i) = Ok (gs ! i)" if "i < length gs" for i
    using Cons.prems(3) [of "Suc i"] that by (simp add: PTR_OFFSET_ELEM_def algebra_simps)
  have room: "length (wires (ce_bus e)) < unat (num_wires (ce_bus e))"
    using Cons.prems(2) by simp
  from do_eval_gate [OF Cons.prems(1) room, of g ptr] show ?case
  proof (elim disjE exE conjE)
    fix v e1
    assume *: "gate_value (unat (num_wires (ce_bus e))) (wire_values e) g = Ok v" "do_eval e ptr g = Ok e1"
      "wf_evaluation e1" "wire_values e1 = wire_values e @ [v]" "num_wires (ce_bus e1) = num_wires (ce_bus e)"
    have "length (wires (ce_bus e1)) = length (wires (ce_bus e)) + 1"
      using *(4) by (metis length_append_singleton length_wire_values Suc_eq_plus1)
    then show ?case
      using Cons.IH [OF *(3) _ rest] Cons.prems(2) * first by simp
  qed (simp add: first)
qed simp

lemma output_value_eq:
  "wf_evaluation e \<Longrightarrow> output_value e =
    (if length (wire_values e) = unat (num_wires (ce_bus e)) then Some (last (wire_values e)) else None)"
  using wf_evaluationD(1) [of e] by (auto simp: output_value_def is_finalized_def wire_values_def last_map)

lemma length_eval_gates: "eval_gates n ws gs = Ok vs \<Longrightarrow> length vs = length ws + length gs"
  by (induction gs arbitrary: ws) (auto simp: outcome_simps)

text \<open>Past the checks of the two counts, the circuit of the right size is built.\<close>

definition counts_ok :: "felt \<Rightarrow> felt \<Rightarrow> bool" where
  "counts_ok num_vars num_eval \<longleftrightarrow>
    val num_vars + val num_eval < 2 ^ 30 \<and> even (val num_vars) \<and> num_vars \<noteq> 0 \<and> 4 dvd val num_eval \<and> num_eval \<noteq> 0"

definition count_error :: "felt \<Rightarrow> felt \<Rightarrow> ace_error" where
  "count_error num_vars num_eval =
    (if 2 ^ 30 \<le> val num_vars + val num_eval
     then TooManyWires (saturating_add_u64 (as_canonical_u64 num_vars) (as_canonical_u64 num_eval))
     else if odd (val num_vars) \<or> num_vars = 0 then VarsNotAligned (as_canonical_u64 num_vars)
     else EvalsNotAligned (as_canonical_u64 num_eval))"

definition finish_circuit :: "circuit_evaluation \<Rightarrow> circuit_evaluation exec" where
  "finish_circuit e =
    (if output_value e = None \<or> output_value e \<noteq> Some 0 then Err (AceChipError CircuitNotZero) else Ok e)"

lemma unat_saturating_add_u64: "unat (saturating_add_u64 a b) = min (unat a + unat b) (2 ^ 64 - 1)"
  by (simp add: saturating_add_u64_def unat_word_ariths unsigned_minus_1_eq_mask mask_eq_exp_minus_1)

lemma counts_rejected:
  assumes "\<not> counts_ok num_vars num_eval"
  shows "eval_circuit_impl P p c ptr k num_vars num_eval = Err (AceChipError (count_error num_vars num_eval))"
proof -
  have "as_canonical_u64 num_vars mod 2 \<noteq> 0 \<longleftrightarrow> odd (val num_vars)"
    by (simp add: word_unat_eq_iff unat_mod odd_iff_mod_2_eq_one)
  moreover have "as_canonical_u64 num_eval mod 4 \<noteq> 0 \<longleftrightarrow> \<not> 4 dvd val num_eval"
    by (simp add: word_unat_eq_iff unat_mod dvd_eq_mod_eq_0)
  ultimately show ?thesis
    using assms
    by (auto simp: eval_circuit_impl_def Let_def counts_ok_def count_error_def word_less_nat_alt unat_saturating_add_u64
        MAX_NUM_ACE_WIRES_def MAX_ID_def word_unat_eq_iff)
qed

lemma counts_accepted:
  fixes num_vars num_eval :: felt
  defines "r \<equiv> ucast (as_canonical_u64 num_vars div 2) :: u32" and "m \<equiv> ucast (as_canonical_u64 num_eval) :: u32"
  assumes "counts_ok num_vars num_eval"
  shows "\<exists>e. circuit_evaluation_new c k r m = Ok e \<and> wf_evaluation e \<and> wire_values e = [] \<and>
      unat (num_wires (ce_bus e)) = val num_vars + val num_eval"
    and "circuit_evaluation_new c k r m = Ok e \<Longrightarrow> eval_circuit_impl P p c ptr k num_vars num_eval =
      bindO (read_rows P p c k (val num_vars div 2) ptr e) (\<lambda>(ptr, e).
      bindO (eval_rows P p c (val num_eval) ptr e) finish_circuit)"
proof -
  have D: "val num_vars + val num_eval < 2 ^ 30" "even (val num_vars)" "num_vars \<noteq> 0" "4 dvd val num_eval"
    "num_eval \<noteq> 0"
    using assms(3) by (simp_all add: counts_ok_def)
  have r: "unat r = val num_vars div 2" and m: "unat m = val num_eval"
    using D(1) by (simp_all add: r_def m_def unsigned_ucast_eq take_bit_eq_mod unat_div)
  have "0 < val num_vars"
    using D(3) by (metis gr0I val_eq_0)
  then have vars: "2 * (val num_vars div 2) = val num_vars" "0 < val num_vars div 2"
    using D(2) by (auto elim!: evenE)
  then show "\<exists>e. circuit_evaluation_new c k r m = Ok e \<and> wf_evaluation e \<and> wire_values e = [] \<and>
      unat (num_wires (ce_bus e)) = val num_vars + val num_eval"
    using circuit_evaluation_new_wf [of r m c k] D(1) r m by auto
  have g1: "as_canonical_u64 num_vars mod 2 = 0" "as_canonical_u64 num_eval mod 4 = 0"
    using D by (simp_all add: word_unat_eq_iff unat_mod)
  have g2: "\<not> saturating_add_u64 (as_canonical_u64 num_vars) (as_canonical_u64 num_eval) > MAX_NUM_ACE_WIRES"
    using D(1) by (simp add: word_less_nat_alt unat_saturating_add_u64 MAX_NUM_ACE_WIRES_def MAX_ID_def)
  show "circuit_evaluation_new c k r m = Ok e \<Longrightarrow> eval_circuit_impl P p c ptr k num_vars num_eval =
      bindO (read_rows P p c k (val num_vars div 2) ptr e) (\<lambda>(ptr, e).
      bindO (eval_rows P p c (val num_eval) ptr e) finish_circuit)"
    using g1 g2 D(3,5) r m
    by (simp add: eval_circuit_impl_def Let_def finish_circuit_def [abs_def] word_unat_eq_iff flip: r_def m_def)
qed

lemma eval_circuit_region:
  assumes n: "val num_vars = 2 * length ins" "val num_eval = length gs"
    and counts: "ins \<noteq> []" "gs \<noteq> []" "4 dvd length gs" "2 * length ins + length gs < 2 ^ 30"
    and ins: "\<And>i. i < length ins \<Longrightarrow> mem_read_word (memory P) p c (ptr + 4 * of_nat i) k = Ok (ins ! i)"
    and gs: "\<And>i. i < length gs \<Longrightarrow>
      mem_read_element (memory P) p c (ptr + 4 * of_nat (length ins) + of_nat i) = Ok (gs ! i)"
  shows "case eval_gates (2 * length ins + length gs) (concat (map word_values ins)) gs of
      Ok ws \<Rightarrow>
        if last ws = 0
        then \<exists>e. eval_circuit_impl P p c ptr k num_vars num_eval = Ok e \<and>
               wf_evaluation e \<and> wire_values e = ws
        else eval_circuit_impl P p c ptr k num_vars num_eval =
               Err (AceChipError CircuitNotZero)
    | Err x \<Rightarrow> eval_circuit_impl P p c ptr k num_vars num_eval = Err (AceChipError x)
    | Panic \<Rightarrow> False"
proof -
  let ?n = "2 * length ins + length gs"
  have "num_vars \<noteq> 0" "num_eval \<noteq> 0"
    using n counts(1,2) by auto
  then have ok: "counts_ok num_vars num_eval"
    using n counts(3,4) by (simp add: counts_ok_def)
  obtain e0 where new: "circuit_evaluation_new c k (ucast (as_canonical_u64 num_vars div 2))
      (ucast (as_canonical_u64 num_eval)) = Ok e0"
    and e0: "wf_evaluation e0" "wire_values e0 = []" "unat (num_wires (ce_bus e0)) = ?n"
    using counts_accepted(1) [OF ok] unfolding n by blast
  have impl: "eval_circuit_impl P p c ptr k num_vars num_eval =
      bindO (read_rows P p c k (length ins) ptr e0) (\<lambda>(ptr, e). bindO (eval_rows P p c (length gs) ptr e) finish_circuit)"
    using counts_accepted(2) [OF ok new, of P p ptr] n by simp
  have len0: "length (wires (ce_bus e0)) = 0"
    using e0(2) by (metis length_wire_values list.size(3))
  obtain e1 where e1: "read_rows P p c k (length ins) ptr e0 = Ok (ptr + 4 * of_nat (length ins), e1)"
    "wf_evaluation e1" "wire_values e1 = concat (map word_values ins)" "unat (num_wires (ce_bus e1)) = ?n"
    using read_rows_words [OF e0(1) _ ins] e0(2,3) len0 by auto
  have len1: "length (wires (ce_bus e1)) = 2 * length ins"
    using e1(3) by (metis length_wire_values length_word_values)
  have full: "length (wires (ce_bus e)) = ?n"
    if "eval_gates ?n (concat (map word_values ins)) gs = Ok (wire_values e)" for e
    using length_eval_gates [OF that] by (simp add: length_word_values del: length_concat)
  show ?thesis
    using eval_rows_gates [OF e1(2) _ gs] e1 len1 counts(2) full
    by (auto simp: impl finish_circuit_def output_value_eq)
qed

section \<open>Simulation\<close>

context processor_sim
begin

lemma read_rows_sim:
  assumes "R p q" "wf_evaluation e" "length (wires (ce_bus e)) + 2 * n + m \<le> unat (num_wires (ce_bus e))"
  shows "sim (\<lambda>x y. x = y \<and> wf_evaluation (snd x) \<and>
      length (wires (ce_bus (snd x))) + m \<le> unat (num_wires (ce_bus (snd x))))
    (read_rows P p c k n ptr e) (read_rows Q q c k n ptr e)"
  using assms(2,3)
proof (induction n arbitrary: ptr e)
  case (Suc n)
  show ?case
    unfolding read_rows.simps
  proof (rule sim_read_word [OF assms(1)])
    fix w
    obtain e1 where e1: "do_read e ptr w = Ok e1" "wf_evaluation e1" "wire_values e1 = wire_values e @ word_values w"
      "num_wires (ce_bus e1) = num_wires (ce_bus e)"
      using do_read_word [OF Suc.prems(1), of ptr w] Suc.prems(2) by auto
    have "length (wire_values e1) = length (wire_values e) + 2"
      using e1(3) length_word_values [of "[w]"] by simp
    then show "sim (\<lambda>x y. x = y \<and> wf_evaluation (snd x) \<and>
        length (wires (ce_bus (snd x))) + m \<le> unat (num_wires (ce_bus (snd x))))
      (bindO (do_read e ptr w) (read_rows P p c k n (ptr + PTR_OFFSET_WORD)))
      (bindO (do_read e ptr w) (read_rows Q q c k n (ptr + PTR_OFFSET_WORD)))"
      using Suc.IH [OF e1(2)] Suc.prems(2) e1(1,4) by simp
  qed
qed simp

lemma eval_rows_sim:
  assumes "R p q" "wf_evaluation e" "length (wires (ce_bus e)) + m \<le> unat (num_wires (ce_bus e))"
  shows "sim (=) (eval_rows P p c m ptr e) (eval_rows Q q c m ptr e)"
  using assms(2,3)
proof (induction m arbitrary: ptr e)
  case (Suc m)
  show ?case
    unfolding eval_rows.simps
  proof (rule sim_read_element [OF assms(1)])
    fix g
    have "length (wires (ce_bus e)) < unat (num_wires (ce_bus e))"
      using Suc.prems(2) by simp
    from do_eval_gate [OF Suc.prems(1) this, of g ptr]
    show "sim (=) (bindO (do_eval e ptr g) (eval_rows P p c m (ptr + PTR_OFFSET_ELEM)))
      (bindO (do_eval e ptr g) (eval_rows Q q c m (ptr + PTR_OFFSET_ELEM)))"
    proof (elim disjE exE conjE)
      fix v e1
      assume *: "do_eval e ptr g = Ok e1" "wf_evaluation e1" "wire_values e1 = wire_values e @ [v]"
        "num_wires (ce_bus e1) = num_wires (ce_bus e)"
      then have "length (wires (ce_bus e1)) = length (wires (ce_bus e)) + 1"
        by (metis length_append_singleton length_wire_values Suc_eq_plus1)
      then show ?thesis
        using Suc.IH [OF *(2)] Suc.prems(2) * by simp
    qed simp
  qed
qed simp

lemma eval_circuit_impl_sim:
  assumes "R p q"
  shows "sim (=) (eval_circuit_impl P p c ptr k num_vars num_eval) (eval_circuit_impl Q q c ptr k num_vars num_eval)"
proof (cases "counts_ok num_vars num_eval")
  case True
  obtain e where e: "circuit_evaluation_new c k (ucast (as_canonical_u64 num_vars div 2))
      (ucast (as_canonical_u64 num_eval)) = Ok e"
    and wf: "wf_evaluation e" "wire_values e = []" "unat (num_wires (ce_bus e)) = val num_vars + val num_eval"
    using counts_accepted(1) [OF True] by blast
  have "length (wires (ce_bus e)) + 2 * (val num_vars div 2) + val num_eval \<le> unat (num_wires (ce_bus e))"
    using wf by (metis length_wire_values list.size(3) add_0 add_le_mono1 times_div_less_eq_dividend)
  from read_rows_sim [OF assms wf(1) this] show ?thesis
    unfolding counts_accepted(2) [OF True e]
    by (rule sim_bind) (auto intro!: sim_bind_eq [OF eval_rows_sim] assms simp: finish_circuit_def)
next
  case False
  then show ?thesis by (simp add: counts_rejected)
qed

lemma ace_sim: "R p q \<Longrightarrow> sim (rel_op R) (op_eval_circuit P p) (op_eval_circuit Q q)"
  unfolding op_eval_circuit_def
  by (intro sim_intros sim_bind [OF eval_circuit_impl_sim]; simp)

end

end
