(* ===== verification/Fast_Stack.thy ===== *)
theory Fast_Stack
  imports Machine
begin

text \<open>
  The operand stack of the fast processor (\<open>processor/src/fast/mod.rs\<close>) and its implementation of
  the stack trait (\<open>processor/src/fast/operation.rs\<close>). The stack lives in a buffer that grows upwards:
  \<open>stack_top_idx\<close> points one past the top, \<open>stack_bot_idx\<close> at the deepest element, and the cells below
  it are zero, so that the sixteen accessible elements always exist. Pushing at the end of the buffer
  reallocates it and recentres the live elements; popping at its start moves them back to the middle; a
  call saves the elements beyond the sixteenth and its return puts them back. The debug assertions of
  the source are part of the definitions: a state in which one fails is a panic.
\<close>

section \<open>State\<close>

record 'd fast_processor = "'d sys_state" +
  fp_stack :: "felt list"
  stack_top_idx :: nat
  stack_bot_idx :: nat
  stack_overflow_save_stack :: "felt list list"
  saved_overflow_len :: nat

definition INITIAL_STACK_BUFFER_SIZE :: nat where
  "INITIAL_STACK_BUFFER_SIZE = 6850"

definition INITIAL_STACK_TOP_IDX :: nat where
  "INITIAL_STACK_TOP_IDX = 250"

definition STACK_BUFFER_BASE_IDX :: nat where
  "STACK_BUFFER_BASE_IDX = INITIAL_STACK_TOP_IDX - MIN_STACK_DEPTH"

definition stack_size :: "'d fast_processor \<Rightarrow> nat exec" where
  "stack_size p = usub (stack_top_idx p) (stack_bot_idx p)"

definition stack_depth :: "'d fast_processor \<Rightarrow> u32 exec" where
  "stack_depth p = bindO (usub (stack_top_idx p) (stack_bot_idx p)) (\<lambda>n. Ok (word_of_nat n))"

section \<open>Access\<close>

definition stack_get :: "'d fast_processor \<Rightarrow> nat \<Rightarrow> felt exec" where
  "stack_get p idx =
    bindO (usub (stack_top_idx p) idx) (\<lambda>k. bindO (usub k 1) (\<lambda>k. fetch (fp_stack p) k))"

definition stack_get_safe :: "'d fast_processor \<Rightarrow> nat \<Rightarrow> felt exec" where
  "stack_get_safe p idx = (if idx < stack_top_idx p then stack_get p idx else Ok 0)"

definition stack_get_word :: "'d fast_processor \<Rightarrow> nat \<Rightarrow> qword exec" where
  "stack_get_word p start_idx =
    bindO (stack_depth p) (\<lambda>d. bindO (assertO (start_idx + WORD_SIZE \<le> unat d)) (\<lambda>_.
    bindO (usub (stack_top_idx p) start_idx) (\<lambda>k. bindO (usub k WORD_SIZE) (\<lambda>k.
    bindO (fetch_range (fp_stack p) k WORD_SIZE) (\<lambda>result. word_of_list (rev result))))))"

definition stack_get_word_safe :: "'d fast_processor \<Rightarrow> nat \<Rightarrow> qword exec" where
  "stack_get_word_safe p start_idx =
    (let buf_end = stack_top_idx p - start_idx;
         buf_start = stack_top_idx p - saturating_add start_idx WORD_SIZE;
         n = buf_end - buf_start in
     if n = WORD_SIZE
     then bindO (fetch_range (fp_stack p) buf_start WORD_SIZE) (\<lambda>result. word_of_list (rev result))
     else if n > 0
     then bindO (fetch_range (fp_stack p) buf_start n) (\<lambda>r.
            word_of_list (rev (replicate (WORD_SIZE - n) 0 @ r)))
     else Ok EMPTY_WORD)"

definition stack_write :: "'d fast_processor \<Rightarrow> nat \<Rightarrow> felt \<Rightarrow> 'd fast_processor exec" where
  "stack_write p idx element =
    bindO (usub (stack_top_idx p) idx) (\<lambda>k. bindO (usub k 1) (\<lambda>k.
    bindO (store (fp_stack p) k element) (\<lambda>st. Ok (p\<lparr>fp_stack := st\<rparr>))))"

definition stack_write_word :: "'d fast_processor \<Rightarrow> nat \<Rightarrow> qword \<Rightarrow> 'd fast_processor exec" where
  "stack_write_word p start_idx word =
    bindO (assertO (start_idx \<le> MIN_STACK_DEPTH - WORD_SIZE)) (\<lambda>_.
    bindO (usub (stack_top_idx p) start_idx) (\<lambda>k. bindO (usub k 4) (\<lambda>k.
    bindO (store_range (fp_stack p) k (rev (into_elements word))) (\<lambda>st. Ok (p\<lparr>fp_stack := st\<rparr>)))))"

definition stack_swap :: "'d fast_processor \<Rightarrow> nat \<Rightarrow> nat \<Rightarrow> 'd fast_processor exec" where
  "stack_swap p idx1 idx2 =
    bindO (stack_get p idx1) (\<lambda>a. bindO (stack_get p idx2) (\<lambda>b.
    bindO (stack_write p idx1 b) (\<lambda>p. stack_write p idx2 a)))"

definition swapw_nth :: "'d fast_processor \<Rightarrow> nat \<Rightarrow> 'd fast_processor exec" where
  "swapw_nth p n =
    bindO (usub (stack_top_idx p) WORD_SIZE) (\<lambda>t.
    bindO (assertO (t \<le> length (fp_stack p))) (\<lambda>_.
    bindO (usub t (n * WORD_SIZE)) (\<lambda>b.
    bindO (assertO (WORD_SIZE \<le> n * WORD_SIZE)) (\<lambda>_.
    bindO (fetch_range (fp_stack p) t WORD_SIZE) (\<lambda>top_word.
    bindO (fetch_range (fp_stack p) b WORD_SIZE) (\<lambda>nth_word.
    bindO (store_range (fp_stack p) b top_word) (\<lambda>st.
    bindO (store_range st t nth_word) (\<lambda>st. Ok (p\<lparr>fp_stack := st\<rparr>)))))))))"

definition rotate_left_fast :: "'d fast_processor \<Rightarrow> nat \<Rightarrow> 'd fast_processor exec" where
  "rotate_left_fast p n =
    bindO (usub (stack_top_idx p) n) (\<lambda>rotation_bot_index.
    bindO (fetch (fp_stack p) rotation_bot_index) (\<lambda>new_stack_top_element.
    bindO (usub n 1) (\<lambda>m.
    bindO (foldO (\<lambda>i st. bindO (fetch st (rotation_bot_index + i + 1)) (\<lambda>x. store st (rotation_bot_index + i) x))
      [0..<m] (fp_stack p)) (\<lambda>st.
    stack_write (p\<lparr>fp_stack := st\<rparr>) 0 new_stack_top_element))))"

definition rotate_right_fast :: "'d fast_processor \<Rightarrow> nat \<Rightarrow> 'd fast_processor exec" where
  "rotate_right_fast p n =
    bindO (usub (stack_top_idx p) n) (\<lambda>rotation_bot_index.
    bindO (usub (stack_top_idx p) 1) (\<lambda>k.
    bindO (fetch (fp_stack p) k) (\<lambda>new_stack_bot_element.
    bindO (foldO (\<lambda>i st.
        bindO (usub (stack_top_idx p) i) (\<lambda>j. bindO (usub j 1) (\<lambda>k.
        bindO (fetch st k) (\<lambda>x. store st j x)))) [1..<n] (fp_stack p)) (\<lambda>st.
    bindO (store st rotation_bot_index new_stack_bot_element) (\<lambda>st. Ok (p\<lparr>fp_stack := st\<rparr>))))))"

section \<open>Depth\<close>

definition grow_stack_buffer :: "'d fast_processor \<Rightarrow> nat \<Rightarrow> 'd fast_processor exec" where
  "grow_stack_buffer p requested_min_len =
    (let max_len = saturating_add (saturating_add STACK_BUFFER_BASE_IDX (max_stack_depth (options p))) 1 in
     bindO (stack_size p) (\<lambda>live_len.
     let recentered_min_len = saturating_add (saturating_add STACK_BUFFER_BASE_IDX live_len) 2 in
     bindO (assertO (recentered_min_len \<le> max_len)) (\<lambda>_.
     let new_len = min (max (saturating_mul recentered_min_len 2) requested_min_len) max_len in
     bindO (assertO (new_len \<le> max_len)) (\<lambda>_.
     let new_stack = replicate new_len 0;
         new_stack_bot_idx = STACK_BUFFER_BASE_IDX;
         new_stack_top_idx = new_stack_bot_idx + live_len in
     bindO (fetch_range (fp_stack p) (stack_bot_idx p) live_len) (\<lambda>live.
     bindO (store_range new_stack new_stack_bot_idx live) (\<lambda>st.
       Ok (p\<lparr>fp_stack := st, stack_bot_idx := new_stack_bot_idx, stack_top_idx := new_stack_top_idx\<rparr>)))))))"

definition ensure_stack_capacity_for_push :: "'d fast_processor \<Rightarrow> 'd fast_processor exec" where
  "ensure_stack_capacity_for_push p =
    bindO (stack_size p) (\<lambda>n.
    let depth = n + saved_overflow_len p + 1; max = max_stack_depth (options p) in
    if depth > max then Err (StackDepthLimitExceeded depth max)
    else bindO (usub (length (fp_stack p)) 1) (\<lambda>last.
      if stack_top_idx p \<ge> last then grow_stack_buffer p (stack_top_idx p + 2) else Ok p))"

definition ensure_stack_capacity_for_top_idx :: "'d fast_processor \<Rightarrow> nat \<Rightarrow> 'd fast_processor exec" where
  "ensure_stack_capacity_for_top_idx p top_idx =
    (if top_idx \<ge> length (fp_stack p) then grow_stack_buffer p (top_idx + 1) else Ok p)"

definition increment_size :: "'d fast_processor \<Rightarrow> 'd fast_processor exec" where
  "increment_size p =
    bindO (ensure_stack_capacity_for_push p) (\<lambda>p. Ok (p\<lparr>stack_top_idx := stack_top_idx p + 1\<rparr>))"

definition reset_stack_in_buffer :: "'d fast_processor \<Rightarrow> nat \<Rightarrow> 'd fast_processor exec" where
  "reset_stack_in_buffer p new_stack_top_idx =
    bindO (stack_depth p) (\<lambda>d. bindO (assertO (d = word_of_nat MIN_STACK_DEPTH)) (\<lambda>_.
    bindO (usub new_stack_top_idx MIN_STACK_DEPTH) (\<lambda>new_stack_bot_idx.
    bindO (fetch_range (fp_stack p) (stack_bot_idx p) (stack_top_idx p - stack_bot_idx p)) (\<lambda>live.
    bindO (store_range (fp_stack p) new_stack_bot_idx live) (\<lambda>st.
    bindO (store_range st 0 (replicate new_stack_bot_idx 0)) (\<lambda>st.
      Ok (p\<lparr>fp_stack := st, stack_bot_idx := new_stack_bot_idx, stack_top_idx := new_stack_top_idx\<rparr>)))))))"

definition decrement_size :: "'d fast_processor \<Rightarrow> 'd fast_processor exec" where
  "decrement_size p =
    bindO (if stack_top_idx p = MIN_STACK_DEPTH
           then reset_stack_in_buffer p INITIAL_STACK_TOP_IDX else Ok p) (\<lambda>p.
    bindO (usub (stack_top_idx p) 1) (\<lambda>top.
    bindO (usub top MIN_STACK_DEPTH) (\<lambda>b.
      Ok (p\<lparr>stack_top_idx := top, stack_bot_idx := min (stack_bot_idx p) b\<rparr>))))"

section \<open>Contexts\<close>

definition start_context :: "'d fast_processor \<Rightarrow> 'd fast_processor exec" where
  "start_context p =
    bindO (stack_size p) (\<lambda>n.
    bindO (usub (stack_top_idx p) MIN_STACK_DEPTH) (\<lambda>b.
    bindO (if n > MIN_STACK_DEPTH
           then bindO (fetch_range (fp_stack p) (stack_bot_idx p) (b - stack_bot_idx p)) (\<lambda>overflow.
                bindO (store_range (fp_stack p) (stack_bot_idx p) (replicate (b - stack_bot_idx p) 0)) (\<lambda>st.
                  Ok (overflow, st)))
           else Ok ([], fp_stack p)) (\<lambda>(overflow, st).
      Ok (p\<lparr>fp_stack := st, stack_bot_idx := b,
            saved_overflow_len := saved_overflow_len p + length overflow,
            stack_overflow_save_stack := overflow # stack_overflow_save_stack p\<rparr>))))"

definition restore_context :: "'d fast_processor \<Rightarrow> 'd fast_processor exec" where
  "restore_context p =
    bindO (stack_size p) (\<lambda>n.
    if n > MIN_STACK_DEPTH then Err (OperationErr (InvalidStackDepthOnReturn n))
    else
      (case stack_overflow_save_stack p of
         [] \<Rightarrow> Err (OperationErr (OpInternal
           ''stack overflow save stack should never be empty when restoring context''))
       | overflow # saves \<Rightarrow>
           let len = length overflow; p = p\<lparr>stack_overflow_save_stack := saves\<rparr> in
           bindO (assertO (saturating_add MIN_STACK_DEPTH len \<le> max_stack_depth (options p))) (\<lambda>_.
           bindO (usub (saved_overflow_len p) len) (\<lambda>s.
           let p = p\<lparr>saved_overflow_len := s\<rparr> in
           bindO (if len > stack_bot_idx p
                  then let top = INITIAL_STACK_TOP_IDX + len in
                    bindO (ensure_stack_capacity_for_top_idx p top) (\<lambda>p. reset_stack_in_buffer p top)
                  else Ok p) (\<lambda>p.
           bindO (usub (stack_bot_idx p) len) (\<lambda>b.
           bindO (store_range (fp_stack p) b overflow) (\<lambda>st.
             Ok (p\<lparr>fp_stack := st, stack_bot_idx := b\<rparr>))))))))"

section \<open>The processor\<close>

definition fast_stack :: "'d fast_processor stack_interface" where
  "fast_stack =
    \<lparr>stk_get = stack_get, stk_get_word = stack_get_word, stk_depth = stack_depth,
     stk_set = stack_write, stk_set_word = stack_write_word, stk_swap = stack_swap,
     stk_swapw_nth = swapw_nth, stk_rotate_left = rotate_left_fast,
     stk_rotate_right = rotate_right_fast, stk_increment_size = increment_size,
     stk_decrement_size = decrement_size, stk_start_context = start_context,
     stk_restore_context = restore_context\<rparr>"

definition fast :: "'d env \<Rightarrow> 'd fast_processor processor" where
  "fast E = processor_with fast_stack E"

definition new_with_options ::
    "'d \<Rightarrow> qword list \<Rightarrow> felt list \<Rightarrow> advice_stack \<Rightarrow> advice_map \<Rightarrow> inner_node list \<Rightarrow> exec_options
      \<Rightarrow> (advice_error, 'd fast_processor) outcome" where
  "new_with_options d empty_subtrees stack_inputs adv_s adv_m adv_n opts =
    bindO (foldO (\<lambda>(i, input) st.
        bindO (usub (INITIAL_STACK_TOP_IDX - 1) i) (\<lambda>k. store st k input))
      (enumerate 0 stack_inputs) (replicate INITIAL_STACK_BUFFER_SIZE 0)) (\<lambda>st.
    bindO (advice_new empty_subtrees (opt_max_advice_size_bytes opts) adv_s adv_m adv_n) (\<lambda>a.
      Ok \<lparr>clk = 0, ctx = 0, caller_hash = EMPTY_WORD, advice_st = a,
          memory_st = memory_new (max_memory_elements opts), system_call_state_stack = [],
          options = opts, deferred_state = d,
          fp_stack = st, stack_top_idx = INITIAL_STACK_TOP_IDX,
          stack_bot_idx = INITIAL_STACK_TOP_IDX - MIN_STACK_DEPTH,
          stack_overflow_save_stack = [], saved_overflow_len = 0\<rparr>))"

end
