(* ===== verification/Stack_Spec.thy ===== *)
theory Stack_Spec
  imports Machine
begin

text \<open>
  The reference machine: the same system state, with the operand stack as a list, its top first, of
  at least sixteen elements, and the elements of the suspended contexts beyond the sixteenth as a list of
  lists. It is what \<open>docs/src/design/stack/index.md\<close> describes: a push moves every element down, a pop
  pulls a zero in when the stack is at its minimum depth, and the total depth over all contexts is
  bounded.
\<close>

record 'd vm = "'d sys_state" +
  stk :: "felt list"
  saved :: "felt list list"

definition total_saved :: "'d vm \<Rightarrow> nat" where
  "total_saved v = sum_list (map length (saved v))"

definition wf_vm :: "'d vm \<Rightarrow> bool" where
  "wf_vm v \<longleftrightarrow>
    16 \<le> length (stk v) \<and> length (stk v) + total_saved v \<le> max_stack_depth (options v)"

definition vm_get :: "'d vm \<Rightarrow> nat \<Rightarrow> felt exec" where
  "vm_get v i = fetch (stk v) i"

definition vm_get_word :: "'d vm \<Rightarrow> nat \<Rightarrow> qword exec" where
  "vm_get_word v i = bindO (fetch_range (stk v) i 4) word_of_list"

definition vm_depth :: "'d vm \<Rightarrow> u32 exec" where
  "vm_depth v = Ok (word_of_nat (length (stk v)))"

definition vm_set :: "'d vm \<Rightarrow> nat \<Rightarrow> felt \<Rightarrow> 'd vm exec" where
  "vm_set v i x = bindO (store (stk v) i x) (\<lambda>s. Ok (v\<lparr>stk := s\<rparr>))"

definition vm_set_word :: "'d vm \<Rightarrow> nat \<Rightarrow> qword \<Rightarrow> 'd vm exec" where
  "vm_set_word v i w = bindO (store_range (stk v) i (into_elements w)) (\<lambda>s. Ok (v\<lparr>stk := s\<rparr>))"

definition vm_swap :: "'d vm \<Rightarrow> nat \<Rightarrow> nat \<Rightarrow> 'd vm exec" where
  "vm_swap v i j =
    (if i < length (stk v) \<and> j < length (stk v)
     then Ok (v\<lparr>stk := (stk v)[i := stk v ! j, j := stk v ! i]\<rparr>) else Panic)"

definition vm_swapw_nth :: "'d vm \<Rightarrow> nat \<Rightarrow> 'd vm exec" where
  "vm_swapw_nth v n =
    (if 0 < n \<and> 4 * n + 4 \<le> length (stk v)
     then Ok (v\<lparr>stk := slice (4 * n) 4 (stk v) @ slice 4 (4 * n - 4) (stk v) @ take 4 (stk v)
                       @ drop (4 * n + 4) (stk v)\<rparr>)
     else Panic)"

definition vm_rotate_left :: "'d vm \<Rightarrow> nat \<Rightarrow> 'd vm exec" where
  "vm_rotate_left v n =
    (if 0 < n \<and> n \<le> length (stk v)
     then Ok (v\<lparr>stk := (stk v ! (n - 1)) # take (n - 1) (stk v) @ drop n (stk v)\<rparr>) else Panic)"

definition vm_rotate_right :: "'d vm \<Rightarrow> nat \<Rightarrow> 'd vm exec" where
  "vm_rotate_right v n =
    (if 0 < n \<and> n \<le> length (stk v)
     then Ok (v\<lparr>stk := slice 1 (n - 1) (stk v) @ (stk v ! 0) # drop n (stk v)\<rparr>) else Panic)"

definition vm_increment_size :: "'d vm \<Rightarrow> 'd vm exec" where
  "vm_increment_size v =
    (let depth = length (stk v) + total_saved v + 1; max = max_stack_depth (options v) in
     if depth > max then Err (StackDepthLimitExceeded depth max) else Ok (v\<lparr>stk := 0 # stk v\<rparr>))"

definition vm_decrement_size :: "'d vm \<Rightarrow> 'd vm exec" where
  "vm_decrement_size v =
    Ok (v\<lparr>stk := (if length (stk v) > 16 then tl (stk v) else tl (stk v) @ [0])\<rparr>)"

definition vm_start_context :: "'d vm \<Rightarrow> 'd vm exec" where
  "vm_start_context v = Ok (v\<lparr>stk := take 16 (stk v), saved := drop 16 (stk v) # saved v\<rparr>)"

definition vm_restore_context :: "'d vm \<Rightarrow> 'd vm exec" where
  "vm_restore_context v =
    (if length (stk v) > 16 then Err (OperationErr (InvalidStackDepthOnReturn (length (stk v))))
     else case saved v of
       [] \<Rightarrow> Err (OperationErr (OpInternal
         ''stack overflow save stack should never be empty when restoring context''))
     | overflow # rest \<Rightarrow> Ok (v\<lparr>stk := stk v @ overflow, saved := rest\<rparr>))"

definition vm_stack :: "'d vm stack_interface" where
  "vm_stack =
    \<lparr>stk_get = vm_get, stk_get_word = vm_get_word, stk_depth = vm_depth, stk_set = vm_set,
     stk_set_word = vm_set_word, stk_swap = vm_swap, stk_swapw_nth = vm_swapw_nth,
     stk_rotate_left = vm_rotate_left, stk_rotate_right = vm_rotate_right,
     stk_increment_size = vm_increment_size, stk_decrement_size = vm_decrement_size,
     stk_start_context = vm_start_context, stk_restore_context = vm_restore_context\<rparr>"

definition ref :: "'d env \<Rightarrow> 'd vm processor" where
  "ref E = processor_with vm_stack E"

end
