(* ===== verification/Fast_Refine.thy ===== *)
theory Fast_Refine
  imports Fast_Stack Stack_Spec
begin

text \<open>
  The buffer of the fast processor implements the stack of the reference machine: the invariant of
  the buffer, the list it stands for, and one lemma per method of the stack trait that it performs the
  list operation, keeps the invariant, and never panics.
\<close>

section \<open>Invariant and abstraction\<close>

definition wf_fast :: "'d fast_processor \<Rightarrow> bool" where
  "wf_fast p \<longleftrightarrow>
    stack_bot_idx p + 16 \<le> stack_top_idx p \<and> stack_top_idx p < length (fp_stack p) \<and>
    251 \<le> length (fp_stack p) \<and> (\<forall>i < stack_bot_idx p. fp_stack p ! i = 0) \<and>
    saved_overflow_len p = sum_list (map length (stack_overflow_save_stack p)) \<and>
    stack_top_idx p - stack_bot_idx p + saved_overflow_len p \<le> max_stack_depth (options p) \<and>
    max_stack_depth (options p) < 2 ^ 32"

definition live :: "'d fast_processor \<Rightarrow> felt list" where
  "live p = slice (stack_bot_idx p) (stack_top_idx p - stack_bot_idx p) (fp_stack p)"

definition abs_vm :: "'d fast_processor \<Rightarrow> 'd vm" where
  "abs_vm p =
    \<lparr>clk = clk p, ctx = ctx p, caller_hash = caller_hash p, advice_st = advice_st p,
     memory_st = memory_st p, system_call_state_stack = system_call_state_stack p,
     options = options p, deferred_state = deferred_state p,
     stk = rev (live p), saved = map rev (stack_overflow_save_stack p)\<rparr>"

text \<open>\<open>sim_state okay absf r r'\<close>: the concrete result \<open>r\<close> is the abstract result \<open>r'\<close>, state for
  state and error for error, and its state satisfies the invariant.\<close>

definition sim_state :: "('p \<Rightarrow> bool) \<Rightarrow> ('p \<Rightarrow> 'q) \<Rightarrow> ('e, 'p) outcome \<Rightarrow> ('e, 'q) outcome \<Rightarrow> bool" where
  "sim_state okay absf r r' \<longleftrightarrow> sim (\<lambda>p q. okay p \<and> q = absf p) r r'"

lemma sim_state_Ok: "sim_state okay absf (Ok p) r' \<longleftrightarrow> okay p \<and> r' = Ok (absf p)"
  by (auto simp: sim_state_def)

lemma sim_state_Err: "sim_state okay absf (Err e) r' \<longleftrightarrow> r' = Err e"
  by (simp add: sim_state_def)

section \<open>The list in the buffer\<close>

abbreviation depth_of :: "'d fast_processor \<Rightarrow> nat" where
  "depth_of p \<equiv> stack_top_idx p - stack_bot_idx p"

lemma wf_fastD:
  assumes "wf_fast p"
  shows "stack_bot_idx p + 16 \<le> stack_top_idx p" "stack_top_idx p < length (fp_stack p)"
    "251 \<le> length (fp_stack p)" "\<And>i. i < stack_bot_idx p \<Longrightarrow> fp_stack p ! i = 0"
    "saved_overflow_len p = sum_list (map length (stack_overflow_save_stack p))"
    "depth_of p + saved_overflow_len p \<le> max_stack_depth (options p)"
    "max_stack_depth (options p) < 4294967296" "16 \<le> depth_of p"
  using assms by (auto simp: wf_fast_def)

lemma wf_fastI:
  assumes "stack_bot_idx p + 16 \<le> stack_top_idx p" "stack_top_idx p < length (fp_stack p)"
    "251 \<le> length (fp_stack p)" "\<And>i. i < stack_bot_idx p \<Longrightarrow> fp_stack p ! i = 0"
    "saved_overflow_len p = sum_list (map length (stack_overflow_save_stack p))"
    "depth_of p + saved_overflow_len p \<le> max_stack_depth (options p)"
    "max_stack_depth (options p) < 4294967296"
  shows "wf_fast p"
  using assms by (simp add: wf_fast_def)

lemma abs_vm_sel [simp]:
  "clk (abs_vm p) = clk p" "ctx (abs_vm p) = ctx p" "caller_hash (abs_vm p) = caller_hash p"
  "advice_st (abs_vm p) = advice_st p" "memory_st (abs_vm p) = memory_st p"
  "system_call_state_stack (abs_vm p) = system_call_state_stack p"
  "options (abs_vm p) = options p" "deferred_state (abs_vm p) = deferred_state p"
  "stk (abs_vm p) = rev (live p)" "saved (abs_vm p) = map rev (stack_overflow_save_stack p)"
  by (simp_all add: abs_vm_def)

lemma length_live [simp]: "wf_fast p \<Longrightarrow> length (live p) = depth_of p"
  using wf_fastD [of p] by (simp add: live_def)

lemma nth_live:
  "wf_fast p \<Longrightarrow> i < depth_of p \<Longrightarrow> rev (live p) ! i = fp_stack p ! (stack_top_idx p - Suc i)"
  using wf_fastD [of p] by (simp add: rev_nth) (simp add: live_def)

lemma total_saved_abs: "wf_fast p \<Longrightarrow> total_saved (abs_vm p) = saved_overflow_len p"
  using wf_fastD(5) [of p] by (simp add: total_saved_def comp_def)

lemma wf_vm_abs: "wf_fast p \<Longrightarrow> wf_vm (abs_vm p)"
  using wf_fastD [of p] by (simp add: wf_vm_def total_saved_abs)

text \<open>A method that only rewrites live cells.\<close>

lemma wf_fast_buffer:
  assumes "wf_fast p" "length st = length (fp_stack p)"
    "\<And>i. i < stack_bot_idx p \<Longrightarrow> st ! i = fp_stack p ! i"
  shows "wf_fast (p\<lparr>fp_stack := st\<rparr>)"
  using assms by (auto simp: wf_fast_def)

lemma abs_vm_buffer:
  assumes "wf_fast p" "length st = length (fp_stack p)" "length s = depth_of p"
    "\<And>i. i < depth_of p \<Longrightarrow> st ! (stack_top_idx p - Suc i) = s ! i"
  shows "abs_vm (p\<lparr>fp_stack := st\<rparr>) = (abs_vm p)\<lparr>stk := s\<rparr>"
proof -
  have "rev (slice (stack_bot_idx p) (depth_of p) st) = s"
    using wf_fastD [OF assms(1)] assms(2-4) by (intro nth_equalityI) (simp_all add: rev_nth)
  then show ?thesis
    by (simp add: abs_vm_def live_def)
qed

lemma sim_buffer:
  assumes "wf_fast p" "length st = length (fp_stack p)" "length s = depth_of p"
    "\<And>i. i < stack_bot_idx p \<Longrightarrow> st ! i = fp_stack p ! i"
    "\<And>i. i < depth_of p \<Longrightarrow> st ! (stack_top_idx p - Suc i) = s ! i"
  shows "sim_state wf_fast abs_vm (Ok (p\<lparr>fp_stack := st\<rparr>)) (Ok ((abs_vm p)\<lparr>stk := s\<rparr>))"
  using wf_fast_buffer [OF assms(1,2)] abs_vm_buffer [OF assms(1-3)] assms(4,5)
  by (simp add: sim_state_Ok)

section \<open>Reads and writes\<close>

lemma stack_get_sim:
  assumes "wf_fast p" "i < 16"
  shows "stack_get p i = vm_get (abs_vm p) i" "stack_get p i = Ok (rev (live p) ! i)"
  using wf_fastD(1,2) [OF assms(1)] assms nth_live [OF assms(1), of i]
  by (auto simp: stack_get_def vm_get_def usub_def fetch_def)

lemma stack_write_sim:
  assumes "wf_fast p" "i < 16"
  shows "sim_state wf_fast abs_vm (stack_write p i x) (vm_set (abs_vm p) i x)"
proof -
  let ?st = "(fp_stack p)[stack_top_idx p - Suc i := x]"
  have "stack_write p i x = Ok (p\<lparr>fp_stack := ?st\<rparr>)"
    using wf_fastD(1,2) [OF assms(1)] assms(2) by (auto simp: stack_write_def usub_def store_def)
  moreover have "vm_set (abs_vm p) i x = Ok ((abs_vm p)\<lparr>stk := (rev (live p))[i := x]\<rparr>)"
    using wf_fastD(8) [OF assms(1)] assms by (simp add: vm_set_def store_def)
  moreover have "sim_state wf_fast abs_vm (Ok (p\<lparr>fp_stack := ?st\<rparr>))
      (Ok ((abs_vm p)\<lparr>stk := (rev (live p))[i := x]\<rparr>))"
    using wf_fastD(1,2) [OF assms(1)] assms nth_live [OF assms(1)]
    by (intro sim_buffer) (auto simp: nth_list_update)
  ultimately show ?thesis by simp
qed

lemma stack_depth_sim: "wf_fast p \<Longrightarrow> stack_depth p = vm_depth (abs_vm p)"
  using wf_fastD(1) [of p] by (simp add: stack_depth_def vm_depth_def usub_def)

lemma depth_u32: "wf_fast p \<Longrightarrow> unat (word_of_nat (depth_of p) :: u32) = depth_of p"
  using wf_fastD(6,7) [of p] unfolding unat_of_nat by (intro mod_less) simp

lemma slice_rev:
  assumes "i + n \<le> length xs"
  shows "slice i n (rev xs) = rev (slice (length xs - i - n) n xs)"
  using assms by (intro nth_equalityI) (simp_all add: rev_nth)

lemma slice_slice: "i + n \<le> m \<Longrightarrow> j + m \<le> length xs \<Longrightarrow> slice i n (slice j m xs) = slice (j + i) n xs"
  by (intro nth_equalityI) (simp_all add: add.assoc)

lemma stack_get_word_sim:
  assumes "wf_fast p" "i \<le> 12"
  shows "stack_get_word p i = vm_get_word (abs_vm p) i"
proof -
  have "slice i 4 (rev (live p)) = rev (slice (stack_top_idx p - i - 4) 4 (fp_stack p))"
    using wf_fastD(1,2) [OF assms(1)] assms
    by (simp add: slice_rev) (simp add: live_def slice_slice)
  then show ?thesis
    using wf_fastD(1,2) [OF assms(1)] assms depth_u32 [OF assms(1)]
    by (simp del: of_nat_diff add: stack_get_word_def vm_get_word_def stack_depth_def usub_def fetch_range_def WORD_SIZE_def)
qed

lemma stack_write_word_sim:
  assumes "wf_fast p" "i \<le> 12"
  shows "sim_state wf_fast abs_vm (stack_write_word p i w) (vm_set_word (abs_vm p) i w)"
proof -
  let ?st = "overlay (fp_stack p) (stack_top_idx p - i - 4) (rev (into_elements w))"
  note wf = wf_fastD(1,2) [OF assms(1)]
  have "stack_write_word p i w = Ok (p\<lparr>fp_stack := ?st\<rparr>)"
    using wf assms(2)
    by (auto simp: stack_write_word_def usub_def store_range_def MIN_STACK_DEPTH_def WORD_SIZE_def)
  moreover have "vm_set_word (abs_vm p) i w = Ok ((abs_vm p)\<lparr>stk := overlay (rev (live p)) i (into_elements w)\<rparr>)"
    using wf assms by (simp add: vm_set_word_def store_range_def)
  moreover have "sim_state wf_fast abs_vm (Ok (p\<lparr>fp_stack := ?st\<rparr>))
      (Ok ((abs_vm p)\<lparr>stk := overlay (rev (live p)) i (into_elements w)\<rparr>))"
  proof (rule sim_buffer [OF assms(1)])
    fix j assume "j < depth_of p"
    then show "?st ! (stack_top_idx p - Suc j) = overlay (rev (live p)) i (into_elements w) ! j"
      using wf assms nth_live [OF assms(1), of j] by (auto simp: nth_overlay rev_nth)
  qed (use wf assms in \<open>auto simp: nth_overlay\<close>)
  ultimately show ?thesis by simp
qed

lemma stack_swap_sim:
  assumes "wf_fast p" "i < 16" "j < 16"
  shows "sim_state wf_fast abs_vm (stack_swap p i j) (vm_swap (abs_vm p) i j)"
proof -
  note wf = wf_fastD(1,2) [OF assms(1)]
  let ?t = "stack_top_idx p" let ?s = "rev (live p)"
  let ?st = "(fp_stack p)[?t - Suc i := ?s ! j, ?t - Suc j := ?s ! i]"
  have "stack_write (p\<lparr>fp_stack := (fp_stack p)[?t - Suc i := ?s ! j]\<rparr>) j (?s ! i) = Ok (p\<lparr>fp_stack := ?st\<rparr>)"
    "stack_write p i (?s ! j) = Ok (p\<lparr>fp_stack := (fp_stack p)[?t - Suc i := ?s ! j]\<rparr>)"
    using wf assms by (auto simp: stack_write_def usub_def store_def)
  then have "stack_swap p i j = Ok (p\<lparr>fp_stack := ?st\<rparr>)"
    using stack_get_sim(2) [OF assms(1)] assms(2,3) by (simp add: stack_swap_def)
  moreover have "vm_swap (abs_vm p) i j = Ok ((abs_vm p)\<lparr>stk := ?s[i := ?s ! j, j := ?s ! i]\<rparr>)"
    using wf assms by (auto simp: vm_swap_def)
  moreover have "sim_state wf_fast abs_vm (Ok (p\<lparr>fp_stack := ?st\<rparr>))
      (Ok ((abs_vm p)\<lparr>stk := ?s[i := ?s ! j, j := ?s ! i]\<rparr>))"
    using wf assms nth_live [OF assms(1)] by (intro sim_buffer) (auto simp: nth_list_update)
  ultimately show ?thesis by simp
qed

lemma swapw_nth_sim:
  assumes "wf_fast p" "0 < n" "n \<le> 3"
  shows "sim_state wf_fast abs_vm (swapw_nth p n) (vm_swapw_nth (abs_vm p) n)"
proof -
  note wf = wf_fastD(1,2) [OF assms(1)]
  let ?t = "stack_top_idx p - 4" let ?b = "stack_top_idx p - 4 - 4 * n" let ?s = "rev (live p)"
  let ?st = "overlay (overlay (fp_stack p) ?b (slice ?t 4 (fp_stack p))) ?t (slice ?b 4 (fp_stack p))"
  let ?s' = "slice (4 * n) 4 ?s @ slice 4 (4 * n - 4) ?s @ take 4 ?s @ drop (4 * n + 4) ?s"
  have "swapw_nth p n = Ok (p\<lparr>fp_stack := ?st\<rparr>)"
    using wf assms
    by (auto simp: swapw_nth_def usub_def store_range_def fetch_range_def WORD_SIZE_def mult.commute)
  moreover have "vm_swapw_nth (abs_vm p) n = Ok ((abs_vm p)\<lparr>stk := ?s'\<rparr>)"
    using wf assms by (simp add: vm_swapw_nth_def)
  moreover have "sim_state wf_fast abs_vm (Ok (p\<lparr>fp_stack := ?st\<rparr>)) (Ok ((abs_vm p)\<lparr>stk := ?s'\<rparr>))"
  proof (rule sim_buffer [OF assms(1)])
    fix j assume j: "j < depth_of p"
    have "?st ! (stack_top_idx p - Suc j) =
        (if j < 4 then fp_stack p ! (stack_top_idx p - Suc j - 4 * n)
         else if 4 * n \<le> j \<and> j < 4 * n + 4 then fp_stack p ! (stack_top_idx p - Suc (j - 4 * n))
         else fp_stack p ! (stack_top_idx p - Suc j))"
      using wf assms j by (auto simp: nth_overlay add.commute)
    also have "\<dots> = (if j < 4 then ?s ! (j + 4 * n)
         else if 4 * n \<le> j \<and> j < 4 * n + 4 then ?s ! (j - 4 * n) else ?s ! j)"
      using wf assms j nth_live [OF assms(1)] by simp
    also have "\<dots> = ?s' ! j"
      using wf assms j by (auto simp: nth_append add.commute)
    finally show "?st ! (stack_top_idx p - Suc j) = ?s' ! j" .
  next
    show "length ?s' = depth_of p" using wf assms by simp
  qed (use wf assms in \<open>auto simp: nth_overlay\<close>)
  ultimately show ?thesis by simp
qed

section \<open>Rotations\<close>

lemma foldO_snoc: "foldO f (xs @ [x]) s = bindO (foldO f xs s) (f x)"
proof (induction xs arbitrary: s)
  case Nil
  show ?case by (cases "f x s") simp_all
next
  case (Cons y ys)
  then show ?case by (cases "f y s") simp_all
qed

lemma shift_down_loop:
  assumes "b + m < length st"
  shows "foldO (\<lambda>i st. bindO (fetch st (b + i + 1)) (\<lambda>x. store st (b + i) x)) [0..<m] st
    = Ok (overlay st b (slice (b + 1) m st))"
  using assms
proof (induction m)
  case 0
  then show ?case by (simp add: overlay_def slice_def)
next
  case (Suc m)
  let ?o = "overlay st b (slice (b + 1) m st)"
  have "?o[b + m := ?o ! (b + m + 1)] = overlay st b (slice (b + 1) (Suc m) st)"
  proof (rule nth_equalityI)
    fix i assume i: "i < length (?o[b + m := ?o ! (b + m + 1)])"
    consider "i < b" | "b \<le> i" "i < b + m" | "i = b + m" | "b + m < i" by linarith
    then show "?o[b + m := ?o ! (b + m + 1)] ! i = overlay st b (slice (b + 1) (Suc m) st) ! i"
      using Suc.prems i by cases (simp_all add: nth_list_update nth_overlay)
  qed (use Suc.prems in simp)
  then show ?case
    using Suc by (simp add: foldO_snoc fetch_def store_def)
qed

lemma shift_up_loop:
  assumes "m < t" "t \<le> length st"
  shows "foldO (\<lambda>i st. bindO (usub t i) (\<lambda>j. bindO (usub j 1) (\<lambda>k.
      bindO (fetch st k) (\<lambda>x. store st j x)))) [1..<Suc m] st
    = Ok (overlay st (t - m) (slice (t - Suc m) m st))"
  using assms
proof (induction m)
  case 0
  then show ?case by (simp add: overlay_def slice_def)
next
  case (Suc m)
  let ?o = "overlay st (t - m) (slice (t - Suc m) m st)"
  have "?o[t - Suc m := ?o ! (t - Suc (Suc m))] = overlay st (t - Suc m) (slice (t - Suc (Suc m)) (Suc m) st)"
  proof (rule nth_equalityI)
    fix i assume i: "i < length (?o[t - Suc m := ?o ! (t - Suc (Suc m))])"
    consider "i < t - Suc m" | "i = t - Suc m" | "t - m \<le> i" "i < t" | "t \<le> i" by linarith
    then show "?o[t - Suc m := ?o ! (t - Suc (Suc m))] ! i
        = overlay st (t - Suc m) (slice (t - Suc (Suc m)) (Suc m) st) ! i"
      using Suc.prems i by cases (auto simp: nth_list_update nth_overlay)
  qed (use Suc.prems in simp)
  then show ?case
    using Suc by (auto simp: foldO_snoc fetch_def store_def usub_def)
qed

lemma rotate_left_sim:
  assumes "wf_fast p" "0 < n" "n \<le> 16"
  shows "sim_state wf_fast abs_vm (rotate_left_fast p n) (vm_rotate_left (abs_vm p) n)"
proof -
  note wf = wf_fastD(1,2) [OF assms(1)]
  let ?t = "stack_top_idx p" let ?s = "rev (live p)"
  let ?o = "overlay (fp_stack p) (?t - n) (slice (?t - n + 1) (n - 1) (fp_stack p))"
  let ?st = "?o[?t - 1 := fp_stack p ! (?t - n)]"
  let ?s' = "(?s ! (n - 1)) # take (n - 1) ?s @ drop n ?s"
  have usub1: "usub ?t n = Ok (?t - n)" and usub2: "usub n 1 = Ok (n - 1)"
    and fetch1: "fetch (fp_stack p) (?t - n) = Ok (fp_stack p ! (?t - n))"
    and loop: "?t - n + (n - 1) < length (fp_stack p)"
    using wf assms by (simp_all add: usub_def fetch_def)
  have "rotate_left_fast p n = stack_write (p\<lparr>fp_stack := ?o\<rparr>) 0 (fp_stack p ! (?t - n))"
    unfolding rotate_left_fast_def usub1 usub2 fetch1 bindO.simps shift_down_loop [OF loop] ..
  also have "\<dots> = Ok (p\<lparr>fp_stack := ?st\<rparr>)"
    using wf assms by (auto simp: stack_write_def usub_def store_def)
  finally have "rotate_left_fast p n = Ok (p\<lparr>fp_stack := ?st\<rparr>)" .
  moreover have "vm_rotate_left (abs_vm p) n = Ok ((abs_vm p)\<lparr>stk := ?s'\<rparr>)"
    using wf assms by (simp add: vm_rotate_left_def)
  moreover have "sim_state wf_fast abs_vm (Ok (p\<lparr>fp_stack := ?st\<rparr>)) (Ok ((abs_vm p)\<lparr>stk := ?s'\<rparr>))"
  proof (rule sim_buffer [OF assms(1)])
    fix j assume j: "j < depth_of p"
    consider "j = 0" | "0 < j" "j < n" | "n \<le> j" by linarith
    then show "?st ! (?t - Suc j) = ?s' ! j"
      using wf assms j nth_live [OF assms(1)]
      by cases (auto simp: nth_list_update nth_overlay nth_Cons' nth_append Suc_diff_Suc)
  next
    show "length ?s' = depth_of p" using wf assms by simp
  qed (use wf assms in \<open>auto simp: nth_overlay nth_list_update\<close>)
  ultimately show ?thesis by simp
qed

lemma rotate_right_sim:
  assumes "wf_fast p" "0 < n" "n \<le> 16"
  shows "sim_state wf_fast abs_vm (rotate_right_fast p n) (vm_rotate_right (abs_vm p) n)"
proof -
  note wf = wf_fastD(1,2) [OF assms(1)]
  let ?t = "stack_top_idx p" let ?s = "rev (live p)"
  let ?o = "overlay (fp_stack p) (?t - n + 1) (slice (?t - n) (n - 1) (fp_stack p))"
  let ?st = "?o[?t - n := fp_stack p ! (?t - 1)]"
  let ?s' = "slice 1 (n - 1) ?s @ (?s ! 0) # drop n ?s"
  have usub1: "usub ?t n = Ok (?t - n)" and usub2: "usub ?t 1 = Ok (?t - 1)"
    and fetch1: "fetch (fp_stack p) (?t - 1) = Ok (fp_stack p ! (?t - 1))"
    and store1: "store ?o (?t - n) (fp_stack p ! (?t - 1)) = Ok ?st" and loop: "n - 1 < ?t"
    using wf assms by (auto simp: usub_def fetch_def store_def)
  have shift: "foldO (\<lambda>i st. bindO (usub ?t i) (\<lambda>j. bindO (usub j 1) (\<lambda>k.
      bindO (fetch st k) (\<lambda>x. store st j x)))) [1..<n] (fp_stack p) = Ok ?o"
    using shift_up_loop [of "n - 1" ?t "fp_stack p", OF loop] wf assms by (simp add: Suc_diff_le)
  have "rotate_right_fast p n = Ok (p\<lparr>fp_stack := ?st\<rparr>)"
    unfolding rotate_right_fast_def usub1 usub2 fetch1 bindO.simps shift store1 ..
  moreover have "vm_rotate_right (abs_vm p) n = Ok ((abs_vm p)\<lparr>stk := ?s'\<rparr>)"
    using wf assms by (simp add: vm_rotate_right_def)
  moreover have "sim_state wf_fast abs_vm (Ok (p\<lparr>fp_stack := ?st\<rparr>)) (Ok ((abs_vm p)\<lparr>stk := ?s'\<rparr>))"
  proof (rule sim_buffer [OF assms(1)])
    fix j assume j: "j < depth_of p"
    consider "j < n - 1" | "j = n - 1" | "n \<le> j" by linarith
    then show "?st ! (?t - Suc j) = ?s' ! j"
      using wf assms j nth_live [OF assms(1)]
      by cases (auto simp: nth_list_update nth_overlay nth_Cons' nth_append Suc_diff_Suc)
  next
    show "length ?s' = depth_of p" using wf assms by simp
  qed (use wf assms in \<open>auto simp: nth_overlay nth_list_update\<close>)
  ultimately show ?thesis by simp
qed

end
