(* ===== verification/Fast_Depth.thy ===== *)
theory Fast_Depth
  imports Fast_Refine
begin

text \<open>
  Refinement of the methods that change the depth of the stack: a push that may reallocate the buffer,
  a pop that may move the live elements, and the start and the end of an execution context.
\<close>

section \<open>Depth\<close>

text \<open>The live elements moved to another place of a buffer, with zeros below them.\<close>

definition moved :: "'d fast_processor \<Rightarrow> felt list \<Rightarrow> nat \<Rightarrow> 'd fast_processor" where
  "moved p st b = p\<lparr>fp_stack := st, stack_bot_idx := b, stack_top_idx := b + depth_of p\<rparr>"

definition holds_live :: "'d fast_processor \<Rightarrow> felt list \<Rightarrow> nat \<Rightarrow> bool" where
  "holds_live p st b \<longleftrightarrow>
    b + depth_of p < length st \<and> 251 \<le> length st \<and> (\<forall>i<b. st ! i = 0) \<and> slice b (depth_of p) st = live p"

lemma moved_wf:
  assumes "wf_fast p" "holds_live p st b"
  shows "wf_fast (moved p st b)"
  using wf_fastD(1,5,6,7) [OF assms(1)] assms(2)
  by (intro wf_fastI) (simp_all add: moved_def holds_live_def)

lemma moved_abs: "wf_fast p \<Longrightarrow> holds_live p st b \<Longrightarrow> abs_vm (moved p st b) = abs_vm p"
  by (simp add: abs_vm_def moved_def live_def holds_live_def)

lemma stack_size_wf: "wf_fast p \<Longrightarrow> stack_size p = Ok (depth_of p)"
  using wf_fastD(1) [of p] by (simp add: stack_size_def usub_def)

lemma fetch_live:
  "wf_fast p \<Longrightarrow> fetch_range (fp_stack p) (stack_bot_idx p) (depth_of p) = Ok (live p)"
  using wf_fastD(1,2) [of p] by (auto simp: fetch_range_def live_def)

lemma holds_live_overlay:
  assumes "wf_fast p" "b + depth_of p < length st" "251 \<le> length st" "\<And>i. i < b \<Longrightarrow> st ! i = 0"
  shows "holds_live p (overlay st b (live p)) b"
proof -
  have "slice b (depth_of p) (overlay st b (live p)) = live p"
    using assms by (intro nth_equalityI) (auto simp: nth_overlay)
  then show ?thesis
    using assms by (auto simp: holds_live_def nth_overlay)
qed

lemma grow_stack_buffer_moves:
  assumes "wf_fast p" "depth_of p + 1 \<le> max_stack_depth (options p)"
  obtains st where "grow_stack_buffer p req = Ok (moved p st 234)" "holds_live p st 234"
    "236 + depth_of p \<le> length st" "min req (235 + max_stack_depth (options p)) \<le> length st"
proof -
  let ?max = "max_stack_depth (options p)"
  define n where "n = min (max (2 * (236 + depth_of p)) req) (235 + ?max)"
  have bound: "?max < 4294967296" "depth_of p \<le> ?max"
    using wf_fastD(6,7) [OF assms(1)] by linarith+
  have sat: "saturating_add (saturating_add 234 ?max) 1 = 235 + ?max"
    "saturating_add (saturating_add 234 (depth_of p)) 2 = 236 + depth_of p"
    "saturating_mul (236 + depth_of p) 2 = 2 * (236 + depth_of p)"
    using bound by (simp_all add: saturating_add_def saturating_mul_def usize_max_def)
  have n: "236 + depth_of p \<le> n" "n \<le> 235 + ?max" "min req (235 + ?max) \<le> n"
    using assms(2) unfolding n_def by (simp_all add: min_le_iff_disj le_max_iff_disj)
  note size = stack_size_wf [OF assms(1)]
  have base: "STACK_BUFFER_BASE_IDX = 234"
    by (simp add: STACK_BUFFER_BASE_IDX_def INITIAL_STACK_TOP_IDX_def MIN_STACK_DEPTH_def)
  have store: "store_range (replicate n 0) 234 (live p) = Ok (overlay (replicate n 0) 234 (live p))"
    using n(1) assms(1) by (simp add: store_range_def)
  have "grow_stack_buffer p req = Ok (moved p (overlay (replicate n 0) 234 (live p)) 234)"
    unfolding grow_stack_buffer_def Let_def base sat size bindO.simps bindO_assertO
      fetch_live [OF assms(1)] n_def [symmetric] store
    using assms(2) n(2) by (simp add: moved_def)
  moreover have "holds_live p (overlay (replicate n 0) 234 (live p)) 234"
  proof (rule holds_live_overlay [OF assms(1)])
    show "replicate n 0 ! i = (0 :: felt)" if "i < 234" for i
      using that n(1) by (intro nth_replicate) linarith
  qed (use n(1) wf_fastD(8) [OF assms(1)] in simp_all)
  moreover have "length (overlay (replicate n 0) 234 (live p)) = n"
    using n(1) assms(1) by (subst length_overlay) simp_all
  ultimately show thesis
    using n that by metis
qed

lemma reset_stack_moves:
  assumes "wf_fast p" "depth_of p = 16" "16 \<le> t" "t < length (fp_stack p)"
  obtains st where "reset_stack_in_buffer p t = Ok (moved p st (t - 16))" "holds_live p st (t - 16)"
    "length st = length (fp_stack p)"
proof -
  let ?st = "overlay (overlay (fp_stack p) (t - 16) (live p)) 0 (replicate (t - 16) 0)"
  have len: "length (live p) = 16" using assms(1,2) by simp
  have st1: "store_range (fp_stack p) (t - 16) (live p) = Ok (overlay (fp_stack p) (t - 16) (live p))"
    using assms(3,4) len by (simp add: store_range_def)
  have st2: "store_range (overlay (fp_stack p) (t - 16) (live p)) 0 (replicate (t - 16) 0) = Ok ?st"
    using assms(3,4) len by (simp add: store_range_def)
  have d: "stack_depth p = Ok 16" "usub t MIN_STACK_DEPTH = Ok (t - 16)" "word_of_nat MIN_STACK_DEPTH = (16 :: u32)"
    using assms(2,3) by (simp_all add: stack_depth_def usub_def MIN_STACK_DEPTH_def)
  have "reset_stack_in_buffer p t = Ok (moved p ?st (t - 16))"
    unfolding reset_stack_in_buffer_def d bindO.simps bindO_assertO fetch_live [OF assms(1)] st1 st2
    using assms(2,3) by (simp add: moved_def)
  moreover have "slice (t - 16) 16 ?st = live p"
    using assms(3,4) len by (intro nth_equalityI) (auto simp: nth_overlay)
  then have "holds_live p ?st (t - 16)"
    using assms(2-4) len wf_fastD(3) [OF assms(1)] by (auto simp: holds_live_def nth_overlay)
  ultimately show thesis
    using that [of ?st] assms(3,4) len by simp
qed

text \<open>A push: the new cell holds whatever the buffer had there, and the caller overwrites it.\<close>

lemma ensure_capacity_sim:
  assumes "wf_fast p" "depth_of p + saved_overflow_len p < max_stack_depth (options p)"
  obtains q where "ensure_stack_capacity_for_push p = Ok q" "wf_fast q" "abs_vm q = abs_vm p"
    "stack_top_idx q + 1 < length (fp_stack q)"
proof -
  have len: "1 \<le> length (fp_stack p)" using wf_fastD(3) [OF assms(1)] by simp
  note size = stack_size_wf [OF assms(1)] usub_Ok [OF len]
  show thesis
  proof (cases "stack_top_idx p \<ge> length (fp_stack p) - 1")
    case True
    have "depth_of p + 1 \<le> max_stack_depth (options p)" using assms(2) by linarith
    then obtain st where st: "grow_stack_buffer p (stack_top_idx p + 2) = Ok (moved p st 234)"
      "holds_live p st 234" "236 + depth_of p \<le> length st"
      using grow_stack_buffer_moves [OF assms(1)] by metis
    then have "ensure_stack_capacity_for_push p = Ok (moved p st 234)"
      using True assms(2)
      unfolding ensure_stack_capacity_for_push_def Let_def size bindO.simps st(1) by simp
    then show thesis
      using that st moved_wf [OF assms(1) st(2)] moved_abs [OF assms(1) st(2)] by (simp add: moved_def)
  next
    case False
    then have "ensure_stack_capacity_for_push p = Ok p"
      using assms(2) unfolding ensure_stack_capacity_for_push_def Let_def size bindO.simps by simp
    then show thesis using that False assms(1) by simp
  qed
qed

lemma wf_fast_top:
  assumes "wf_fast p" "stack_top_idx p + 1 < length (fp_stack p)"
    "depth_of p + saved_overflow_len p < max_stack_depth (options p)"
  shows "wf_fast (p\<lparr>stack_top_idx := stack_top_idx p + 1\<rparr>)"
    "abs_vm (p\<lparr>stack_top_idx := stack_top_idx p + 1\<rparr>)
      = (abs_vm p)\<lparr>stk := (fp_stack p ! stack_top_idx p) # stk (abs_vm p)\<rparr>"
proof -
  let ?q = "p\<lparr>stack_top_idx := stack_top_idx p + 1\<rparr>"
  have depth: "depth_of ?q = Suc (depth_of p)" using wf_fastD(1) [OF assms(1)] by simp
  show "wf_fast ?q"
    using wf_fastD(1,3,4,5,7) [OF assms(1)] assms(2,3) depth by (intro wf_fastI) simp_all
  have "live ?q = live p @ [fp_stack p ! stack_top_idx p]"
    using wf_fastD(1,2) [OF assms(1)] assms(2) depth by (simp add: live_def slice_def take_Suc_conv_app_nth)
  then show "abs_vm ?q = (abs_vm p)\<lparr>stk := (fp_stack p ! stack_top_idx p) # stk (abs_vm p)\<rparr>"
    by (simp add: abs_vm_def)
qed

lemma increment_size_sim:
  assumes "wf_fast p"
  shows "(\<exists>q g. increment_size p = Ok q \<and> wf_fast q \<and> abs_vm q = (abs_vm p)\<lparr>stk := g # stk (abs_vm p)\<rparr> \<and>
      vm_increment_size (abs_vm p) = Ok ((abs_vm p)\<lparr>stk := 0 # stk (abs_vm p)\<rparr>)) \<or>
    (\<exists>e. increment_size p = Err e \<and> vm_increment_size (abs_vm p) = Err e)"
proof (cases "depth_of p + saved_overflow_len p < max_stack_depth (options p)")
  case True
  then obtain q where q: "ensure_stack_capacity_for_push p = Ok q" "wf_fast q" "abs_vm q = abs_vm p"
    "stack_top_idx q + 1 < length (fp_stack q)"
    using ensure_capacity_sim [OF assms] by metis
  have "depth_of q = depth_of p" "saved_overflow_len q = saved_overflow_len p" "options q = options p"
    using q(2,3) assms total_saved_abs abs_vm_sel(7,9) length_live length_rev by metis+
  then have "depth_of q + saved_overflow_len q < max_stack_depth (options q)" using True by simp
  note top = wf_fast_top [OF q(2,4) this]
  have "increment_size p = Ok (q\<lparr>stack_top_idx := stack_top_idx q + 1\<rparr>)"
    using q(1) by (simp add: increment_size_def)
  moreover have "vm_increment_size (abs_vm p) = Ok ((abs_vm p)\<lparr>stk := 0 # stk (abs_vm p)\<rparr>)"
    using True assms by (simp add: vm_increment_size_def Let_def total_saved_abs)
  ultimately show ?thesis using top q(3) by metis
next
  case False
  show ?thesis
    using False assms stack_size_wf [OF assms]
    by (simp add: increment_size_def ensure_stack_capacity_for_push_def vm_increment_size_def Let_def
        total_saved_abs)
qed

lemma push_sim:
  assumes "wf_fast p"
  shows "sim_state wf_fast abs_vm (bindO (increment_size p) (\<lambda>p. stack_write p 0 x))
    (bindO (vm_increment_size (abs_vm p)) (\<lambda>v. vm_set v 0 x))"
  using increment_size_sim [OF assms]
proof (elim disjE exE conjE)
  fix q g
  assume q: "increment_size p = Ok q" "wf_fast q" "abs_vm q = (abs_vm p)\<lparr>stk := g # stk (abs_vm p)\<rparr>"
    "vm_increment_size (abs_vm p) = Ok ((abs_vm p)\<lparr>stk := 0 # stk (abs_vm p)\<rparr>)"
  then show ?thesis
    using stack_write_sim [OF q(2), of 0 x] by (simp add: vm_set_def store_def)
qed (simp add: sim_state_Err)

text \<open>A pop.\<close>

lemma tl_rev: "tl (rev xs) = rev (butlast xs)"
  using butlast_rev [of "rev xs"] by (simp add: rev_swap)

lemma pop_above_zero:
  assumes "wf_fast p" "stack_top_idx p \<noteq> 16"
  shows "sim_state wf_fast abs_vm
    (Ok (p\<lparr>stack_top_idx := stack_top_idx p - 1, stack_bot_idx := min (stack_bot_idx p) (stack_top_idx p - 17)\<rparr>))
    (vm_decrement_size (abs_vm p))" (is "sim_state _ _ (Ok ?q) _")
proof -
  note wf = wf_fastD [OF assms(1)]
  have ne: "live p \<noteq> []" using wf(8) length_live [OF assms(1)] by fastforce
  show ?thesis
  proof (cases "depth_of p = 16")
    case True
    then have bot: "min (stack_bot_idx p) (stack_top_idx p - 17) = stack_bot_idx p - 1" "0 < stack_bot_idx p"
      using wf(1) assms(2) by linarith+
    have "live ?q = 0 # butlast (live p)"
    proof (rule nth_equalityI)
      fix i assume i: "i < length (live ?q)"
      show "live ?q ! i = (0 # butlast (live p)) ! i"
        using i wf(1,2) True bot wf(4) [of "stack_bot_idx p - 1"] length_live [OF assms(1)]
        by (cases i) (simp_all add: live_def nth_butlast)
    qed (use wf(1,2) True bot in \<open>simp add: live_def\<close>)
    moreover have "wf_fast ?q"
      using wf(1-7) bot True assms(2) by (intro wf_fastI) simp_all
    ultimately show ?thesis
      using True assms(1) by (simp add: sim_state_Ok vm_decrement_size_def abs_vm_def tl_rev)
  next
    case False
    then have bot: "min (stack_bot_idx p) (stack_top_idx p - 17) = stack_bot_idx p"
      using wf(1) by linarith
    have "live ?q = butlast (live p)"
      using wf(1,2) False bot by (simp add: live_def slice_def butlast_take)
    moreover have "wf_fast ?q"
      using wf bot False by (intro wf_fastI) simp_all
    ultimately show ?thesis
      using False wf(8) assms(1) by (simp add: sim_state_Ok vm_decrement_size_def abs_vm_def tl_rev)
  qed
qed

lemma decrement_size_sim:
  assumes "wf_fast p"
  shows "sim_state wf_fast abs_vm (decrement_size p) (vm_decrement_size (abs_vm p))"
proof (cases "stack_top_idx p = 16")
  case True
  then have "depth_of p = 16" "250 < length (fp_stack p)" "stack_bot_idx p = 0"
    using wf_fastD(1,3) [OF assms] by simp_all
  then obtain st where st: "reset_stack_in_buffer p 250 = Ok (moved p st 234)" "holds_live p st 234"
    using reset_stack_moves [OF assms, of 250] by auto
  then have "decrement_size p = Ok ((moved p st 234)\<lparr>stack_top_idx := stack_top_idx (moved p st 234) - 1,
      stack_bot_idx := min (stack_bot_idx (moved p st 234)) (stack_top_idx (moved p st 234) - 17)\<rparr>)"
    using True \<open>stack_bot_idx p = 0\<close>
    by (simp add: decrement_size_def INITIAL_STACK_TOP_IDX_def MIN_STACK_DEPTH_def usub_def moved_def)
  moreover have "stack_top_idx (moved p st 234) \<noteq> 16" by (simp add: moved_def)
  ultimately show ?thesis
    using pop_above_zero [OF moved_wf [OF assms st(2)]] moved_abs [OF assms st(2)] by simp
next
  case False
  then have "decrement_size p = Ok (p\<lparr>stack_top_idx := stack_top_idx p - 1,
      stack_bot_idx := min (stack_bot_idx p) (stack_top_idx p - 17)\<rparr>)"
    using wf_fastD(1) [OF assms] by (auto simp: decrement_size_def MIN_STACK_DEPTH_def usub_def)
  then show ?thesis using pop_above_zero [OF assms False] by simp
qed

section \<open>Contexts\<close>

lemma start_context_sim:
  assumes "wf_fast p"
  shows "sim_state wf_fast abs_vm (start_context p) (vm_start_context (abs_vm p))"
proof -
  note wf = wf_fastD [OF assms]
  let ?b = "stack_top_idx p - 16" let ?n = "depth_of p - 16"
  define over where "over = slice (stack_bot_idx p) ?n (fp_stack p)"
  define st where "st = overlay (fp_stack p) (stack_bot_idx p) (replicate ?n 0)"
  let ?q = "p\<lparr>fp_stack := st, stack_bot_idx := ?b, saved_overflow_len := saved_overflow_len p + length over,
      stack_overflow_save_stack := over # stack_overflow_save_stack p\<rparr>"
  have range: "stack_bot_idx p + ?n \<le> length (fp_stack p)" "?b - stack_bot_idx p = ?n" "stack_bot_idx p + ?n = ?b"
    using wf(1,2) by linarith+
  have len: "length over = ?n" "length st = length (fp_stack p)"
    using range by (simp_all add: over_def st_def)
  have nil: "over = []" "st = fp_stack p" if "\<not> 16 < depth_of p"
    using that by (simp_all add: over_def st_def slice_def overlay_def)
  have "start_context p = Ok ?q"
  proof (cases "16 < depth_of p")
    case True
    then show ?thesis
      using wf(1) range stack_size_wf [OF assms]
      by (simp add: start_context_def usub_def MIN_STACK_DEPTH_def fetch_range_def store_range_def
          over_def st_def)
  next
    case False
    then show ?thesis
      using wf(1) range stack_size_wf [OF assms] nil
      by (simp add: start_context_def usub_def MIN_STACK_DEPTH_def)
  qed
  moreover have "wf_fast ?q"
  proof (rule wf_fastI)
    fix i assume "i < stack_bot_idx ?q"
    then show "fp_stack ?q ! i = 0"
      using wf(2,4) range by (simp add: st_def nth_overlay)
  qed (use wf(1-3,5-7) range len in simp_all)
  moreover have "abs_vm ?q = (abs_vm p)\<lparr>stk := take 16 (rev (live p)), saved := drop 16 (rev (live p)) # saved (abs_vm p)\<rparr>"
  proof -
    have "rev (live ?q) = take 16 (rev (live p))"
    proof (rule nth_equalityI)
      fix i assume "i < length (rev (live ?q))"
      then have i: "i < 16" using wf(1,2) len by (simp add: live_def)
      have "rev (live ?q) ! i = fp_stack p ! (stack_top_idx p - Suc i)"
        using i wf(1,2) range len by (simp add: live_def rev_nth) (auto simp: st_def nth_overlay)
      then show "rev (live ?q) ! i = take 16 (rev (live p)) ! i"
        using i wf(8) nth_live [OF assms, of i] by simp
    qed (use wf(1,2) len length_live [OF assms] in \<open>simp add: live_def\<close>)
    moreover have "rev over = drop 16 (rev (live p))"
    proof -
      have "take ?n (live p) = over" using range by (simp add: live_def over_def slice_def min_def)
      then show ?thesis using wf(8) length_live [OF assms] by (simp add: drop_rev)
    qed
    ultimately show ?thesis by (simp add: abs_vm_def)
  qed
  ultimately show ?thesis
    by (simp add: sim_state_Ok vm_start_context_def)
qed

lemma put_back:
  assumes "wf_fast p" "length over \<le> stack_bot_idx p"
    "depth_of p + saved_overflow_len p + length over \<le> max_stack_depth (options p)"
  shows "sim_state wf_fast abs_vm
    (Ok (p\<lparr>fp_stack := overlay (fp_stack p) (stack_bot_idx p - length over) over,
          stack_bot_idx := stack_bot_idx p - length over\<rparr>))
    (Ok ((abs_vm p)\<lparr>stk := stk (abs_vm p) @ rev over\<rparr>))" (is "sim_state _ _ (Ok ?q) _")
proof -
  note wf = wf_fastD [OF assms(1)]
  have "wf_fast ?q"
  proof (rule wf_fastI)
    fix i assume "i < stack_bot_idx ?q"
    then show "fp_stack ?q ! i = 0"
      using wf(1,2,4) assms(2) by (simp add: nth_overlay)
  qed (use wf(1,2,3,5,7) assms(2,3) in simp_all)
  moreover have "live ?q = over @ live p"
  proof (rule nth_equalityI)
    have depth: "depth_of ?q = length over + depth_of p" using assms(2) wf(1) by simp
    show len: "length (live ?q) = length (over @ live p)"
      using length_live [OF \<open>wf_fast ?q\<close>] depth length_live [OF assms(1)] by simp
    fix i assume "i < length (live ?q)"
    then have i: "i < length over + depth_of p"
      using len length_live [OF assms(1)] by simp
    then have "live ?q ! i = fp_stack ?q ! (stack_bot_idx p - length over + i)"
      using wf(1,2) assms(2) by (simp add: live_def)
    also have "\<dots> = (over @ live p) ! i"
      using i wf(1,2) assms(2)
      by (cases "i < length over") (auto simp: nth_overlay nth_append live_def)
    finally show "live ?q ! i = (over @ live p) ! i" .
  qed
  ultimately show ?thesis
    by (simp add: sim_state_Ok abs_vm_def)
qed

lemma make_room:
  assumes "wf_fast p" "depth_of p = 16" "16 + len \<le> max_stack_depth (options p)"
  obtains q where
    "(if len > stack_bot_idx p
      then let top = INITIAL_STACK_TOP_IDX + len in
        bindO (ensure_stack_capacity_for_top_idx p top) (\<lambda>p. reset_stack_in_buffer p top)
      else Ok p) = Ok q" "wf_fast q" "abs_vm q = abs_vm p" "len \<le> stack_bot_idx q"
    "depth_of q = 16" "saved_overflow_len q = saved_overflow_len p"
proof (cases "len > stack_bot_idx p")
  case False
  then show thesis using that [of p] assms by simp
next
  case True
  have cap: "\<exists>r. ensure_stack_capacity_for_top_idx p (250 + len) = Ok r \<and> wf_fast r \<and> abs_vm r = abs_vm p \<and>
      250 + len < length (fp_stack r) \<and> depth_of r = 16 \<and> saved_overflow_len r = saved_overflow_len p"
  proof (cases "250 + len \<ge> length (fp_stack p)")
    case long: True
    obtain st where st: "grow_stack_buffer p (250 + len + 1) = Ok (moved p st 234)" "holds_live p st 234"
      "min (250 + len + 1) (235 + max_stack_depth (options p)) \<le> length st"
      using grow_stack_buffer_moves [OF assms(1), of "250 + len + 1"] assms(2,3) True by auto
    then have "ensure_stack_capacity_for_top_idx p (250 + len) = Ok (moved p st 234)"
      using long unfolding ensure_stack_capacity_for_top_idx_def by simp
    moreover have "250 + len < length st" using st(3) assms(3) by linarith
    ultimately show ?thesis
      using moved_wf [OF assms(1) st(2)] moved_abs [OF assms(1) st(2)] assms(2) by (simp add: moved_def)
  next
    case False
    then show ?thesis using assms by (simp add: ensure_stack_capacity_for_top_idx_def)
  qed
  then obtain r where r: "ensure_stack_capacity_for_top_idx p (250 + len) = Ok r" "wf_fast r"
    "abs_vm r = abs_vm p" "250 + len < length (fp_stack r)" "depth_of r = 16"
    "saved_overflow_len r = saved_overflow_len p"
    by blast
  obtain st where st: "reset_stack_in_buffer r (250 + len) = Ok (moved r st (250 + len - 16))"
    "holds_live r st (250 + len - 16)"
    using reset_stack_moves [OF r(2,5) _ r(4)] by auto
  show thesis
  proof (rule that [of "moved r st (250 + len - 16)"])
    show "wf_fast (moved r st (250 + len - 16))" by (rule moved_wf [OF r(2) st(2)])
    show "abs_vm (moved r st (250 + len - 16)) = abs_vm p" using moved_abs [OF r(2) st(2)] r(3) by simp
  qed (use True r st(1) in \<open>simp_all add: INITIAL_STACK_TOP_IDX_def moved_def\<close>)
qed

lemma restore_context_sim:
  assumes "wf_fast p"
  shows "sim_state wf_fast abs_vm (restore_context p) (vm_restore_context (abs_vm p))"
proof (cases "depth_of p > 16 \<or> stack_overflow_save_stack p = []")
  case True
  then show ?thesis
    using assms stack_size_wf [OF assms]
    by (auto simp: restore_context_def vm_restore_context_def MIN_STACK_DEPTH_def sim_state_Err)
next
  case False
  then obtain over saves where save: "stack_overflow_save_stack p = over # saves" and d: "depth_of p = 16"
    using wf_fastD(8) [OF assms] by (cases "stack_overflow_save_stack p") auto
  note wf = wf_fastD [OF assms]
  let ?p = "p\<lparr>stack_overflow_save_stack := saves, saved_overflow_len := saved_overflow_len p - length over\<rparr>"
  have sat: "saturating_add MIN_STACK_DEPTH (length over) = 16 + length over"
    and le: "length over \<le> saved_overflow_len p" "16 + saved_overflow_len p \<le> max_stack_depth (options p)"
    using wf(5-7) d save by (simp_all add: saturating_add_def usize_max_def MIN_STACK_DEPTH_def)
  have wfp: "wf_fast ?p" using wf(1-7) save by (intro wf_fastI) simp_all
  have dp: "depth_of ?p = 16" and lp: "16 + length over \<le> max_stack_depth (options ?p)"
    using d le by simp_all
  obtain q where q: "(if length over > stack_bot_idx ?p
      then let top = INITIAL_STACK_TOP_IDX + length over in
        bindO (ensure_stack_capacity_for_top_idx ?p top) (\<lambda>p. reset_stack_in_buffer p top)
      else Ok ?p) = Ok q" "wf_fast q" "abs_vm q = abs_vm ?p" "length over \<le> stack_bot_idx q"
    "depth_of q = 16" "saved_overflow_len q = saved_overflow_len ?p"
    by (rule make_room [OF wfp dp lp])
  let ?r = "q\<lparr>fp_stack := overlay (fp_stack q) (stack_bot_idx q - length over) over,
      stack_bot_idx := stack_bot_idx q - length over\<rparr>"
  have "stack_bot_idx q \<le> length (fp_stack q)" using wf_fastD(1,2) [OF q(2)] by linarith
  then have "restore_context p = Ok ?r"
    using save d le q(1,4) sat stack_size_wf [OF assms]
    by (simp add: restore_context_def MIN_STACK_DEPTH_def Let_def usub_def store_range_def)
  moreover have "options q = options p" using q(3) abs_vm_sel(7) [of q] by simp
  moreover have "abs_vm q = (abs_vm p)\<lparr>saved := map rev saves\<rparr>"
    using q(3) by (simp add: abs_vm_def live_def)
  moreover have "vm_restore_context (abs_vm p) =
      Ok ((abs_vm p)\<lparr>saved := map rev saves, stk := rev (live p) @ rev over\<rparr>)"
    using save d assms by (simp add: vm_restore_context_def abs_vm_def)
  ultimately show ?thesis
    using put_back [OF q(2,4)] q(5,6) le by simp
qed

section \<open>The initial state\<close>

lemma load_inputs:
  assumes "length xs \<le> 16" "250 \<le> N"
  shows "\<exists>st. foldO (\<lambda>(i, input) st. bindO (usub 249 i) (\<lambda>k. store st k input))
      (enumerate 0 xs) (replicate N 0) = (Ok st :: (advice_error, _) outcome) \<and> length st = N \<and>
    (\<forall>j<N. st ! j = (if j < 250 \<and> 249 - j < length xs then xs ! (249 - j) else (0 :: felt)))"
  using assms
proof (induction xs rule: rev_induct)
  case Nil
  then show ?case by (intro exI [of _ "replicate N 0"]) simp
next
  case (snoc x xs)
  then obtain st where st: "foldO (\<lambda>(i, input) st. bindO (usub 249 i) (\<lambda>k. store st k input))
      (enumerate 0 xs) (replicate N 0) = (Ok st :: (advice_error, _) outcome)" "length st = N"
    "\<And>j. j < N \<Longrightarrow> st ! j = (if j < 250 \<and> 249 - j < length xs then xs ! (249 - j) else 0)"
    by auto
  have "foldO (\<lambda>(i, input) st. bindO (usub 249 i) (\<lambda>k. store st k input))
      (enumerate 0 (xs @ [x])) (replicate N 0) = (Ok (st[249 - length xs := x]) :: (advice_error, _) outcome)"
    using st(1,2) snoc.prems by (simp add: enumerate_append_eq foldO_snoc usub_def store_def)
  moreover have "st[249 - length xs := x] ! j
      = (if j < 250 \<and> 249 - j < length (xs @ [x]) then (xs @ [x]) ! (249 - j) else 0)" if "j < N" for j
    using st(2) st(3) [OF that] that snoc.prems by (auto simp: nth_list_update nth_append)
  ultimately show ?case using st(2) by (intro exI [of _ "st[249 - length xs := x]"]) simp
qed

text \<open>The processor starts in a state of the invariant, with the inputs on top of zeros.\<close>

lemma new_with_options_wf:
  assumes "length xs \<le> 16" "16 \<le> max_stack_depth opts" "max_stack_depth opts < 2 ^ 32"
    and ok: "new_with_options d es xs adv_s adv_m adv_n opts = Ok p"
  shows "wf_fast p" "stk (abs_vm p) = xs @ replicate (16 - length xs) 0" "saved (abs_vm p) = []"
proof -
  obtain st where st: "foldO (\<lambda>(i, input) st. bindO (usub 249 i) (\<lambda>k. store st k input))
      (enumerate 0 xs) (replicate 6850 0) = (Ok st :: (advice_error, _) outcome)" "length st = 6850"
    "\<And>j. j < 6850 \<Longrightarrow> st ! j = (if j < 250 \<and> 249 - j < length xs then xs ! (249 - j) else (0 :: felt))"
    using load_inputs [OF assms(1), of 6850] by (auto simp del: replicate.simps)
  obtain a where p: "p = \<lparr>clk = 0, ctx = 0, caller_hash = EMPTY_WORD, advice_st = a,
      memory_st = memory_new (max_memory_elements opts), system_call_state_stack = [],
      options = opts, deferred_state = d, fp_stack = st, stack_top_idx = 250, stack_bot_idx = 234,
      stack_overflow_save_stack = [], saved_overflow_len = 0\<rparr>"
    using ok st(1) by (auto simp: new_with_options_def INITIAL_STACK_TOP_IDX_def MIN_STACK_DEPTH_def
        INITIAL_STACK_BUFFER_SIZE_def outcome_simps)
  show wf: "wf_fast p"
    using assms(1-3) st(2,3) by (intro wf_fastI) (auto simp: p)
  show "stk (abs_vm p) = xs @ replicate (16 - length xs) 0"
  proof (rule nth_equalityI)
    fix i assume "i < length (stk (abs_vm p))"
    then have i: "i < 16" using wf by (simp add: p)
    then show "stk (abs_vm p) ! i = (xs @ replicate (16 - length xs) 0) ! i"
      using nth_live [OF wf, of i] st(3) [of "249 - i"] by (auto simp: p nth_append)
  qed (use wf assms(1) in \<open>simp add: p\<close>)
  show "saved (abs_vm p) = []" by (simp add: p)
qed

end
