(* ===== verification/Fast_Sim.thy ===== *)
theory Fast_Sim
  imports Simulation Fast_Depth
begin

text \<open>
  The fast processor simulates the reference machine: the relation of their states adds the
  invariants of the memory and of the advice provider to the one of the buffer, and the contract of
  \<open>processor_sim\<close> is discharged for the two implementations.
\<close>

section \<open>The relation of states\<close>

definition related :: "'d fast_processor \<Rightarrow> 'd vm \<Rightarrow> bool" where
  "related p v \<longleftrightarrow> wf_fast p \<and> wf_memory (memory_st p) \<and> wf_advice (advice_st p) \<and> v = abs_vm p"

lemma relatedI [intro]: "wf_fast p \<Longrightarrow> wf_memory (memory_st p) \<Longrightarrow> wf_advice (advice_st p) \<Longrightarrow> related p (abs_vm p)"
  by (simp add: related_def)

lemma related_stack:
  assumes "related p v" "sim_state wf_fast abs_vm m n"
    and frame: "\<And>w. n = Ok w \<Longrightarrow> memory_st w = memory_st v \<and> advice_st w = advice_st v"
  shows "sim related m n"
  using assms(1) assms(2) [unfolded sim_state_def]
proof (elim sim_cases)
  fix q w assume "m = Ok q" "n = Ok w" "wf_fast q \<and> w = abs_vm q"
  then show ?thesis
    using assms(1) frame [of w] by (auto simp: related_def)
qed auto

text \<open>The stack of the reference machine leaves the rest of the state alone.\<close>

lemma vm_stack_frame:
  "vm_set v i x = Ok w \<Longrightarrow> memory_st w = memory_st v \<and> advice_st w = advice_st v"
  "vm_set_word v i y = Ok w \<Longrightarrow> memory_st w = memory_st v \<and> advice_st w = advice_st v"
  "vm_swap v i j = Ok w \<Longrightarrow> memory_st w = memory_st v \<and> advice_st w = advice_st v"
  "vm_swapw_nth v n = Ok w \<Longrightarrow> memory_st w = memory_st v \<and> advice_st w = advice_st v"
  "vm_rotate_left v n = Ok w \<Longrightarrow> memory_st w = memory_st v \<and> advice_st w = advice_st v"
  "vm_rotate_right v n = Ok w \<Longrightarrow> memory_st w = memory_st v \<and> advice_st w = advice_st v"
  "bindO (vm_increment_size v) (\<lambda>v. vm_set v 0 x) = Ok w \<Longrightarrow> memory_st w = memory_st v \<and> advice_st w = advice_st v"
  "vm_decrement_size v = Ok w \<Longrightarrow> memory_st w = memory_st v \<and> advice_st w = advice_st v"
  "vm_start_context v = Ok w \<Longrightarrow> memory_st w = memory_st v \<and> advice_st w = advice_st v"
  "vm_restore_context v = Ok w \<Longrightarrow> memory_st w = memory_st v \<and> advice_st w = advice_st v"
  by (auto simp: vm_set_def vm_set_word_def vm_swap_def vm_swapw_nth_def vm_rotate_left_def
      vm_rotate_right_def vm_increment_size_def vm_decrement_size_def vm_start_context_def
      vm_restore_context_def outcome_simps Let_def split: if_splits list.splits)

lemma vm_get_Ok: "wf_vm v \<Longrightarrow> i < 16 \<Longrightarrow> vm_get v i = Ok (stk v ! i)"
  by (simp add: vm_get_def fetch_def wf_vm_def)

lemma vm_get_word_Ok: "wf_vm v \<Longrightarrow> i \<le> 12 \<Longrightarrow> \<exists>w. vm_get_word v i = Ok w"
proof -
  assume "wf_vm v" "i \<le> 12"
  then have "vm_get_word v i = word_of_list (slice i 4 (stk v))" "length (slice i 4 (stk v)) = 4"
    by (simp_all add: vm_get_word_def fetch_range_def wf_vm_def)
  then show ?thesis using word_of_list_length4 by metis
qed

section \<open>The stack\<close>

lemma fast_stack_sim: "stack_sim fast_stack vm_stack (related :: 'd fast_processor \<Rightarrow> 'd vm \<Rightarrow> bool)"
proof
  fix p :: "'d fast_processor" and v :: "'d vm" and i j n :: nat and x :: felt and w :: qword
  assume R: "related p v"
  then have wf: "wf_fast p" and v: "v = abs_vm p" and wfv: "wf_vm v"
    by (auto simp: related_def wf_vm_abs)
  note R' = R [unfolded v]
  show "sim (=) (stk_get fast_stack p i) (stk_get vm_stack v i)" if "i < 16"
    using stack_get_sim(1) [OF wf that] vm_get_Ok [OF wfv that] v by (simp add: fast_stack_def vm_stack_def)
  show "sim (=) (stk_get_word fast_stack p i) (stk_get_word vm_stack v i)" if "i \<le> 12"
    using stack_get_word_sim [OF wf that] vm_get_word_Ok [OF wfv that] v
    by (auto simp: fast_stack_def vm_stack_def)
  show "sim (=) (stk_depth fast_stack p) (stk_depth vm_stack v)"
    using stack_depth_sim [OF wf] v by (simp add: fast_stack_def vm_stack_def vm_depth_def)
  show "sim related (stk_set fast_stack p i x) (stk_set vm_stack v i x)" if "i < 16"
    unfolding v fast_stack_def vm_stack_def stack_interface.select_convs
    by (rule related_stack [OF R' stack_write_sim [OF wf that] vm_stack_frame(1)])
  show "sim related (stk_set_word fast_stack p i w) (stk_set_word vm_stack v i w)" if "i \<le> 12"
    unfolding v fast_stack_def vm_stack_def stack_interface.select_convs
    by (rule related_stack [OF R' stack_write_word_sim [OF wf that] vm_stack_frame(2)])
  show "sim related (stk_swap fast_stack p i j) (stk_swap vm_stack v i j)" if "i < 16" "j < 16"
    unfolding v fast_stack_def vm_stack_def stack_interface.select_convs
    by (rule related_stack [OF R' stack_swap_sim [OF wf that] vm_stack_frame(3)])
  show "sim related (stk_swapw_nth fast_stack p n) (stk_swapw_nth vm_stack v n)" if "0 < n" "n \<le> 3"
    unfolding v fast_stack_def vm_stack_def stack_interface.select_convs
    by (rule related_stack [OF R' swapw_nth_sim [OF wf that] vm_stack_frame(4)])
  show "sim related (stk_rotate_left fast_stack p n) (stk_rotate_left vm_stack v n)" if "0 < n" "n \<le> 16"
    unfolding v fast_stack_def vm_stack_def stack_interface.select_convs
    by (rule related_stack [OF R' rotate_left_sim [OF wf that] vm_stack_frame(5)])
  show "sim related (stk_rotate_right fast_stack p n) (stk_rotate_right vm_stack v n)" if "0 < n" "n \<le> 16"
    unfolding v fast_stack_def vm_stack_def stack_interface.select_convs
    by (rule related_stack [OF R' rotate_right_sim [OF wf that] vm_stack_frame(6)])
  show "sim related (bindO (stk_increment_size fast_stack p) (\<lambda>p. stk_set fast_stack p 0 x))
      (bindO (stk_increment_size vm_stack v) (\<lambda>q. stk_set vm_stack q 0 x))"
    unfolding v fast_stack_def vm_stack_def stack_interface.select_convs
    by (rule related_stack [OF R' push_sim [OF wf] vm_stack_frame(7)])
  show "sim related (stk_decrement_size fast_stack p) (stk_decrement_size vm_stack v)"
    unfolding v fast_stack_def vm_stack_def stack_interface.select_convs
    by (rule related_stack [OF R' decrement_size_sim [OF wf] vm_stack_frame(8)])
qed

lemma fast_context_sim:
  assumes R: "related p v"
  shows "sim related (stk_start_context fast_stack p) (stk_start_context vm_stack v)"
    "sim related (stk_restore_context fast_stack p) (stk_restore_context vm_stack v)"
proof -
  have wf: "wf_fast p" and v: "v = abs_vm p"
    using R by (auto simp: related_def)
  note R' = R [unfolded v]
  show "sim related (stk_start_context fast_stack p) (stk_start_context vm_stack v)"
    unfolding v fast_stack_def vm_stack_def stack_interface.select_convs
    by (rule related_stack [OF R' start_context_sim [OF wf] vm_stack_frame(9)])
  show "sim related (stk_restore_context fast_stack p) (stk_restore_context vm_stack v)"
    unfolding v fast_stack_def vm_stack_def stack_interface.select_convs
    by (rule related_stack [OF R' restore_context_sim [OF wf] vm_stack_frame(10)])
qed

section \<open>System, advice, memory and hasher\<close>

lemma wf_fast_sys_update [simp]:
  "wf_fast (p\<lparr>clk := k\<rparr>) = wf_fast p" "wf_fast (p\<lparr>ctx := c\<rparr>) = wf_fast p"
  "wf_fast (p\<lparr>caller_hash := h\<rparr>) = wf_fast p" "wf_fast (p\<lparr>advice_st := a\<rparr>) = wf_fast p"
  "wf_fast (p\<lparr>memory_st := m\<rparr>) = wf_fast p" "wf_fast (p\<lparr>system_call_state_stack := s\<rparr>) = wf_fast p"
  "wf_fast (p\<lparr>deferred_state := d\<rparr>) = wf_fast p"
  by (simp_all add: wf_fast_def)

lemma abs_vm_sys_update [simp]:
  "abs_vm (p\<lparr>clk := k\<rparr>) = (abs_vm p)\<lparr>clk := k\<rparr>" "abs_vm (p\<lparr>ctx := c\<rparr>) = (abs_vm p)\<lparr>ctx := c\<rparr>"
  "abs_vm (p\<lparr>caller_hash := h\<rparr>) = (abs_vm p)\<lparr>caller_hash := h\<rparr>"
  "abs_vm (p\<lparr>advice_st := a\<rparr>) = (abs_vm p)\<lparr>advice_st := a\<rparr>"
  "abs_vm (p\<lparr>memory_st := m\<rparr>) = (abs_vm p)\<lparr>memory_st := m\<rparr>"
  "abs_vm (p\<lparr>system_call_state_stack := s\<rparr>) = (abs_vm p)\<lparr>system_call_state_stack := s\<rparr>"
  "abs_vm (p\<lparr>deferred_state := d\<rparr>) = (abs_vm p)\<lparr>deferred_state := d\<rparr>"
  by (simp_all add: abs_vm_def live_def)

lemma with_advice_sim:
  assumes "related p v" "r \<noteq> Panic" "\<And>x a. r = Ok (x, a) \<Longrightarrow> wf_advice a"
  shows "sim (rel_op related) (with_advice p r) (with_advice v r)"
  using assms by (cases r) (auto simp: with_advice_def related_def)

lemma memory_safe:
  "read_element m c a \<noteq> Panic" "read_word m c a \<noteq> Panic"
  "write_element m c a x \<noteq> Panic" "write_word m c a w \<noteq> Panic"
  by (auto simp: read_element_def read_word_def read_word_impl_def write_element_def write_word_def
      clean_addr_def enforce_word_aligned_addr_def outcome_simps Let_def split: prod.splits if_splits)

lemma memory_write_sim:
  assumes "related p v" "r \<noteq> Panic" "\<And>m. r = Ok m \<Longrightarrow> wf_memory m"
  shows "sim related (bindO (map_err MemoryErr r) (\<lambda>m. Ok (p\<lparr>memory_st := m\<rparr>)))
    (bindO (map_err MemoryErr r) (\<lambda>m. Ok (v\<lparr>memory_st := m\<rparr>)))"
  using assms by (cases r) (auto simp: related_def)

lemma sim_refl: "m \<noteq> Panic \<Longrightarrow> sim (=) m m"
  by (cases m) auto

lemma path_verify_safe: "length path \<le> 255 \<Longrightarrow> compute_root perm path i v \<noteq> Panic"
  "length path \<le> 255 \<Longrightarrow> path_verify perm path i v r \<noteq> Panic"
  by (auto simp: path_verify_def compute_root_def path_depth_def node_index_new_def outcome_simps)

lemma hasher_safe:
  assumes "length path \<le> 255"
  shows "verify_merkle_root E root v (Some path) i e \<noteq> Panic"
    "update_merkle_root E root v w (Some path) i e \<noteq> Panic"
  using path_verify_safe [OF assms]
  by (auto simp: verify_merkle_root_def update_merkle_root_def split: outcome.splits)

lemmas processor_sel = fast_def ref_def processor_with_def system_impl_def advice_impl_def memory_impl_def
  hasher_impl_def

lemma fast_advice_sim:
  assumes R: "related p v"
  shows "sim (rel_op related) (adv_pop_stack (advice_provider (fast E)) p) (adv_pop_stack (advice_provider (ref E)) v)"
    "sim (rel_op related) (adv_pop_stack_word (advice_provider (fast E)) p)
      (adv_pop_stack_word (advice_provider (ref E)) v)"
    "sim (rel_op related) (adv_pop_stack_dword (advice_provider (fast E)) p)
      (adv_pop_stack_dword (advice_provider (ref E)) v)"
    "sim (\<lambda>x y. x = y \<and> (\<exists>path. x = Some path \<and> length path \<le> 255))
      (adv_get_merkle_path (advice_provider (fast E)) p root d i)
      (adv_get_merkle_path (advice_provider (ref E)) v root d i)"
proof -
  have wf: "wf_advice (advice_st p)" and v: "advice_st v = advice_st p"
    using R by (auto simp: related_def)
  show "sim (rel_op related) (adv_pop_stack (advice_provider (fast E)) p) (adv_pop_stack (advice_provider (ref E)) v)"
    by (simp add: processor_sel v) (rule with_advice_sim [OF R pop_safe(1) [OF wf] pop_stack_wf(2) [OF wf]])
  show "sim (rel_op related) (adv_pop_stack_word (advice_provider (fast E)) p)
      (adv_pop_stack_word (advice_provider (ref E)) v)"
    by (simp add: processor_sel v) (rule with_advice_sim [OF R pop_safe(2) [OF wf] pop_stack_word_wf(1) [OF wf]])
  have "wf_advice a" if "pop_stack_dword (advice_st p) = Ok (x, a)" for x a
    using that pop_stack_dword_wf(1) [OF wf] by (cases x) auto
  then show "sim (rel_op related) (adv_pop_stack_dword (advice_provider (fast E)) p)
      (adv_pop_stack_dword (advice_provider (ref E)) v)"
    by (simp add: processor_sel v) (rule with_advice_sim [OF R pop_safe(3) [OF wf]])
  show "sim (\<lambda>x y. x = y \<and> (\<exists>path. x = Some path \<and> length path \<le> 255))
      (adv_get_merkle_path (advice_provider (fast E)) p root d i)
      (adv_get_merkle_path (advice_provider (ref E)) v root d i)"
    using get_merkle_path_safe [of "advice_st p" root d i]
    by (cases "get_merkle_path (advice_st p) root d i") (auto simp: processor_sel v)
qed

lemma fast_update_merkle_node_sim:
  assumes R: "related p v"
  shows "sim (\<lambda>x y. rel_op related x y \<and> (\<exists>path. fst x = Some path \<and> length path \<le> 255))
    (adv_update_merkle_node (advice_provider (fast E)) p root d i w)
    (adv_update_merkle_node (advice_provider (ref E)) v root d i w)"
proof -
  let ?r = "update_merkle_node (env_perm E) (advice_st p) root d i w"
  have wf: "wf_advice (advice_st p)" and v: "advice_st v = advice_st p"
    using R by (auto simp: related_def)
  consider (ok) path r a where "?r = Ok ((path, r), a)" | (err) e where "?r = Err e"
    using update_merkle_node_safe [of "env_perm E" "advice_st p" root d i w] by (cases ?r) auto
  then show ?thesis
  proof cases
    case ok
    have "length path \<le> 255" using update_merkle_node_path [OF ok] by simp
    then show ?thesis
      using R update_merkle_node_wf [OF wf ok] ok by (simp add: processor_sel v with_advice_def related_def)
  next
    case err
    then show ?thesis by (simp add: processor_sel v with_advice_def)
  qed
qed

lemma fast_memory_sim:
  assumes R: "related p v"
  shows "sim (=) (mem_read_element (memory (fast E)) p c a) (mem_read_element (memory (ref E)) v c a)"
    "sim (=) (mem_read_word (memory (fast E)) p c a k) (mem_read_word (memory (ref E)) v c a k)"
    "sim related (mem_write_element (memory (fast E)) p c a x) (mem_write_element (memory (ref E)) v c a x)"
    "sim related (mem_write_word (memory (fast E)) p c a k w) (mem_write_word (memory (ref E)) v c a k w)"
proof -
  have wf: "wf_memory (memory_st p)" and v: "memory_st v = memory_st p"
    using R by (auto simp: related_def)
  show "sim (=) (mem_read_element (memory (fast E)) p c a) (mem_read_element (memory (ref E)) v c a)"
    "sim (=) (mem_read_word (memory (fast E)) p c a k) (mem_read_word (memory (ref E)) v c a k)"
    using v by (simp_all add: processor_sel sim_refl memory_safe)
  show "sim related (mem_write_element (memory (fast E)) p c a x) (mem_write_element (memory (ref E)) v c a x)"
    by (simp add: processor_sel v) (rule memory_write_sim [OF R memory_safe(3) mem.wr_ok [OF wf]])
  show "sim related (mem_write_word (memory (fast E)) p c a k w) (mem_write_word (memory (ref E)) v c a k w)"
    by (simp add: processor_sel v) (rule memory_write_sim [OF R memory_safe(4) mem.wrw_ok [OF wf]])
qed

lemma fast_system_sim:
  assumes R: "related p v"
  shows "sys_caller_hash (system (fast E)) p = sys_caller_hash (system (ref E)) v"
    "sys_clock (system (fast E)) p = sys_clock (system (ref E)) v"
    "sys_ctx (system (fast E)) p = sys_ctx (system (ref E)) v"
    "sys_deferred_root (system (fast E)) p = sys_deferred_root (system (ref E)) v"
    "related (sys_set_caller_hash (system (fast E)) p w) (sys_set_caller_hash (system (ref E)) v w)"
    "related (sys_set_ctx (system (fast E)) p c) (sys_set_ctx (system (ref E)) v c)"
    "related (sys_increment_clock (system (fast E)) p) (sys_increment_clock (system (ref E)) v)"
    "related (sys_save_call_state (system (fast E)) p) (sys_save_call_state (system (ref E)) v)"
    "sim related (sys_restore_call_state (system (fast E)) p) (sys_restore_call_state (system (ref E)) v)"
    "sim related (sys_log_deferred_statement (system (fast E)) p s r)
      (sys_log_deferred_statement (system (ref E)) v s r)"
  using R
  by (auto simp: processor_sel related_def increment_clock_def save_call_state_def restore_call_state_def
      log_deferred_statement_def split: list.splits sum.splits)

lemma fast_hasher_sim:
  "sim (=) (hsh_permute (hasher (fast E)) p st) (hsh_permute (hasher (ref E)) v st)"
  "length path \<le> 255 \<Longrightarrow> sim (=) (hsh_verify_merkle_root (hasher (fast E)) p root u (Some path) idx e)
    (hsh_verify_merkle_root (hasher (ref E)) v root u (Some path) idx e)"
  "length path \<le> 255 \<Longrightarrow> sim (=) (hsh_update_merkle_root (hasher (fast E)) p root u w (Some path) idx e)
    (hsh_update_merkle_root (hasher (ref E)) v root u w (Some path) idx e)"
  by (cases "env_perm E st", simp add: processor_sel hasher_permute_def)
    (simp_all add: processor_sel, (rule sim_refl, erule hasher_safe)+)

lemma fast_ref_ops: "processor_sim (fast E) (ref E) (related :: 'd fast_processor \<Rightarrow> 'd vm \<Rightarrow> bool)"
proof -
  have stack: "stack (fast E) = fast_stack" "stack (ref E) = vm_stack"
    by (simp_all add: processor_sel)
  show ?thesis
    unfolding processor_sim_def processor_sim_axioms_def stack
    by (intro conjI fast_stack_sim allI impI fast_system_sim fast_advice_sim fast_update_merkle_node_sim
        fast_memory_sim fast_hasher_sim)
qed

interpretation fast_ref: machine_sim "fast E" "ref E" "related :: 'd fast_processor \<Rightarrow> 'd vm \<Rightarrow> bool"
  for E :: "'d env"
proof -
  have stack: "stack (fast E) = fast_stack" "stack (ref E) = vm_stack"
    by (simp_all add: processor_sel)
  show "machine_sim (fast E) (ref E) (related :: 'd fast_processor \<Rightarrow> 'd vm \<Rightarrow> bool)"
    unfolding machine_sim_def machine_sim_axioms_def stack
    by (intro conjI fast_ref_ops allI impI fast_context_sim fast_system_sim)
qed

section \<open>The initial state\<close>

abbreviation good :: "'d fast_processor \<Rightarrow> bool" where
  "good p \<equiv> related p (abs_vm p)"

lemma start_good:
  assumes "new_with_options d tbl xs adv_s adv_m adv_n opts = Ok p" "length xs \<le> 16"
    "16 \<le> max_stack_depth opts" "max_stack_depth opts < 2 ^ 32" "opt_max_advice_size_bytes opts \<le> usize_max"
  shows "good p"
proof -
  have "memory_st p = memory_new (max_memory_elements opts)"
    and "advice_new tbl (opt_max_advice_size_bytes opts) adv_s adv_m adv_n = Ok (advice_st p)"
    using assms(1) by (auto simp: new_with_options_def outcome_simps)
  then show ?thesis
    using new_with_options_wf(1) [OF assms(2-4,1)] advice_new_wf assms(5)
    by (auto simp: related_def memory_new_def wf_memory_def fcard.rep_eq)
qed

text \<open>With no advice and the default options the processor starts, and the inputs are on its stack.\<close>

lemma start_exists:
  assumes "length xs \<le> 16"
  obtains p where "new_with_options d [] xs [] fmempty [] default_options = Ok p" "good p"
    "stk (abs_vm p) = xs @ replicate (16 - length xs) 0" "saved (abs_vm p) = []" "options p = default_options"
proof -
  obtain st where "foldO (\<lambda>(i, input) st. bindO (usub 249 i) (\<lambda>k. store st k input))
      (enumerate 0 xs) (replicate 6850 0) = (Ok st :: (advice_error, _) outcome)"
    using load_inputs [OF assms, of 6850] by auto
  moreover have "\<exists>a. advice_new [] (opt_max_advice_size_bytes default_options) [] fmempty [] = Ok a"
    by (simp add: advice_new_def extend_advice_stack_def extend_merkle_store_def extend_map_def Let_def
        check_advice_size_addition_def check_stack_capacity_def check_merkle_store_node_addition_def felt_bytes_def
        merkle_node_bytes_def checked_mul_def checked_add_def new_internal_node_count_def advice_empty_def store_new_def
        store_extend_def map_entries_def map_merge_def merge_new_def default_options_def fcard.rep_eq sorted_list_of_fset.rep_eq)
  ultimately obtain p where p: "new_with_options d [] xs [] fmempty [] default_options = Ok p"
    by (auto simp: new_with_options_def INITIAL_STACK_TOP_IDX_def INITIAL_STACK_BUFFER_SIZE_def)
  have opts: "16 \<le> max_stack_depth default_options" "max_stack_depth default_options < 2 ^ 32"
    "opt_max_advice_size_bytes default_options \<le> usize_max"
    by (simp_all add: default_options_def usize_max_def)
  show thesis
    using that [OF p start_good [OF p assms opts]] new_with_options_wf [OF assms opts(1,2) p] p
    by (auto simp: new_with_options_def outcome_simps)
qed

end
