(* ===== verification/Dispatch.thy ===== *)
theory Dispatch
  imports Operation_Set Ops_U32 Ops_Io Ops_Fri Ops_Crypto Ops_Ace Fast_Sim
begin

text \<open>
  \<open>execute_op\<close> of \<open>processor/src/execution/operations/mod.rs\<close>: the handler of every operation of a
  basic block. The \<open>Emit\<close> operation is dispatched by the caller, since it runs an event handler of the
  host; reaching it here is a panic.
\<close>

primrec execute_op :: "'p processor \<Rightarrow> operation \<Rightarrow> 'p \<Rightarrow> 'p op_result" where
  "execute_op P Noop = (\<lambda>p. Ok (HEmpty, p))"
| "execute_op P (Assert err_code) = (\<lambda>p. op_assert P p err_code)"
| "execute_op P SDepth = (\<lambda>p. op_sdepth P p)"
| "execute_op P Caller = (\<lambda>p. op_caller P p)"
| "execute_op P Clk = (\<lambda>p. op_clk P p)"
| "execute_op P Emit = (\<lambda>p. Panic)"
| "execute_op P Add = (\<lambda>p. op_add P p)"
| "execute_op P Neg = (\<lambda>p. op_neg P p)"
| "execute_op P Mul = (\<lambda>p. op_mul P p)"
| "execute_op P Inv = (\<lambda>p. op_inv P p)"
| "execute_op P Incr = (\<lambda>p. op_incr P p)"
| "execute_op P And = (\<lambda>p. op_and P p)"
| "execute_op P Or = (\<lambda>p. op_or P p)"
| "execute_op P NotOp = (\<lambda>p. op_not P p)"
| "execute_op P Eq = (\<lambda>p. op_eq P p)"
| "execute_op P Eqz = (\<lambda>p. op_eqz P p)"
| "execute_op P Expacc = (\<lambda>p. op_expacc P p)"
| "execute_op P Ext2Mul = (\<lambda>p. op_ext2mul P p)"
| "execute_op P U32split = (\<lambda>p. op_u32split P p)"
| "execute_op P U32add = (\<lambda>p. op_u32add P p)"
| "execute_op P U32add3 = (\<lambda>p. op_u32add3 P p)"
| "execute_op P U32sub = (\<lambda>p. op_u32sub P p)"
| "execute_op P U32mul = (\<lambda>p. op_u32mul P p)"
| "execute_op P U32madd = (\<lambda>p. op_u32madd P p)"
| "execute_op P U32div = (\<lambda>p. op_u32div P p)"
| "execute_op P U32and = (\<lambda>p. op_u32and P p)"
| "execute_op P U32xor = (\<lambda>p. op_u32xor P p)"
| "execute_op P (U32assert2 err_code) = (\<lambda>p. op_u32assert2 P p err_code)"
| "execute_op P Pad = (\<lambda>p. op_pad P p)"
| "execute_op P Drop = (\<lambda>p. bindO (sdec P p) (\<lambda>p. Ok (HEmpty, p)))"
| "execute_op P Dup0 = (\<lambda>p. dup_nth P p 0)"
| "execute_op P Dup1 = (\<lambda>p. dup_nth P p 1)"
| "execute_op P Dup2 = (\<lambda>p. dup_nth P p 2)"
| "execute_op P Dup3 = (\<lambda>p. dup_nth P p 3)"
| "execute_op P Dup4 = (\<lambda>p. dup_nth P p 4)"
| "execute_op P Dup5 = (\<lambda>p. dup_nth P p 5)"
| "execute_op P Dup6 = (\<lambda>p. dup_nth P p 6)"
| "execute_op P Dup7 = (\<lambda>p. dup_nth P p 7)"
| "execute_op P Dup9 = (\<lambda>p. dup_nth P p 9)"
| "execute_op P Dup11 = (\<lambda>p. dup_nth P p 11)"
| "execute_op P Dup13 = (\<lambda>p. dup_nth P p 13)"
| "execute_op P Dup15 = (\<lambda>p. dup_nth P p 15)"
| "execute_op P Swap = (\<lambda>p. op_swap P p)"
| "execute_op P SwapW = (\<lambda>p. bindO (stk_swapw_nth (stack P) p 1) (\<lambda>p. Ok (HEmpty, p)))"
| "execute_op P SwapW2 = (\<lambda>p. bindO (stk_swapw_nth (stack P) p 2) (\<lambda>p. Ok (HEmpty, p)))"
| "execute_op P SwapW3 = (\<lambda>p. bindO (stk_swapw_nth (stack P) p 3) (\<lambda>p. Ok (HEmpty, p)))"
| "execute_op P SwapDW = (\<lambda>p. op_swap_double_word P p)"
| "execute_op P MovUp2 = (\<lambda>p. bindO (stk_rotate_left (stack P) p 3) (\<lambda>p. Ok (HEmpty, p)))"
| "execute_op P MovUp3 = (\<lambda>p. bindO (stk_rotate_left (stack P) p 4) (\<lambda>p. Ok (HEmpty, p)))"
| "execute_op P MovUp4 = (\<lambda>p. bindO (stk_rotate_left (stack P) p 5) (\<lambda>p. Ok (HEmpty, p)))"
| "execute_op P MovUp5 = (\<lambda>p. bindO (stk_rotate_left (stack P) p 6) (\<lambda>p. Ok (HEmpty, p)))"
| "execute_op P MovUp6 = (\<lambda>p. bindO (stk_rotate_left (stack P) p 7) (\<lambda>p. Ok (HEmpty, p)))"
| "execute_op P MovUp7 = (\<lambda>p. bindO (stk_rotate_left (stack P) p 8) (\<lambda>p. Ok (HEmpty, p)))"
| "execute_op P MovUp8 = (\<lambda>p. bindO (stk_rotate_left (stack P) p 9) (\<lambda>p. Ok (HEmpty, p)))"
| "execute_op P MovDn2 = (\<lambda>p. bindO (stk_rotate_right (stack P) p 3) (\<lambda>p. Ok (HEmpty, p)))"
| "execute_op P MovDn3 = (\<lambda>p. bindO (stk_rotate_right (stack P) p 4) (\<lambda>p. Ok (HEmpty, p)))"
| "execute_op P MovDn4 = (\<lambda>p. bindO (stk_rotate_right (stack P) p 5) (\<lambda>p. Ok (HEmpty, p)))"
| "execute_op P MovDn5 = (\<lambda>p. bindO (stk_rotate_right (stack P) p 6) (\<lambda>p. Ok (HEmpty, p)))"
| "execute_op P MovDn6 = (\<lambda>p. bindO (stk_rotate_right (stack P) p 7) (\<lambda>p. Ok (HEmpty, p)))"
| "execute_op P MovDn7 = (\<lambda>p. bindO (stk_rotate_right (stack P) p 8) (\<lambda>p. Ok (HEmpty, p)))"
| "execute_op P MovDn8 = (\<lambda>p. bindO (stk_rotate_right (stack P) p 9) (\<lambda>p. Ok (HEmpty, p)))"
| "execute_op P CSwap = (\<lambda>p. op_cswap P p)"
| "execute_op P CSwapW = (\<lambda>p. op_cswapw P p)"
| "execute_op P (Push value) = (\<lambda>p. op_push P p value)"
| "execute_op P AdvPop = (\<lambda>p. op_advpop P p)"
| "execute_op P AdvPopW = (\<lambda>p. op_advpopw P p)"
| "execute_op P MLoadW = (\<lambda>p. op_mloadw P p)"
| "execute_op P MStoreW = (\<lambda>p. op_mstorew P p)"
| "execute_op P MLoad = (\<lambda>p. op_mload P p)"
| "execute_op P MStore = (\<lambda>p. op_mstore P p)"
| "execute_op P MStream = (\<lambda>p. op_mstream P p)"
| "execute_op P Pipe = (\<lambda>p. op_pipe P p)"
| "execute_op P HPerm = (\<lambda>p. op_hperm P p)"
| "execute_op P (MpVerify err_code) = (\<lambda>p. op_mpverify P p err_code)"
| "execute_op P MrUpdate = (\<lambda>p. op_mrupdate P p)"
| "execute_op P FriE2F4 = (\<lambda>p. op_fri_ext2fold4 P p)"
| "execute_op P HornerBase = (\<lambda>p. op_horner_eval_base P p)"
| "execute_op P HornerExt = (\<lambda>p. op_horner_eval_ext P p)"
| "execute_op P EvalCircuit = (\<lambda>p. op_eval_circuit P p)"
| "execute_op P LogDeferred = (\<lambda>p. op_log_deferred P p)"
| "execute_op P CryptoStream = (\<lambda>p. op_crypto_stream P p)"

context processor_sim
begin

lemma stack_method_sim:
  assumes "R p q"
  shows "sim (rel_op R) (bindO (sdec P p) (\<lambda>p. Ok (HEmpty, p))) (bindO (sdec Q q) (\<lambda>p. Ok (HEmpty, p)))"
    "0 < n \<Longrightarrow> n \<le> 3 \<Longrightarrow> sim (rel_op R) (bindO (stk_swapw_nth (stack P) p n) (\<lambda>p. Ok (HEmpty, p)))
      (bindO (stk_swapw_nth (stack Q) q n) (\<lambda>p. Ok (HEmpty, p)))"
    "0 < n \<Longrightarrow> n \<le> 16 \<Longrightarrow> sim (rel_op R) (bindO (stk_rotate_left (stack P) p n) (\<lambda>p. Ok (HEmpty, p)))
      (bindO (stk_rotate_left (stack Q) q n) (\<lambda>p. Ok (HEmpty, p)))"
    "0 < n \<Longrightarrow> n \<le> 16 \<Longrightarrow> sim (rel_op R) (bindO (stk_rotate_right (stack P) p n) (\<lambda>p. Ok (HEmpty, p)))
      (bindO (stk_rotate_right (stack Q) q n) (\<lambda>p. Ok (HEmpty, p)))"
  using assms by (intro sim_intros; simp)+

lemma noop_sim: "R p q \<Longrightarrow> sim (rel_op R) (Ok (HEmpty, p)) (Ok (HEmpty, q))"
  by simp

lemmas operation_sims = noop_sim stack_method_sim stack_ops_sim sys_ops_sim field_ops_sim binary_ops_sim
  u32_ops_sim u32_wide_ops_sim u32div_sim io_ops_sim fri_sim crypto_ops_sim ace_sim

lemma execute_op_sim:
  assumes "R p q" "op \<noteq> Emit"
  shows "sim (rel_op R) (execute_op P op p) (execute_op Q op q)"
  using assms(2) by (cases op) (simp_all add: operation_sims [OF assms(1)] del: sim.simps)

end

text \<open>A step of the fast processor, seen on the reference machine.\<close>

lemma execute_op_fast:
  assumes "good p" "execute_op (fast E) op p = Ok (h, p')"
  shows "good p' \<and> execute_op (ref E) op (abs_vm p) = Ok (h, abs_vm p')"
proof (cases "op = Emit")
  case False
  then show ?thesis
    using fast_ref.execute_op_sim [OF assms(1) False, of E] assms(2) by (auto simp: related_def)
qed (use assms in simp)

lemma execute_op_ref:
  assumes "good p" "execute_op (ref E) op (abs_vm p) = Ok (h, v)"
  shows "\<exists>p'. good p' \<and> execute_op (fast E) op p = Ok (h, p') \<and> abs_vm p' = v"
proof (cases "op = Emit")
  case False
  from fast_ref.execute_op_sim [OF assms(1) False, of E] show ?thesis
    using assms(2) by (elim sim_cases) (auto simp: related_def)
qed (use assms in simp)

lemma execute_op_ref_err:
  assumes "good p" "execute_op (ref E) op (abs_vm p) = Err e"
  shows "execute_op (fast E) op p = Err e"
proof (cases "op = Emit")
  case False
  from fast_ref.execute_op_sim [OF assms(1) False, of E] show ?thesis
    using assms(2) by (elim sim_cases) auto
qed (use assms in simp)

end
