(* ===== verification/Mast.thy ===== *)
theory Mast
  imports Op_Batch
begin

text \<open>
  Programs as forests of nodes (\<open>core/src/mast/node/\<close>, \<open>core/src/mast/mod.rs\<close>, \<open>core/src/mast/dense_order.rs\<close>,
  \<open>core/src/program/kernel.rs\<close>): the seven kinds of nodes, their builders and digests, the forest with its lookups,
  the canonical order of its nodes, and the checks a forest passes when it is made from parts. A node identifier is the
  index of a node; it is a natural number here, since a forest holds fewer than \<open>2^30\<close> nodes.
\<close>

section \<open>Nodes\<close>

type_synonym node_id = nat

record basic_block_node =
  op_batches :: "op_batch list"
  bb_digest :: qword

record join_node =
  jn_first :: node_id
  jn_second :: node_id
  jn_digest :: qword

record split_node =
  on_true :: node_id
  on_false :: node_id
  sn_digest :: qword

record loop_node =
  ln_body :: node_id
  ln_digest :: qword

record call_node =
  callee :: node_id
  is_syscall :: bool
  cn_digest :: qword

record dyn_node =
  is_dyncall :: bool
  dn_digest :: qword

record external_node =
  en_digest :: qword

datatype mast_node =
    Block basic_block_node
  | Join join_node
  | Split split_node
  | Loop loop_node
  | Call call_node
  | Dyn dyn_node
  | External external_node

definition node_digest :: "mast_node \<Rightarrow> qword" where
  "node_digest node =
    (case node of
       Block b \<Rightarrow> bb_digest b | Join j \<Rightarrow> jn_digest j | Split s \<Rightarrow> sn_digest s | Loop l \<Rightarrow> ln_digest l
     | Call c \<Rightarrow> cn_digest c | Dyn d \<Rightarrow> dn_digest d | External e \<Rightarrow> en_digest e)"

text \<open>\<open>for_each_child\<close>, as the list of children it visits.\<close>

definition node_children :: "mast_node \<Rightarrow> node_id list" where
  "node_children node =
    (case node of
       Join j \<Rightarrow> [jn_first j, jn_second j] | Split s \<Rightarrow> [on_true s, on_false s] | Loop l \<Rightarrow> [ln_body l]
     | Call c \<Rightarrow> [callee c] | _ \<Rightarrow> [])"

definition is_external :: "mast_node \<Rightarrow> bool" where
  "is_external node = (case node of External _ \<Rightarrow> True | _ \<Rightarrow> False)"

definition is_basic_block :: "mast_node \<Rightarrow> bool" where
  "is_basic_block node = (case node of Block _ \<Rightarrow> True | _ \<Rightarrow> False)"

text \<open>The domains of control nodes are their opcodes.\<close>

definition JOIN_DOMAIN :: felt where
  "JOIN_DOMAIN = 0b01010111"

definition SPLIT_DOMAIN :: felt where
  "SPLIT_DOMAIN = 0b01010100"

definition LOOP_DOMAIN :: felt where
  "LOOP_DOMAIN = 0b01010101"

definition CALL_DOMAIN :: felt where
  "CALL_DOMAIN = 0b01101100"

definition SYSCALL_DOMAIN :: felt where
  "SYSCALL_DOMAIN = 0b01101000"

definition DYNCALL_DEFAULT_DIGEST :: qword where
  "DYNCALL_DEFAULT_DIGEST =
    QWord (new_unchecked 16830415514927835337) (new_unchecked 12164645914672292987)
      (new_unchecked 13192574193032437705) (new_unchecked 4604554596675732269)"

definition DYN_DEFAULT_DIGEST :: qword where
  "DYN_DEFAULT_DIGEST =
    QWord (new_unchecked 16952228088962355159) (new_unchecked 5793482471479538911)
      (new_unchecked 14446299416172848527) (new_unchecked 13522295374716441620)"

section \<open>Forests\<close>

datatype order_error = ClassOrder | ExternalDigestOrder | InternalCycle

datatype mast_error =
    TooManyNodes
  | NodeIdOverflow node_id nat
  | EmptyBasicBlock
  | InvalidBatchPadding node_id batch_error
  | InvalidNodeOrder node_id order_error
  | ForwardReference node_id node_id
  | HashMismatch node_id qword qword

record mast_forest =
  mf_nodes :: "mast_node list"
  mf_roots :: "node_id list"
  mf_advice_map :: advice_map

definition get_node_by_id :: "mast_forest \<Rightarrow> node_id \<Rightarrow> mast_node option" where
  "get_node_by_id f n = (if n < length (mf_nodes f) then Some (mf_nodes f ! n) else None)"

definition get_digest_by_id :: "mast_forest \<Rightarrow> node_id \<Rightarrow> qword option" where
  "get_digest_by_id f n = map_option node_digest (get_node_by_id f n)"

text \<open>The search indexes the nodes with each root, so a root out of range panics.\<close>

fun find_root :: "mast_node list \<Rightarrow> qword \<Rightarrow> node_id list \<Rightarrow> ('e, node_id option) outcome" where
  "find_root nodes d [] = Ok None"
| "find_root nodes d (r # rs) =
    bindO (fetch nodes r) (\<lambda>node. if node_digest node = d then Ok (Some r) else find_root nodes d rs)"

definition find_procedure_root :: "mast_forest \<Rightarrow> qword \<Rightarrow> ('e, node_id option) outcome" where
  "find_procedure_root f d = find_root (mf_nodes f) d (mf_roots f)"

text \<open>\<open>KernelDescriptor::contains_proc\<close>.\<close>

type_synonym kernel = "qword list"

definition contains_proc :: "kernel \<Rightarrow> qword \<Rightarrow> bool" where
  "contains_proc k h = (h \<in> set k)"

section \<open>Builders\<close>

datatype operation_data = Raw "operation list" | Batched "op_batch list"

definition block_build ::
    "(hasher_state \<Rightarrow> hasher_state) \<Rightarrow> operation_data \<Rightarrow> qword option \<Rightarrow> (mast_error, basic_block_node) outcome" where
  "block_build perm data forced =
    (case data of
       Raw ops \<Rightarrow>
         if ops = [] then Err EmptyBasicBlock
         else bindO (batch_and_hash_ops perm ops) (\<lambda>(batches, computed).
           Ok \<lparr>op_batches = batches, bb_digest = (case forced of Some d \<Rightarrow> d | None \<Rightarrow> computed)\<rparr>)
     | Batched batches \<Rightarrow>
         if batches = [] then Err EmptyBasicBlock
         else (case forced of None \<Rightarrow> Panic | Some d \<Rightarrow> Ok \<lparr>op_batches = batches, bb_digest = d\<rparr>))"

text \<open>The builders of inner nodes look their children up in the forest and hash their digests, unless a digest is
  forced.\<close>

definition child_digest :: "mast_forest \<Rightarrow> node_id \<Rightarrow> (mast_error, qword) outcome" where
  "child_digest f n =
    (case get_digest_by_id f n of Some d \<Rightarrow> Ok d | None \<Rightarrow> Err (NodeIdOverflow n (length (mf_nodes f))))"

definition forced_or :: "qword option \<Rightarrow> qword \<Rightarrow> qword" where
  "forced_or forced d = (case forced of Some f \<Rightarrow> f | None \<Rightarrow> d)"

definition join_build ::
    "(hasher_state \<Rightarrow> hasher_state) \<Rightarrow> mast_forest \<Rightarrow> node_id \<Rightarrow> node_id \<Rightarrow> qword option \<Rightarrow> (mast_error, join_node) outcome" where
  "join_build perm f a b forced =
    bindO (child_digest f a) (\<lambda>da. bindO (child_digest f b) (\<lambda>db.
      Ok \<lparr>jn_first = a, jn_second = b, jn_digest = forced_or forced (merge_in_domain perm da db JOIN_DOMAIN)\<rparr>))"

definition split_build ::
    "(hasher_state \<Rightarrow> hasher_state) \<Rightarrow> mast_forest \<Rightarrow> node_id \<Rightarrow> node_id \<Rightarrow> qword option \<Rightarrow> (mast_error, split_node) outcome" where
  "split_build perm f a b forced =
    bindO (child_digest f a) (\<lambda>da. bindO (child_digest f b) (\<lambda>db.
      Ok \<lparr>on_true = a, on_false = b, sn_digest = forced_or forced (merge_in_domain perm da db SPLIT_DOMAIN)\<rparr>))"

definition loop_build ::
    "(hasher_state \<Rightarrow> hasher_state) \<Rightarrow> mast_forest \<Rightarrow> node_id \<Rightarrow> qword option \<Rightarrow> (mast_error, loop_node) outcome" where
  "loop_build perm f a forced =
    bindO (child_digest f a) (\<lambda>da.
      Ok \<lparr>ln_body = a, ln_digest = forced_or forced (merge_in_domain perm da EMPTY_WORD LOOP_DOMAIN)\<rparr>)"

definition call_domain :: "bool \<Rightarrow> felt" where
  "call_domain syscall = (if syscall then SYSCALL_DOMAIN else CALL_DOMAIN)"

definition call_build ::
    "(hasher_state \<Rightarrow> hasher_state) \<Rightarrow> mast_forest \<Rightarrow> node_id \<Rightarrow> bool \<Rightarrow> qword option \<Rightarrow> (mast_error, call_node) outcome" where
  "call_build perm f a syscall forced =
    bindO (child_digest f a) (\<lambda>da.
      Ok \<lparr>callee = a, is_syscall = syscall,
          cn_digest = forced_or forced (merge_in_domain perm da EMPTY_WORD (call_domain syscall))\<rparr>)"

definition dyn_build :: "bool \<Rightarrow> qword option \<Rightarrow> dyn_node" where
  "dyn_build dyncall forced =
    \<lparr>is_dyncall = dyncall, dn_digest = forced_or forced (if dyncall then DYNCALL_DEFAULT_DIGEST else DYN_DEFAULT_DIGEST)\<rparr>"

section \<open>Checks\<close>

text \<open>\<open>validate\<close>: every basic block satisfies the invariants of batches.\<close>

definition validate_basic_block_invariants :: "mast_forest \<Rightarrow> (mast_error, unit) outcome" where
  "validate_basic_block_invariants f =
    foldO (\<lambda>(i, node) _.
      case node of
        Block b \<Rightarrow> map_err (InvalidBatchPadding i) (validate_batch_invariants (op_batches b))
      | _ \<Rightarrow> Ok ()) (enumerate 0 (mf_nodes f)) ()"

text \<open>\<open>compute_node_hashes\<close>: the digests of the nodes in order, each from the digests computed before it.\<close>

definition check_no_forward_ref :: "node_id \<Rightarrow> node_id \<Rightarrow> (mast_error, unit) outcome" where
  "check_no_forward_ref n c = (if c \<ge> n then Err (ForwardReference n c) else Ok ())"

definition compute_node_hash ::
    "(hasher_state \<Rightarrow> hasher_state) \<Rightarrow> node_id \<Rightarrow> mast_node \<Rightarrow> qword list \<Rightarrow> (mast_error, qword) outcome" where
  "compute_node_hash perm n node hashes =
    (case node of
       Block b \<Rightarrow> Ok (hash_elements perm (concat (map ob_groups (op_batches b))))
     | Join j \<Rightarrow>
         bindO (check_no_forward_ref n (jn_first j)) (\<lambda>_. bindO (check_no_forward_ref n (jn_second j)) (\<lambda>_.
         bindO (fetch hashes (jn_first j)) (\<lambda>da. bindO (fetch hashes (jn_second j)) (\<lambda>db.
           Ok (merge_in_domain perm da db JOIN_DOMAIN)))))
     | Split s \<Rightarrow>
         bindO (check_no_forward_ref n (on_true s)) (\<lambda>_. bindO (check_no_forward_ref n (on_false s)) (\<lambda>_.
         bindO (fetch hashes (on_true s)) (\<lambda>da. bindO (fetch hashes (on_false s)) (\<lambda>db.
           Ok (merge_in_domain perm da db SPLIT_DOMAIN)))))
     | Loop l \<Rightarrow>
         bindO (check_no_forward_ref n (ln_body l)) (\<lambda>_.
         bindO (fetch hashes (ln_body l)) (\<lambda>da. Ok (merge_in_domain perm da EMPTY_WORD LOOP_DOMAIN)))
     | Call c \<Rightarrow>
         bindO (check_no_forward_ref n (callee c)) (\<lambda>_.
         bindO (fetch hashes (callee c)) (\<lambda>da. Ok (merge_in_domain perm da EMPTY_WORD (call_domain (is_syscall c)))))
     | Dyn d \<Rightarrow> Ok (if is_dyncall d then DYNCALL_DEFAULT_DIGEST else DYN_DEFAULT_DIGEST)
     | External e \<Rightarrow> Ok (en_digest e))"

definition compute_node_hashes :: "(hasher_state \<Rightarrow> hasher_state) \<Rightarrow> mast_forest \<Rightarrow> (mast_error, qword list) outcome" where
  "compute_node_hashes perm f =
    foldO (\<lambda>(i, node) hashes. bindO (compute_node_hash perm i node hashes) (\<lambda>d. Ok (hashes @ [d])))
      (enumerate 0 (mf_nodes f)) []"

definition validate_node_hashes :: "(hasher_state \<Rightarrow> hasher_state) \<Rightarrow> mast_forest \<Rightarrow> (mast_error, unit) outcome" where
  "validate_node_hashes perm f =
    bindO (compute_node_hashes perm f) (\<lambda>computed.
      foldO (\<lambda>(i, node, d) _. if node_digest node \<noteq> d then Err (HashMismatch i (node_digest node) d) else Ok ())
        (enumerate 0 (zip (mf_nodes f) computed)) ())"

definition MAX_NODES :: nat where
  "MAX_NODES = 2 ^ 30 - 1"

definition validate_mast_forest_parts_bounds :: "mast_forest \<Rightarrow> (mast_error, unit) outcome" where
  "validate_mast_forest_parts_bounds f =
    (if length (mf_nodes f) > MAX_NODES then Err TooManyNodes
     else
       foldO (\<lambda>r _. if r \<ge> length (mf_nodes f) then Err (NodeIdOverflow r (length (mf_nodes f))) else Ok ()) (mf_roots f) ())"

text \<open>The order of nodes: external nodes by digest, then basic blocks, then inner nodes after their children.\<close>

definition order_class :: "mast_node \<Rightarrow> nat" where
  "order_class node = (if is_external node then 0 else if is_basic_block node then 1 else 2)"

definition last_forward :: "node_id \<Rightarrow> node_id list \<Rightarrow> node_id option" where
  "last_forward n cs = fold (\<lambda>c acc. if c \<ge> n then Some c else acc) cs None"

definition check_node_order ::
    "nat \<times> mast_node \<Rightarrow> nat \<times> qword option \<Rightarrow> (mast_error, nat \<times> qword option) outcome" where
  "check_node_order = (\<lambda>(n, node) (previous_class, previous_digest).
    if order_class node < previous_class then Err (InvalidNodeOrder n ClassOrder)
    else
      bindO (case node of
          External e \<Rightarrow>
            (case previous_digest of
               Some d \<Rightarrow> if d \<ge> en_digest e then Err (InvalidNodeOrder n ExternalDigestOrder) else Ok (Some (en_digest e))
             | None \<Rightarrow> Ok (Some (en_digest e)))
        | _ \<Rightarrow> Ok previous_digest) (\<lambda>digest.
      case last_forward n (node_children node) of
        Some c \<Rightarrow> Err (ForwardReference n c)
      | None \<Rightarrow> Ok (order_class node, digest)))"

definition validate_dense_node_order :: "mast_node list \<Rightarrow> (mast_error, unit) outcome" where
  "validate_dense_node_order nodes =
    bindO (foldO check_node_order (enumerate 0 nodes) (0, None)) (\<lambda>_. Ok ())"

end
