(* ===== verification/Sys_Events.thy ===== *)
theory Sys_Events
  imports Dispatch Mast
begin

text \<open>
  The operation \<open>emit\<close>: the table of system events (\<open>core/src/events/sys_events.rs\<close>), their handlers
  (\<open>processor/src/fast/basic_block/sys_event_handlers.rs\<close>) and the dispatch of an event to its handler or to the host
  (\<open>processor/src/fast/basic_block/mod.rs\<close>). The handlers read the stack below the identifier of the event and change
  the advice provider only. They are written against the traits, like the operations, with the two readings the
  traits lack in the record \<open>observer\<close>. The five events of deferred statements belong to precompiles and are, like the
  callbacks of the host, fields of the record \<open>host\<close>; a callback sees the state as the machine on lists.
\<close>

section \<open>System events\<close>

datatype system_event =
    MerkleNodeMerge
  | MerkleNodeToStack
  | MapValueToStack
  | MapValueCountToStack
  | MapValueToStackN0
  | MapValueToStackN4
  | MapValueToStackN8
  | HasMapKey
  | Ext2Inv
  | U32Clz
  | U32Ctz
  | U32Clo
  | U32Cto
  | ILog2
  | MemToMap
  | HdwordToMap
  | HdwordToMapWithDomain
  | HqwordToMap
  | HpermToMap
  | DeferredRegister
  | DeferredEvaluate
  | DeferredEvaluateTag
  | DeferredEvaluatePayload
  | DeferredRegisterData
  | TraceEvent

definition LOOKUP :: "(u64 \<times> system_event) list" where
  "LOOKUP =
    [(7243907139105902342, MerkleNodeMerge),
     (6873007751276594108, MerkleNodeToStack),
     (17843484659000820118, MapValueToStack),
     (3470274154276391308, MapValueCountToStack),
     (11775886982554463322, MapValueToStackN0),
     (3443305460233942990, MapValueToStackN4),
     (1741586542981559489, MapValueToStackN8),
     (5642583036089175977, HasMapKey),
     (9660728691489438960, Ext2Inv),
     (1503707361178382932, U32Clz),
     (10656887096526143429, U32Ctz),
     (12846584985739176048, U32Clo),
     (6773574803673468616, U32Cto),
     (7444351342957461231, ILog2),
     (5768534446586058686, MemToMap),
     (5988159172915333521, HdwordToMap),
     (6143777601072385586, HdwordToMapWithDomain),
     (11723176702659679401, HqwordToMap),
     (6190830263511605775, HpermToMap),
     (3200266522440553751, DeferredRegister),
     (12566028600487412345, DeferredEvaluate),
     (15463062559264590613, DeferredEvaluateTag),
     (8091749904895009326, DeferredEvaluatePayload),
     (13021247594355482329, DeferredRegisterData),
     (1768618069850226410, TraceEvent)]"

text \<open>The identifier of an event is the canonical value of the element on the stack; every number of the table is below
  the order of the field, so that \<open>from_u64\<close> keeps it.\<close>

definition from_event_id :: "felt \<Rightarrow> system_event option" where
  "from_event_id eid = map_of LOOKUP (as_canonical_u64 eid)"

definition event_index :: "system_event \<Rightarrow> nat" where
  "event_index e =
    (case e of
       MerkleNodeMerge \<Rightarrow> 0 | MerkleNodeToStack \<Rightarrow> 1 | MapValueToStack \<Rightarrow> 2 | MapValueCountToStack \<Rightarrow> 3
     | MapValueToStackN0 \<Rightarrow> 4 | MapValueToStackN4 \<Rightarrow> 5 | MapValueToStackN8 \<Rightarrow> 6 | HasMapKey \<Rightarrow> 7 | Ext2Inv \<Rightarrow> 8
     | U32Clz \<Rightarrow> 9 | U32Ctz \<Rightarrow> 10 | U32Clo \<Rightarrow> 11 | U32Cto \<Rightarrow> 12 | ILog2 \<Rightarrow> 13 | MemToMap \<Rightarrow> 14 | HdwordToMap \<Rightarrow> 15
     | HdwordToMapWithDomain \<Rightarrow> 16 | HqwordToMap \<Rightarrow> 17 | HpermToMap \<Rightarrow> 18 | DeferredRegister \<Rightarrow> 19
     | DeferredEvaluate \<Rightarrow> 20 | DeferredEvaluateTag \<Rightarrow> 21 | DeferredEvaluatePayload \<Rightarrow> 22
     | DeferredRegisterData \<Rightarrow> 23 | TraceEvent \<Rightarrow> 24)"

definition event_id :: "system_event \<Rightarrow> felt" where
  "event_id e = new_unchecked (fst (LOOKUP ! event_index e))"

section \<open>What the handlers call\<close>

record ('p, 'd) observer =
  obs_view :: "'p \<Rightarrow> 'd vm"
  obs_word_safe :: "'p \<Rightarrow> nat \<Rightarrow> qword exec"

definition fast_observer :: "('d fast_processor, 'd) observer" where
  "fast_observer = \<lparr>obs_view = abs_vm, obs_word_safe = stack_get_word_safe\<rparr>"

definition list_word_safe :: "'d vm \<Rightarrow> nat \<Rightarrow> qword exec" where
  "list_word_safe v i =
    (let at = (\<lambda>k. if k < length (stk v) then stk v ! k else 0) in Ok (QWord (at i) (at (i + 1)) (at (i + 2)) (at (i + 3))))"

definition ref_observer :: "('d vm, 'd) observer" where
  "ref_observer = \<lparr>obs_view = (\<lambda>v. v), obs_word_safe = list_word_safe\<rparr>"

text \<open>The host: its callbacks, which may change its own state \<open>'h\<close>; an error of a callback is \<open>None\<close>. The events of
  deferred statements return the advice and the deferred state they leave.\<close>

record ('d, 'h) host =
  get_mast_forest :: "'h \<Rightarrow> qword \<Rightarrow> 'h \<times> mast_forest option"
  on_event :: "'h \<Rightarrow> 'd vm \<Rightarrow> 'h \<times> advice_mutation list option"
  on_trace :: "'h \<Rightarrow> 'd vm \<Rightarrow> 'h \<times> unit option"
  deferred_event :: "system_event \<Rightarrow> 'd vm \<Rightarrow> execution_error + advice \<times> 'd"

definition set_advice ::
    "('d, 'x) sys_state_scheme \<Rightarrow> (advice_error, advice) outcome \<Rightarrow> ('d, 'x) sys_state_scheme exec" where
  "set_advice p r = bindO (map_err AdviceErr r) (\<lambda>a. Ok (p\<lparr>advice_st := a\<rparr>))"

definition contains_map_key :: "advice \<Rightarrow> qword \<Rightarrow> bool" where
  "contains_map_key a key = (fmlookup (adv_map a) key \<noteq> None)"

definition get_mapped_values :: "advice \<Rightarrow> qword \<Rightarrow> felt list option" where
  "get_mapped_values a key = fmlookup (adv_map a) key"

definition check_map_value_allocation :: "advice \<Rightarrow> nat \<Rightarrow> (advice_error, unit) outcome" where
  "check_map_value_allocation a n = bindO (map_entry_bytes n) (check_advice_size_addition a)"

text \<open>Counts of bits of a \<open>u32\<close>, from the bits in descending order.\<close>

definition bits_down :: "u32 \<Rightarrow> bool list" where
  "bits_down w = map (bit w) (rev [0..<32])"

definition leading_zeros :: "u32 \<Rightarrow> nat" where
  "leading_zeros w = length (takeWhile Not (bits_down w))"

definition trailing_zeros :: "u32 \<Rightarrow> nat" where
  "trailing_zeros w = length (takeWhile Not (rev (bits_down w)))"

definition leading_ones :: "u32 \<Rightarrow> nat" where
  "leading_ones w = length (takeWhile id (bits_down w))"

definition trailing_ones :: "u32 \<Rightarrow> nat" where
  "trailing_ones w = length (takeWhile id (rev (bits_down w)))"

text \<open>The inverse of \<open>QuadFelt\<close>: the conjugate over the norm.\<close>

definition quad_inverse :: "quad \<Rightarrow> quad" where
  "quad_inverse q = (let n = inverse (c0 q * c0 q - 7 * (c1 q * c1 q)) in Quad (c0 q * n) (- c1 q * n))"

section \<open>Handlers\<close>

type_synonym ('d, 'x) event_handler = "('d, 'x) sys_state_scheme processor \<Rightarrow> ('d, 'x) sys_state_scheme \<Rightarrow> ('d, 'x) sys_state_scheme exec"

definition insert_mem_values_into_adv_map :: "('d, 'x) event_handler" where
  "insert_mem_values_into_adv_map P p =
    bindO (sget P p 5) (\<lambda>s. let start_addr = as_canonical_u64 s in
    bindO (sget P p 6) (\<lambda>e. let end_addr = as_canonical_u64 e in
    if start_addr > U32_MAX then Err (MemoryErr (AddressOutOfBounds start_addr))
    else if end_addr > U32_MAX then Err (MemoryErr (AddressOutOfBounds end_addr))
    else if start_addr > end_addr then Err (MemoryErr (InvalidMemoryRange start_addr end_addr))
    else
      let addr_range = map word_of_nat [unat start_addr..<unat end_addr] :: u32 list in
      bindO (sget_word P p 1) (\<lambda>key.
      bindO (if contains_map_key (advice_st p) key then Ok ()
             else map_err AdviceErr (check_map_value_allocation (advice_st p) (length addr_range))) (\<lambda>_.
      let values = map (\<lambda>addr. case read_element_impl (memory_st p) (ctx p) addr of Some x \<Rightarrow> x | None \<Rightarrow> 0) addr_range in
      set_advice p (insert_into_map (advice_st p) key values)))))"

definition insert_hdword_into_adv_map :: "'d env \<Rightarrow> felt \<Rightarrow> ('d, 'x) event_handler" where
  "insert_hdword_into_adv_map E domain P p =
    bindO (sget_word P p 1) (\<lambda>a. bindO (sget_word P p 5) (\<lambda>b.
    let key = merge_in_domain (env_perm E) a b domain in
    set_advice p (insert_into_map (advice_st p) key (into_elements a @ into_elements b))))"

definition insert_hqword_into_adv_map ::
    "'d env \<Rightarrow> (('d, 'x) sys_state_scheme, 'd) observer \<Rightarrow> ('d, 'x) event_handler" where
  "insert_hqword_into_adv_map E V P p =
    bindO (sget_word P p 1) (\<lambda>a. bindO (sget_word P p 5) (\<lambda>b. bindO (sget_word P p 9) (\<lambda>c.
    bindO (obs_word_safe V p 13) (\<lambda>d.
    let values = into_elements a @ into_elements b @ into_elements c @ into_elements d in
    set_advice p (insert_into_map (advice_st p) (hash_elements (env_perm E) values) values)))))"

definition insert_hperm_into_adv_map :: "'d env \<Rightarrow> ('d, 'x) event_handler" where
  "insert_hperm_into_adv_map E P p =
    bindO (sget P p 1) (\<lambda>s0. bindO (sget P p 2) (\<lambda>s1. bindO (sget P p 3) (\<lambda>s2. bindO (sget P p 4) (\<lambda>s3.
    bindO (sget P p 5) (\<lambda>s4. bindO (sget P p 6) (\<lambda>s5. bindO (sget P p 7) (\<lambda>s6. bindO (sget P p 8) (\<lambda>s7.
    bindO (sget P p 9) (\<lambda>s8. bindO (sget P p 10) (\<lambda>s9. bindO (sget P p 11) (\<lambda>s10. bindO (sget P p 12) (\<lambda>s11.
    let key = digest_of (env_perm E (QWord s0 s1 s2 s3, QWord s4 s5 s6 s7, QWord s8 s9 s10 s11)) in
    set_advice p (insert_into_map (advice_st p) key [s0, s1, s2, s3, s4, s5, s6, s7])))))))))))))"

definition merge_merkle_nodes :: "'d env \<Rightarrow> ('d, 'x) event_handler" where
  "merge_merkle_nodes E P p =
    bindO (sget_word P p 1) (\<lambda>lhs. bindO (sget_word P p 5) (\<lambda>rhs.
    bindO (with_advice p (advice_merge_roots (env_perm E) (advice_st p) lhs rhs)) (\<lambda>(_, p). Ok p)))"

definition copy_merkle_node_to_adv_stack :: "('d, 'x) event_handler" where
  "copy_merkle_node_to_adv_stack P p =
    bindO (sget P p 1) (\<lambda>depth. bindO (sget P p 2) (\<lambda>index. bindO (sget_word P p 3) (\<lambda>root.
    bindO (map_err AdviceErr (get_tree_node (advice_st p) root depth index)) (\<lambda>node.
    set_advice p (push_stack_word (advice_st p) node)))))"

definition copy_map_value_to_adv_stack :: "bool \<Rightarrow> nat \<Rightarrow> ('d, 'x) event_handler" where
  "copy_map_value_to_adv_stack include_len pad_to P p =
    bindO (sget_word P p 1) (\<lambda>key. set_advice p (push_from_map (advice_st p) key include_len pad_to))"

definition copy_map_value_length_to_adv_stack :: "('d, 'x) event_handler" where
  "copy_map_value_length_to_adv_stack P p =
    bindO (sget_word P p 1) (\<lambda>key.
    case get_mapped_values (advice_st p) key of
      None \<Rightarrow> Err (AdviceErr (MapKeyNotFound key))
    | Some values \<Rightarrow> set_advice p (push_stack (advice_st p) (new_unchecked (word_of_nat (length values)))))"

definition push_key_presence_flag :: "('d, 'x) event_handler" where
  "push_key_presence_flag P p =
    bindO (sget_word P p 1) (\<lambda>map_key.
    set_advice p (push_stack (advice_st p) (of_bool (contains_map_key (advice_st p) map_key))))"

definition push_ext2_inv_result :: "('d, 'x) event_handler" where
  "push_ext2_inv_result P p =
    bindO (sget P p 1) (\<lambda>coef0. bindO (sget P p 2) (\<lambda>coef1.
    let element = Quad coef0 coef1 in
    if element = 0 then Err (OperationErr DivideByZero)
    else
      let result = quad_inverse element in
      bindO (set_advice p (push_stack (advice_st p) (c0 result))) (\<lambda>p.
      set_advice p (push_stack (advice_st p) (c1 result)))))"

definition push_transformed_stack_top :: "(u32 \<Rightarrow> nat) \<Rightarrow> ('d, 'x) event_handler" where
  "push_transformed_stack_top f P p =
    bindO (sget P p 1) (\<lambda>stack_top.
    if as_canonical_u64 stack_top > U32_MAX then Err (OperationErr (NotU32Values [stack_top]))
    else set_advice p (push_stack (advice_st p) (of_nat (f (ucast (as_canonical_u64 stack_top))))))"

definition push_ilog2 :: "('d, 'x) event_handler" where
  "push_ilog2 P p =
    bindO (sget P p 1) (\<lambda>x.
    let n = as_canonical_u64 x in
    if n = 0 then Err (OperationErr LogArgumentZero)
    else set_advice p (push_stack (advice_st p) (of_nat (bit_length (unat n) - 1))))"

definition HDWORD_TO_MAP_WITH_DOMAIN_DOMAIN_OFFSET :: nat where
  "HDWORD_TO_MAP_WITH_DOMAIN_DOMAIN_OFFSET = 9"

definition handle_deferred ::
    "(('d, 'x) sys_state_scheme, 'd) observer \<Rightarrow> ('d, 'h) host \<Rightarrow> system_event \<Rightarrow> ('d, 'x) sys_state_scheme \<Rightarrow> ('d, 'x) sys_state_scheme exec" where
  "handle_deferred V H e p =
    (case deferred_event H e (obs_view V p) of
       Inl err \<Rightarrow> Err err
     | Inr (a, d) \<Rightarrow> Ok (p\<lparr>advice_st := a, deferred_state := d\<rparr>))"

definition handle_system_event ::
    "'d env \<Rightarrow> (('d, 'x) sys_state_scheme, 'd) observer \<Rightarrow> ('d, 'h) host \<Rightarrow> system_event \<Rightarrow> ('d, 'x) event_handler" where
  "handle_system_event E V H e P p =
    (case e of
       MerkleNodeMerge \<Rightarrow> merge_merkle_nodes E P p
     | MerkleNodeToStack \<Rightarrow> copy_merkle_node_to_adv_stack P p
     | MapValueToStack \<Rightarrow> copy_map_value_to_adv_stack False 0 P p
     | MapValueCountToStack \<Rightarrow> copy_map_value_length_to_adv_stack P p
     | MapValueToStackN0 \<Rightarrow> copy_map_value_to_adv_stack True 0 P p
     | MapValueToStackN4 \<Rightarrow> copy_map_value_to_adv_stack True 4 P p
     | MapValueToStackN8 \<Rightarrow> copy_map_value_to_adv_stack True 8 P p
     | HasMapKey \<Rightarrow> push_key_presence_flag P p
     | Ext2Inv \<Rightarrow> push_ext2_inv_result P p
     | U32Clz \<Rightarrow> push_transformed_stack_top leading_zeros P p
     | U32Ctz \<Rightarrow> push_transformed_stack_top trailing_zeros P p
     | U32Clo \<Rightarrow> push_transformed_stack_top leading_ones P p
     | U32Cto \<Rightarrow> push_transformed_stack_top trailing_ones P p
     | ILog2 \<Rightarrow> push_ilog2 P p
     | MemToMap \<Rightarrow> insert_mem_values_into_adv_map P p
     | HdwordToMap \<Rightarrow> insert_hdword_into_adv_map E 0 P p
     | HdwordToMapWithDomain \<Rightarrow>
         bindO (sget P p HDWORD_TO_MAP_WITH_DOMAIN_DOMAIN_OFFSET) (\<lambda>domain. insert_hdword_into_adv_map E domain P p)
     | HqwordToMap \<Rightarrow> insert_hqword_into_adv_map E V P p
     | HpermToMap \<Rightarrow> insert_hperm_into_adv_map E P p
     | TraceEvent \<Rightarrow> Ok p
     | _ \<Rightarrow> handle_deferred V H e p)"

definition apply_host_event_mutations ::
    "('d, 'x) sys_state_scheme \<Rightarrow> felt \<Rightarrow> advice_mutation list option \<Rightarrow> ('d, 'x) sys_state_scheme exec" where
  "apply_host_event_mutations p eid mutations =
    (case mutations of
       None \<Rightarrow> Err (EventErr eid)
     | Some ms \<Rightarrow> set_advice p (apply_mutations (advice_st p) ms))"

definition handle_trace_result ::
    "('d, 'x) sys_state_scheme \<Rightarrow> felt \<Rightarrow> unit option \<Rightarrow> ('d, 'x) sys_state_scheme exec" where
  "handle_trace_result p trace_id r = (case r of Some _ \<Rightarrow> Ok p | None \<Rightarrow> Err (EventErr trace_id))"

definition op_emit ::
    "'d env \<Rightarrow> (('d, 'x) sys_state_scheme, 'd) observer \<Rightarrow> ('d, 'h) host \<Rightarrow> ('d, 'x) sys_state_scheme processor
      \<Rightarrow> 'h \<Rightarrow> ('d, 'x) sys_state_scheme \<Rightarrow> ('h \<times> ('d, 'x) sys_state_scheme) exec" where
  "op_emit E V H P h p =
    bindO (sget P p 0) (\<lambda>eid.
    case from_event_id eid of
      Some TraceEvent \<Rightarrow>
        let (h, r) = on_trace H h (obs_view V p) in
        bindO (sget P p 1) (\<lambda>trace_id. bindO (handle_trace_result p trace_id r) (\<lambda>p. Ok (h, p)))
    | Some e \<Rightarrow> bindO (handle_system_event E V H e P p) (\<lambda>p. Ok (h, p))
    | None \<Rightarrow>
        let (h, r) = on_event H h (obs_view V p) in
        bindO (apply_host_event_mutations p eid r) (\<lambda>p. Ok (h, p)))"

end
