(* ===== verification/Execution.thy ===== *)
theory Execution
  imports Sys_Events
begin

text \<open>
  The execution of a program. A stack of continuations says what is left to do
  (\<open>processor/src/continuation_stack.rs\<close>); one handler per kind of node starts or finishes it
  (\<open>processor/src/execution/\<close>, the handlers without source locations), and each clock cycle ends with a question to a
  stopper (\<open>processor/src/fast/step.rs\<close>). The inner loop \<open>execute_impl\<close> runs until the stack is empty or something
  outside the traits is needed; the outer loop (\<open>processor/src/fast/execution_api.rs\<close>) emits the event or loads the
  forest and goes on. The processor state is any extension of the record of the system state, so the same
  definitions run the fast processor and the machine on lists. Both loops may run forever, so they are partial
  functions whose value \<open>None\<close> means that the loop does not return.
\<close>

section \<open>Continuations\<close>

datatype continuation =
    StartNode node_id
  | FinishJoin node_id
  | FinishSplit node_id
  | FinishLoop node_id
  | FinishCall node_id
  | FinishDyn node_id
  | ResumeBasicBlock node_id nat nat
  | Respan node_id nat
  | FinishBasicBlock node_id
  | EnterForest mast_forest

definition increments_clk :: "continuation \<Rightarrow> bool" where
  "increments_clk k = (case k of EnterForest _ \<Rightarrow> False | _ \<Rightarrow> True)"

text \<open>The state of an execution; the top continuation is the first of the list.\<close>

record 'p exec_state =
  proc :: 'p
  conts :: "continuation list"
  current_forest :: mast_forest

abbreviation push_cont :: "continuation \<Rightarrow> 'p exec_state \<Rightarrow> 'p exec_state" where
  "push_cont k s \<equiv> s\<lparr>conts := k # conts s\<rparr>"

text \<open>How a handler ends, errors apart: the cycle is over, or the loop is left for one of four reasons.\<close>

datatype 's flow =
    Continue 's
  | Stopped "continuation option" 's
  | EmitBreak continuation 's
  | LoadMastForestFromDyn qword 's
  | LoadMastForestFromExternal node_id qword 's

definition bind_flow :: "'s flow exec \<Rightarrow> ('s \<Rightarrow> 's flow exec) \<Rightarrow> 's flow exec" where
  "bind_flow m f = bindO m (\<lambda>r. case r of Continue s \<Rightarrow> f s | _ \<Rightarrow> Ok r)"

section \<open>Stoppers\<close>

text \<open>A stopper answers \<open>None\<close> to go on. It receives the continuation to resume with as a computation, since the
  source passes a closure.\<close>

type_synonym 'p stopper = "'p \<Rightarrow> continuation list \<Rightarrow> continuation option exec \<Rightarrow> continuation option option exec"

definition check_if_max_cycles_exceeded :: "('d, 'x) sys_state_scheme \<Rightarrow> unit exec" where
  "check_if_max_cycles_exceeded p =
    (if clk p > max_cycles (options p) then Err (CycleLimitExceeded (max_cycles (options p))) else Ok ())"

definition check_if_continuation_stack_too_large :: "('d, 'x) sys_state_scheme \<Rightarrow> continuation list \<Rightarrow> unit exec" where
  "check_if_continuation_stack_too_large p cs =
    (if length cs > max_num_continuations (options p)
     then Err (Internal ''continuation stack size exceeded the allowed maximum'') else Ok ())"

definition never_stopper :: "('d, 'x) sys_state_scheme stopper" where
  "never_stopper p cs k =
    bindO (check_if_max_cycles_exceeded p) (\<lambda>_. bindO (check_if_continuation_stack_too_large p cs) (\<lambda>_. Ok None))"

definition step_stopper :: "('d, 'x) sys_state_scheme stopper" where
  "step_stopper p cs k =
    bindO (check_if_max_cycles_exceeded p) (\<lambda>_. bindO (check_if_continuation_stack_too_large p cs) (\<lambda>_.
      bindO k (\<lambda>k. Ok (Some k))))"

definition finalize_clock_cycle_with_continuation ::
    "'p processor \<Rightarrow> 'p stopper \<Rightarrow> continuation option exec \<Rightarrow> 'p exec_state \<Rightarrow> 'p exec_state flow exec" where
  "finalize_clock_cycle_with_continuation P stp k s =
    (let s = s\<lparr>proc := sys_increment_clock (system P) (proc s)\<rparr> in
     bindO (stp (proc s) (conts s) k) (\<lambda>r.
       case r of None \<Rightarrow> Ok (Continue s) | Some k \<Rightarrow> Ok (Stopped k s)))"

definition finalize_clock_cycle :: "'p processor \<Rightarrow> 'p stopper \<Rightarrow> 'p exec_state \<Rightarrow> 'p exec_state flow exec" where
  "finalize_clock_cycle P stp = finalize_clock_cycle_with_continuation P stp (Ok None)"

definition get_next_ctx_id :: "'p processor \<Rightarrow> 'p \<Rightarrow> context_id" where
  "get_next_ctx_id P p = sys_clock (system P) p + 1"

definition FMP_INIT_VALUE :: felt where
  "FMP_INIT_VALUE = new_unchecked (2 ^ 31)"

definition FMP_ADDR :: felt where
  "FMP_ADDR = new_unchecked (0xFFFFFFFF - 1)"

definition option_map_break_reason :: "'a option \<Rightarrow> string \<Rightarrow> 'a exec" where
  "option_map_break_reason x msg = (case x of Some y \<Rightarrow> Ok y | None \<Rightarrow> Err (Internal msg))"

section \<open>Join, split and loop\<close>

definition start_join_node ::
    "'p processor \<Rightarrow> 'p stopper \<Rightarrow> join_node \<Rightarrow> node_id \<Rightarrow> 'p exec_state \<Rightarrow> 'p exec_state flow exec" where
  "start_join_node P stp j n s =
    finalize_clock_cycle P stp
      (push_cont (StartNode (jn_first j)) (push_cont (StartNode (jn_second j)) (push_cont (FinishJoin n) s)))"

definition finish_join_node :: "'p processor \<Rightarrow> 'p stopper \<Rightarrow> 'p exec_state \<Rightarrow> 'p exec_state flow exec" where
  "finish_join_node P stp s = finalize_clock_cycle_with_continuation P stp (Ok None) s"

definition start_split_node ::
    "'p processor \<Rightarrow> 'p stopper \<Rightarrow> split_node \<Rightarrow> node_id \<Rightarrow> 'p exec_state \<Rightarrow> 'p exec_state flow exec" where
  "start_split_node P stp sn n s =
    bindO (sget P (proc s) 0) (\<lambda>condition.
    bindO (sdec P (proc s)) (\<lambda>p. let s = s\<lparr>proc := p\<rparr> in
    if condition = 1 then finalize_clock_cycle P stp (push_cont (StartNode (on_true sn)) (push_cont (FinishSplit n) s))
    else if condition = 0 then finalize_clock_cycle P stp (push_cont (StartNode (on_false sn)) (push_cont (FinishSplit n) s))
    else Err (OperationErr (NotBinaryValue CtxIf condition))))"

definition finish_split_node :: "'p processor \<Rightarrow> 'p stopper \<Rightarrow> 'p exec_state \<Rightarrow> 'p exec_state flow exec" where
  "finish_split_node P stp s = finalize_clock_cycle_with_continuation P stp (Ok None) s"

definition start_loop_node ::
    "'p processor \<Rightarrow> 'p stopper \<Rightarrow> loop_node \<Rightarrow> node_id \<Rightarrow> 'p exec_state \<Rightarrow> 'p exec_state flow exec" where
  "start_loop_node P stp l n s = finalize_clock_cycle P stp (push_cont (StartNode (ln_body l)) (push_cont (FinishLoop n) s))"

definition unwrap_loop :: "mast_node \<Rightarrow> loop_node exec" where
  "unwrap_loop node = (case node of Loop l \<Rightarrow> Ok l | _ \<Rightarrow> Panic)"

definition finish_loop_node :: "'p processor \<Rightarrow> 'p stopper \<Rightarrow> node_id \<Rightarrow> 'p exec_state \<Rightarrow> 'p exec_state flow exec" where
  "finish_loop_node P stp n s =
    bindO (sget P (proc s) 0) (\<lambda>condition.
    bindO (option_map_break_reason (get_node_by_id (current_forest s) n) ''loop node not found in current forest'') (\<lambda>node.
    bindO (unwrap_loop node) (\<lambda>l.
    if condition = 1 then
      bindO (sdec P (proc s)) (\<lambda>p. let s = s\<lparr>proc := p\<rparr> in
        finalize_clock_cycle P stp (push_cont (StartNode (ln_body l)) (push_cont (FinishLoop n) s)))
    else if condition = 0 then
      bindO (sdec P (proc s)) (\<lambda>p. finalize_clock_cycle_with_continuation P stp (Ok None) (s\<lparr>proc := p\<rparr>))
    else Err (OperationErr (NotBinaryValue CtxLoop condition)))))"

section \<open>Calls\<close>

definition enter_context :: "'p processor \<Rightarrow> qword \<Rightarrow> context_id \<Rightarrow> 'p \<Rightarrow> 'p exec" where
  "enter_context P callee_hash new_ctx p =
    (let p = sys_set_ctx (system P) p new_ctx; p = sys_set_caller_hash (system P) p callee_hash in
     mem_write_element (memory P) p new_ctx FMP_ADDR FMP_INIT_VALUE)"

definition start_call_node ::
    "'p processor \<Rightarrow> 'p stopper \<Rightarrow> kernel \<Rightarrow> call_node \<Rightarrow> node_id \<Rightarrow> 'p exec_state \<Rightarrow> 'p exec_state flow exec" where
  "start_call_node P stp K c n s =
    bindO (stk_start_context (stack P) (proc s)) (\<lambda>p.
    let p = sys_save_call_state (system P) p in
    bindO (option_map_break_reason (get_digest_by_id (current_forest s) (callee c))
        ''callee node not found in current forest'') (\<lambda>callee_hash.
    bindO (if is_syscall c then
             if \<not> contains_proc K callee_hash then Err (OperationErr (SyscallTargetNotInKernel callee_hash))
             else Ok (sys_set_ctx (system P) p 0)
           else enter_context P callee_hash (get_next_ctx_id P p) p) (\<lambda>p.
      finalize_clock_cycle P stp (push_cont (StartNode (callee c)) (push_cont (FinishCall n) (s\<lparr>proc := p\<rparr>))))))"

definition leave_context :: "'p processor \<Rightarrow> 'p \<Rightarrow> 'p exec" where
  "leave_context P p = bindO (stk_restore_context (stack P) p) (sys_restore_call_state (system P))"

definition finish_call_node :: "'p processor \<Rightarrow> 'p stopper \<Rightarrow> 'p exec_state \<Rightarrow> 'p exec_state flow exec" where
  "finish_call_node P stp s =
    bindO (leave_context P (proc s)) (\<lambda>p.
      finalize_clock_cycle_with_continuation P stp (Ok None) (s\<lparr>proc := p\<rparr>))"

section \<open>Dynamic calls\<close>

definition unwrap_dyn :: "mast_node \<Rightarrow> dyn_node exec" where
  "unwrap_dyn node = (case node of Dyn d \<Rightarrow> Ok d | _ \<Rightarrow> Panic)"

definition start_dyn_node :: "'p processor \<Rightarrow> 'p stopper \<Rightarrow> node_id \<Rightarrow> 'p exec_state \<Rightarrow> 'p exec_state flow exec" where
  "start_dyn_node P stp n s =
    bindO (option_map_break_reason (get_node_by_id (current_forest s) n) ''dyn node not found in current forest'') (\<lambda>node.
    bindO (unwrap_dyn node) (\<lambda>d.
    let p = proc s in let read_ctx = sys_ctx (system P) p in let clk = sys_clock (system P) p in
    bindO (sget P p 0) (\<lambda>mem_addr.
    bindO (mem_read_word (memory P) p read_ctx mem_addr clk) (\<lambda>callee_hash.
    bindO (sdec P p) (\<lambda>p.
    bindO (if is_dyncall d then
             let new_ctx = get_next_ctx_id P p in
             bindO (stk_start_context (stack P) p) (\<lambda>p.
             enter_context P callee_hash new_ctx (sys_save_call_state (system P) p))
           else Ok p) (\<lambda>p.
    let s = push_cont (FinishDyn n) (s\<lparr>proc := p\<rparr>) in
    bindO (find_procedure_root (current_forest s) callee_hash) (\<lambda>r.
    case r of
      Some callee_id \<Rightarrow> finalize_clock_cycle P stp (push_cont (StartNode callee_id) s)
    | None \<Rightarrow> Ok (LoadMastForestFromDyn callee_hash s))))))))"

definition finish_load_mast_forest_from_dyn_start ::
    "'p processor \<Rightarrow> 'p stopper \<Rightarrow> node_id \<Rightarrow> mast_forest \<Rightarrow> 'p exec_state \<Rightarrow> 'p exec_state flow exec" where
  "finish_load_mast_forest_from_dyn_start P stp root_id new_forest s =
    finalize_clock_cycle P stp
      ((push_cont (StartNode root_id) (push_cont (EnterForest (current_forest s)) s))\<lparr>current_forest := new_forest\<rparr>)"

definition finish_dyn_node :: "'p processor \<Rightarrow> 'p stopper \<Rightarrow> node_id \<Rightarrow> 'p exec_state \<Rightarrow> 'p exec_state flow exec" where
  "finish_dyn_node P stp n s =
    bindO (option_map_break_reason (get_node_by_id (current_forest s) n) ''dyn node not found in current forest'') (\<lambda>node.
    bindO (unwrap_dyn node) (\<lambda>d.
    bindO (if is_dyncall d then leave_context P (proc s) else Ok (proc s)) (\<lambda>p.
      finalize_clock_cycle_with_continuation P stp (Ok None) (s\<lparr>proc := p\<rparr>))))"

section \<open>External nodes\<close>

definition unwrap_external :: "mast_node \<Rightarrow> external_node exec" where
  "unwrap_external node = (case node of External e \<Rightarrow> Ok e | _ \<Rightarrow> Panic)"

definition execute_external_node :: "node_id \<Rightarrow> 'p exec_state \<Rightarrow> 'p exec_state flow exec" where
  "execute_external_node n s =
    bindO (option_map_break_reason (get_node_by_id (current_forest s) n) ''external node not found in current forest'') (\<lambda>node.
    bindO (unwrap_external node) (\<lambda>e. Ok (LoadMastForestFromExternal n (en_digest e) s)))"

definition finish_load_mast_forest_from_external ::
    "node_id \<Rightarrow> mast_forest \<Rightarrow> node_id \<Rightarrow> 'p exec_state \<Rightarrow> 'p exec_state flow exec" where
  "finish_load_mast_forest_from_external resolved new_forest n s =
    bindO (option_map_break_reason (get_node_by_id (current_forest s) n) ''external node not found in current forest'') (\<lambda>node.
    bindO (unwrap_external node) (\<lambda>e.
    bindO (option_map_break_reason (get_node_by_id new_forest resolved) ''resolved node not found in new mast forest'') (\<lambda>target.
    if is_external target then Err (OperationErr (CircularExternalNode (en_digest e)))
    else Ok (Continue
      ((push_cont (StartNode resolved) (push_cont (EnterForest (current_forest s)) s))\<lparr>current_forest := new_forest\<rparr>)))))"

section \<open>Basic blocks\<close>

definition get_continuation_after_executing_operation ::
    "basic_block_node \<Rightarrow> node_id \<Rightarrow> nat \<Rightarrow> nat \<Rightarrow> continuation exec" where
  "get_continuation_after_executing_operation b n batch_index op_idx =
    bindO (fetch (op_batches b) batch_index) (\<lambda>batch.
    bindO (usub (length (ob_ops batch)) 1) (\<lambda>last_op.
    bindO (usub (length (op_batches b)) 1) (\<lambda>last_batch.
      Ok (if op_idx < last_op then ResumeBasicBlock n batch_index (op_idx + 1)
          else if batch_index < last_batch then Respan n (batch_index + 1)
          else FinishBasicBlock n))))"

fun execute_ops ::
    "'p processor \<Rightarrow> 'p stopper \<Rightarrow> basic_block_node \<Rightarrow> node_id \<Rightarrow> nat \<Rightarrow> nat \<Rightarrow> operation list
      \<Rightarrow> 'p exec_state \<Rightarrow> 'p exec_state flow exec" where
  "execute_ops P stp b n batch_index i [] s = Ok (Continue s)"
| "execute_ops P stp b n batch_index i (op # ops) s =
    (if op = Emit
     then bindO (get_continuation_after_executing_operation b n batch_index i) (\<lambda>k. Ok (EmitBreak k s))
     else
       bindO (execute_op P op (proc s)) (\<lambda>(_, p).
       bind_flow
         (finalize_clock_cycle_with_continuation P stp
           (bindO (get_continuation_after_executing_operation b n batch_index i) (\<lambda>k. Ok (Some k))) (s\<lparr>proc := p\<rparr>))
         (execute_ops P stp b n batch_index (Suc i) ops)))"

definition execute_op_batch ::
    "'p processor \<Rightarrow> 'p stopper \<Rightarrow> basic_block_node \<Rightarrow> node_id \<Rightarrow> nat \<Rightarrow> nat \<Rightarrow> 'p exec_state \<Rightarrow> 'p exec_state flow exec" where
  "execute_op_batch P stp b n batch_index start_op_idx s =
    bindO (fetch (op_batches b) batch_index) (\<lambda>batch.
      execute_ops P stp b n batch_index start_op_idx (drop start_op_idx (ob_ops batch)) s)"

definition finish_basic_block :: "'p processor \<Rightarrow> 'p stopper \<Rightarrow> 'p exec_state \<Rightarrow> 'p exec_state flow exec" where
  "finish_basic_block P stp s = finalize_clock_cycle_with_continuation P stp (Ok None) s"

fun execute_batches ::
    "'p processor \<Rightarrow> 'p stopper \<Rightarrow> basic_block_node \<Rightarrow> node_id \<Rightarrow> nat list \<Rightarrow> 'p exec_state \<Rightarrow> 'p exec_state flow exec" where
  "execute_batches P stp b n [] s = Ok (Continue s)"
| "execute_batches P stp b n (batch_index # rest) s =
    bind_flow (finalize_clock_cycle_with_continuation P stp (Ok (Some (ResumeBasicBlock n batch_index 0))) s) (\<lambda>s.
    bind_flow (execute_op_batch P stp b n batch_index 0 s)
      (execute_batches P stp b n rest))"

definition execute_basic_block_node_from_batch ::
    "'p processor \<Rightarrow> 'p stopper \<Rightarrow> basic_block_node \<Rightarrow> node_id \<Rightarrow> nat \<Rightarrow> 'p exec_state \<Rightarrow> 'p exec_state flow exec" where
  "execute_basic_block_node_from_batch P stp b n start_batch_index s =
    bind_flow (execute_batches P stp b n [start_batch_index..<length (op_batches b)] s) (finish_basic_block P stp)"

definition execute_basic_block_node_from_op_idx ::
    "'p processor \<Rightarrow> 'p stopper \<Rightarrow> basic_block_node \<Rightarrow> node_id \<Rightarrow> nat \<Rightarrow> nat \<Rightarrow> 'p exec_state \<Rightarrow> 'p exec_state flow exec" where
  "execute_basic_block_node_from_op_idx P stp b n start_batch_index start_op_idx s =
    bind_flow (execute_op_batch P stp b n start_batch_index start_op_idx s)
      (execute_basic_block_node_from_batch P stp b n (start_batch_index + 1))"

definition execute_basic_block_node_from_start ::
    "'p processor \<Rightarrow> 'p stopper \<Rightarrow> basic_block_node \<Rightarrow> node_id \<Rightarrow> 'p exec_state \<Rightarrow> 'p exec_state flow exec" where
  "execute_basic_block_node_from_start P stp b n s =
    bind_flow (finalize_clock_cycle_with_continuation P stp (Ok (Some (ResumeBasicBlock n 0 0))) s) (\<lambda>s.
    bind_flow (if op_batches b \<noteq> [] then execute_op_batch P stp b n 0 0 s else Ok (Continue s))
      (execute_basic_block_node_from_batch P stp b n 1))"

definition finish_emit_op_execution ::
    "'p processor \<Rightarrow> 'p stopper \<Rightarrow> continuation \<Rightarrow> 'p exec_state \<Rightarrow> 'p exec_state flow exec" where
  "finish_emit_op_execution P stp k s =
    bind_flow (finalize_clock_cycle_with_continuation P stp (Ok (Some k)) s) (\<lambda>s. Ok (Continue (push_cont k s)))"

section \<open>The inner loop\<close>

definition unwrap_basic_block :: "mast_node \<Rightarrow> basic_block_node exec" where
  "unwrap_basic_block node = (case node of Block b \<Rightarrow> Ok b | _ \<Rightarrow> Panic)"

definition unwrap_node :: "mast_forest \<Rightarrow> node_id \<Rightarrow> mast_node exec" where
  "unwrap_node f n = (case get_node_by_id f n of Some node \<Rightarrow> Ok node | None \<Rightarrow> Panic)"

definition start_node ::
    "'p processor \<Rightarrow> 'p stopper \<Rightarrow> kernel \<Rightarrow> node_id \<Rightarrow> 'p exec_state \<Rightarrow> 'p exec_state flow exec" where
  "start_node P stp K n s =
    bindO (unwrap_node (current_forest s) n) (\<lambda>node.
    case node of
      Block b \<Rightarrow> execute_basic_block_node_from_start P stp b n s
    | Join j \<Rightarrow> start_join_node P stp j n s
    | Split sn \<Rightarrow> start_split_node P stp sn n s
    | Loop l \<Rightarrow> start_loop_node P stp l n s
    | Call c \<Rightarrow> start_call_node P stp K c n s
    | Dyn _ \<Rightarrow> start_dyn_node P stp n s
    | External _ \<Rightarrow> execute_external_node n s)"

definition execute_continuation ::
    "'p processor \<Rightarrow> 'p stopper \<Rightarrow> kernel \<Rightarrow> continuation \<Rightarrow> 'p exec_state \<Rightarrow> 'p exec_state flow exec" where
  "execute_continuation P stp K k s =
    (case k of
       StartNode n \<Rightarrow> start_node P stp K n s
     | FinishJoin n \<Rightarrow> finish_join_node P stp s
     | FinishSplit n \<Rightarrow> finish_split_node P stp s
     | FinishLoop n \<Rightarrow> finish_loop_node P stp n s
     | FinishCall n \<Rightarrow> finish_call_node P stp s
     | FinishDyn n \<Rightarrow> finish_dyn_node P stp n s
     | ResumeBasicBlock n batch_index op_idx \<Rightarrow>
         bindO (unwrap_node (current_forest s) n) (\<lambda>node. bindO (unwrap_basic_block node) (\<lambda>b.
           execute_basic_block_node_from_op_idx P stp b n batch_index op_idx s))
     | Respan n batch_index \<Rightarrow>
         bindO (unwrap_node (current_forest s) n) (\<lambda>node. bindO (unwrap_basic_block node) (\<lambda>b.
           execute_basic_block_node_from_batch P stp b n batch_index s))
     | FinishBasicBlock n \<Rightarrow> finish_basic_block P stp s
     | EnterForest f \<Rightarrow> Ok (Continue (s\<lparr>current_forest := f\<rparr>)))"

partial_function (option) execute_impl ::
    "'p processor \<Rightarrow> 'p stopper \<Rightarrow> kernel \<Rightarrow> 'p exec_state \<Rightarrow> 'p exec_state flow exec option" where
  "execute_impl P stp K s =
    (case conts s of
       [] \<Rightarrow> Some (Ok (Continue s))
     | k # ks \<Rightarrow>
         (case execute_continuation P stp K k (s\<lparr>conts := ks\<rparr>) of
            Ok (Continue s) \<Rightarrow> execute_impl P stp K s
          | r \<Rightarrow> Some r))"

section \<open>The outer loop\<close>

definition load_mast_forest ::
    "('d, 'h) host \<Rightarrow> qword \<Rightarrow> 'h \<Rightarrow> ('d, 'x) sys_state_scheme
      \<Rightarrow> ('h \<times> ('d, 'x) sys_state_scheme \<times> node_id \<times> mast_forest) exec" where
  "load_mast_forest H digest h p =
    (let (h, loaded) = get_mast_forest H h digest in
     case loaded of
       None \<Rightarrow> Err (ProcedureNotFound digest)
     | Some forest \<Rightarrow>
         bindO (find_procedure_root forest digest) (\<lambda>r.
         case r of
           None \<Rightarrow> Err (OperationErr (MalformedMastForestInHost digest))
         | Some root_id \<Rightarrow>
             bindO (set_advice p (extend_map (advice_st p) (mf_advice_map forest))) (\<lambda>p. Ok (h, p, root_id, forest))))"

text \<open>\<open>StackOutputs::new\<close> on the elements of the stack from the top.\<close>

definition stack_outputs :: "felt list \<Rightarrow> felt list option" where
  "stack_outputs values =
    (if length values > MIN_STACK_DEPTH then None else Some (values @ replicate (MIN_STACK_DEPTH - length values) 0))"

text \<open>What the outer loop does when the inner one was left. The finishing handlers continue or stop, nothing else.\<close>

definition handle_break ::
    "'d env \<Rightarrow> (('d, 'x) sys_state_scheme, 'd) observer \<Rightarrow> ('d, 'h) host \<Rightarrow> ('d, 'x) sys_state_scheme processor
      \<Rightarrow> ('d, 'x) sys_state_scheme stopper \<Rightarrow> 'h \<Rightarrow> ('d, 'x) sys_state_scheme exec_state flow
      \<Rightarrow> ('h \<times> ('d, 'x) sys_state_scheme exec_state flow) exec" where
  "handle_break E V H P stp h r =
    (case r of
       EmitBreak k s \<Rightarrow>
         bindO (op_emit E V H P h (proc s)) (\<lambda>(h, p).
         bindO (finish_emit_op_execution P stp k (s\<lparr>proc := p\<rparr>)) (\<lambda>r. Ok (h, r)))
     | LoadMastForestFromDyn callee_hash s \<Rightarrow>
         bindO (load_mast_forest H callee_hash h (proc s)) (\<lambda>(h, p, root_id, forest).
         bindO (finish_load_mast_forest_from_dyn_start P stp root_id forest (s\<lparr>proc := p\<rparr>)) (\<lambda>r. Ok (h, r)))
     | LoadMastForestFromExternal n procedure_hash s \<Rightarrow>
         bindO (load_mast_forest H procedure_hash h (proc s)) (\<lambda>(h, p, root_id, forest).
         bindO (finish_load_mast_forest_from_external root_id forest n (s\<lparr>proc := p\<rparr>)) (\<lambda>r. Ok (h, r)))
     | _ \<Rightarrow> Ok (h, r))"

datatype run_end = Outputs "felt list" | StoppedAt "continuation option"

definition final_outputs ::
    "('p, 'd) observer \<Rightarrow> 'h \<Rightarrow> 'p exec_state \<Rightarrow> ('h \<times> 'p exec_state \<times> run_end) exec" where
  "final_outputs V h s =
    (let values = stk (obs_view V (proc s)) in
     case stack_outputs values of
       Some out \<Rightarrow> Ok (h, s, Outputs out)
     | None \<Rightarrow> Err (OutputStackOverflow (length values - MIN_STACK_DEPTH)))"

partial_function (option) run_impl ::
    "'d env \<Rightarrow> (('d, 'x) sys_state_scheme, 'd) observer \<Rightarrow> ('d, 'h) host \<Rightarrow> ('d, 'x) sys_state_scheme processor
      \<Rightarrow> ('d, 'x) sys_state_scheme stopper \<Rightarrow> kernel \<Rightarrow> 'h \<Rightarrow> ('d, 'x) sys_state_scheme exec_state
      \<Rightarrow> ('h \<times> ('d, 'x) sys_state_scheme exec_state \<times> run_end) exec option" where
  "run_impl E V H P stp K h s =
    (case execute_impl P stp K s of
       None \<Rightarrow> None
     | Some r \<Rightarrow>
         (case r of
            Err e \<Rightarrow> Some (Err e)
          | Panic \<Rightarrow> Some Panic
          | Ok (Continue s) \<Rightarrow> Some (final_outputs V h s)
          | Ok (Stopped k s) \<Rightarrow> Some (Ok (h, s, StoppedAt k))
          | Ok r \<Rightarrow>
              (case handle_break E V H P stp h r of
                 Ok (h, Continue s) \<Rightarrow> run_impl E V H P stp K h s
               | Ok (h, Stopped k s) \<Rightarrow> Some (Ok (h, s, StoppedAt k))
               | Err e \<Rightarrow> Some (Err e)
               | _ \<Rightarrow> Some Panic)))"

section \<open>Running a program\<close>

record program =
  pr_forest :: mast_forest
  pr_entrypoint :: node_id
  pr_kernel :: kernel

definition with_kernel :: "mast_forest \<Rightarrow> node_id \<Rightarrow> kernel \<Rightarrow> ('e, program) outcome" where
  "with_kernel forest entrypoint K =
    bindO (assertO (get_node_by_id forest entrypoint \<noteq> None)) (\<lambda>_.
    bindO (assertO (entrypoint \<in> set (mf_roots forest))) (\<lambda>_.
      Ok \<lparr>pr_forest = forest, pr_entrypoint = entrypoint, pr_kernel = K\<rparr>))"

definition get_initial_resume_context ::
    "program \<Rightarrow> ('d, 'x) sys_state_scheme \<Rightarrow> ('d, 'x) sys_state_scheme exec_state exec" where
  "get_initial_resume_context prog p =
    bindO (set_advice p (extend_map (advice_st p) (mf_advice_map (pr_forest prog)))) (\<lambda>p.
      Ok \<lparr>proc = p, conts = [StartNode (pr_entrypoint prog)], current_forest = pr_forest prog\<rparr>)"

text \<open>\<open>execute_sync\<close>: the host, the state and the outputs at the end.\<close>

definition execute_sync ::
    "'d env \<Rightarrow> (('d, 'x) sys_state_scheme, 'd) observer \<Rightarrow> ('d, 'h) host \<Rightarrow> ('d, 'x) sys_state_scheme processor
      \<Rightarrow> program \<Rightarrow> 'h \<Rightarrow> ('d, 'x) sys_state_scheme
      \<Rightarrow> ('h \<times> ('d, 'x) sys_state_scheme exec_state \<times> run_end) exec option" where
  "execute_sync E V H P prog h p =
    (case get_initial_resume_context prog p of
       Ok s \<Rightarrow> run_impl E V H P never_stopper (pr_kernel prog) h s
     | Err e \<Rightarrow> Some (Err e)
     | Panic \<Rightarrow> Some Panic)"

section \<open>Stepping\<close>

fun leave_forests :: "continuation list \<Rightarrow> mast_forest \<Rightarrow> continuation list \<times> mast_forest" where
  "leave_forests (EnterForest f # ks) _ = leave_forests ks f"
| "leave_forests ks f = (ks, f)"

definition resume_context :: "continuation option \<Rightarrow> 'p exec_state \<Rightarrow> 'p exec_state" where
  "resume_context maybe_continuation s =
    (let s = (case maybe_continuation of Some k \<Rightarrow> push_cont k s | None \<Rightarrow> s);
         (ks, f) = leave_forests (conts s) (current_forest s) in
     s\<lparr>conts := ks, current_forest := f\<rparr>)"

text \<open>\<open>step_sync\<close> returns whether there is a context to resume from.\<close>

definition step_sync ::
    "'d env \<Rightarrow> (('d, 'x) sys_state_scheme, 'd) observer \<Rightarrow> ('d, 'h) host \<Rightarrow> ('d, 'x) sys_state_scheme processor
      \<Rightarrow> kernel \<Rightarrow> 'h \<Rightarrow> ('d, 'x) sys_state_scheme exec_state
      \<Rightarrow> ('h \<times> ('d, 'x) sys_state_scheme exec_state \<times> bool) exec option" where
  "step_sync E V H P K h s =
    (case run_impl E V H P step_stopper K h s of
       None \<Rightarrow> None
     | Some r \<Rightarrow> Some (bindO r (\<lambda>(h, s, e).
         case e of
           Outputs _ \<Rightarrow> Ok (h, s, False)
         | StoppedAt k \<Rightarrow> Ok (h, resume_context k s, True))))"

definition current_stack_outputs :: "('p, 'd) observer \<Rightarrow> 'p \<Rightarrow> felt list exec" where
  "current_stack_outputs V p = (case stack_outputs (stk (obs_view V p)) of Some out \<Rightarrow> Ok out | None \<Rightarrow> Panic)"

partial_function (option) step_loop ::
    "'d env \<Rightarrow> (('d, 'x) sys_state_scheme, 'd) observer \<Rightarrow> ('d, 'h) host \<Rightarrow> ('d, 'x) sys_state_scheme processor
      \<Rightarrow> kernel \<Rightarrow> 'h \<Rightarrow> ('d, 'x) sys_state_scheme exec_state
      \<Rightarrow> ('h \<times> ('d, 'x) sys_state_scheme exec_state \<times> felt list) exec option" where
  "step_loop E V H P K h s =
    (case step_sync E V H P K h s of
       None \<Rightarrow> None
     | Some r \<Rightarrow>
         (case r of
            Ok (h, s, again) \<Rightarrow>
              if again then step_loop E V H P K h s
              else Some (bindO (current_stack_outputs V (proc s)) (\<lambda>out. Ok (h, s, out)))
          | Err e \<Rightarrow> Some (Err e)
          | Panic \<Rightarrow> Some Panic))"

definition execute_by_step_sync ::
    "'d env \<Rightarrow> (('d, 'x) sys_state_scheme, 'd) observer \<Rightarrow> ('d, 'h) host \<Rightarrow> ('d, 'x) sys_state_scheme processor
      \<Rightarrow> program \<Rightarrow> 'h \<Rightarrow> ('d, 'x) sys_state_scheme
      \<Rightarrow> ('h \<times> ('d, 'x) sys_state_scheme exec_state \<times> felt list) exec option" where
  "execute_by_step_sync E V H P prog h p =
    (case get_initial_resume_context prog p of
       Ok s \<Rightarrow> step_loop E V H P (pr_kernel prog) h s
     | Err e \<Rightarrow> Some (Err e)
     | Panic \<Rightarrow> Some Panic)"

end
