(* ===== verification/Exec_Sim.thy ===== *)
theory Exec_Sim
  imports Execution
begin

text \<open>
  Programs on two machines. A forest is well-formed when every child and every root is a node of it and every block has
  a batch; an execution is when each pending continuation fits the node it names, in the forest that will be current
  when it is reached. From related processors a handler does the same on both machines: it never panics, fails with
  the same error or ends the same way, and leaves a well-formed execution. The stopper is one more contract, on top
  of the contract of the processors.
\<close>

section \<open>Well-formed executions\<close>

definition wf_node :: "nat \<Rightarrow> mast_node \<Rightarrow> bool" where
  "wf_node n node \<longleftrightarrow>
    list_all (\<lambda>c. c < n) (node_children node) \<and> (case node of Block b \<Rightarrow> op_batches b \<noteq> [] | _ \<Rightarrow> True)"

definition wf_forest :: "mast_forest \<Rightarrow> bool" where
  "wf_forest f \<longleftrightarrow>
    list_all (wf_node (length (mf_nodes f))) (mf_nodes f) \<and> list_all (\<lambda>r. r < length (mf_nodes f)) (mf_roots f)"

fun ok_cont :: "mast_forest \<Rightarrow> continuation \<Rightarrow> bool" where
  "ok_cont f (StartNode n) = (n < length (mf_nodes f))"
| "ok_cont f (FinishLoop n) = (case get_node_by_id f n of Some (Loop _) \<Rightarrow> True | _ \<Rightarrow> False)"
| "ok_cont f (FinishDyn n) = (case get_node_by_id f n of Some (Dyn _) \<Rightarrow> True | _ \<Rightarrow> False)"
| "ok_cont f (ResumeBasicBlock n i j) =
    (case get_node_by_id f n of Some (Block b) \<Rightarrow> i < length (op_batches b) | _ \<Rightarrow> False)"
| "ok_cont f (Respan n i) = (case get_node_by_id f n of Some (Block b) \<Rightarrow> True | _ \<Rightarrow> False)"
| "ok_cont f (EnterForest g) = wf_forest g"
| "ok_cont f _ = True"

definition forest_after :: "mast_forest \<Rightarrow> continuation \<Rightarrow> mast_forest" where
  "forest_after f k = (case k of EnterForest g \<Rightarrow> g | _ \<Rightarrow> f)"

lemma forest_after_simps [simp]:
  "forest_after f (EnterForest g) = g"
  "increments_clk k \<Longrightarrow> forest_after f k = f"
  by (auto simp: forest_after_def increments_clk_def split: continuation.splits)

lemma increments_clk_simps [simp]:
  "increments_clk (StartNode n)" "increments_clk (FinishJoin n)" "increments_clk (FinishSplit n)"
  "increments_clk (FinishLoop n)" "increments_clk (FinishCall n)" "increments_clk (FinishDyn n)"
  "increments_clk (ResumeBasicBlock n i j)" "increments_clk (Respan n i)" "increments_clk (FinishBasicBlock n)"
  "\<not> increments_clk (EnterForest f)"
  by (simp_all add: increments_clk_def)

fun wf_conts :: "mast_forest \<Rightarrow> continuation list \<Rightarrow> bool" where
  "wf_conts f [] = True"
| "wf_conts f (k # ks) \<longleftrightarrow> ok_cont f k \<and> wf_conts (forest_after f k) ks"

definition wf_exec :: "'p exec_state \<Rightarrow> bool" where
  "wf_exec s \<longleftrightarrow> wf_forest (current_forest s) \<and> wf_conts (current_forest s) (conts s)"

lemma get_node_by_id_Some: "get_node_by_id f n = Some node \<longleftrightarrow> n < length (mf_nodes f) \<and> node = mf_nodes f ! n"
  by (auto simp: get_node_by_id_def)

lemma wf_forestD:
  assumes "wf_forest f" "get_node_by_id f n = Some node"
  shows "c \<in> set (node_children node) \<Longrightarrow> c < length (mf_nodes f)"
    "node = Block b \<Longrightarrow> op_batches b \<noteq> []"
proof -
  have "wf_node (length (mf_nodes f)) node"
    using assms by (auto simp: wf_forest_def list_all_iff get_node_by_id_Some)
  then show "c \<in> set (node_children node) \<Longrightarrow> c < length (mf_nodes f)" "node = Block b \<Longrightarrow> op_batches b \<noteq> []"
    by (auto simp: wf_node_def list_all_iff)
qed

lemma wf_forest_children:
  assumes "wf_forest f"
  shows "get_node_by_id f n = Some (Join j) \<Longrightarrow> jn_first j < length (mf_nodes f) \<and> jn_second j < length (mf_nodes f)"
    "get_node_by_id f n = Some (Split sn) \<Longrightarrow> on_true sn < length (mf_nodes f) \<and> on_false sn < length (mf_nodes f)"
    "get_node_by_id f n = Some (Loop l) \<Longrightarrow> ln_body l < length (mf_nodes f)"
    "get_node_by_id f n = Some (Call c) \<Longrightarrow> callee c < length (mf_nodes f)"
  using wf_forestD(1) [OF assms] by (auto simp: node_children_def)

lemma find_root_Ok:
  assumes "list_all (\<lambda>r. r < length nodes) rs"
  shows "\<exists>r. (find_root nodes d rs :: ('e, _) outcome) = Ok r \<and> (\<forall>n. r = Some n \<longrightarrow> n < length nodes)"
  using assms by (induction rs) (auto simp: fetch_def)

lemma find_procedure_root_Ok:
  assumes "wf_forest f"
  shows "\<exists>r. (find_procedure_root f d :: ('e, _) outcome) = Ok r \<and> (\<forall>n. r = Some n \<longrightarrow> n < length (mf_nodes f))"
  using find_root_Ok [of "mf_nodes f" "mf_roots f" d] assms by (simp add: find_procedure_root_def wf_forest_def)

section \<open>Related executions\<close>

definition exec_rel :: "('p \<Rightarrow> 'q \<Rightarrow> bool) \<Rightarrow> 'p exec_state \<Rightarrow> 'q exec_state \<Rightarrow> bool" where
  "exec_rel R s t \<longleftrightarrow> R (proc s) (proc t) \<and> conts t = conts s \<and> current_forest t = current_forest s \<and> wf_exec s"

definition exec_in :: "('p \<Rightarrow> 'q \<Rightarrow> bool) \<Rightarrow> mast_forest \<Rightarrow> 'p exec_state \<Rightarrow> 'q exec_state \<Rightarrow> bool" where
  "exec_in R f s t \<longleftrightarrow> exec_rel R s t \<and> current_forest s = f"

text \<open>Of the two relations on states the first holds throughout, the second also when a handler has ended its clock cycles.\<close>

fun flow_rel ::
    "('p exec_state \<Rightarrow> 'q exec_state \<Rightarrow> bool) \<Rightarrow> ('p exec_state \<Rightarrow> 'q exec_state \<Rightarrow> bool)
      \<Rightarrow> 'p exec_state flow \<Rightarrow> 'q exec_state flow \<Rightarrow> bool" where
  "flow_rel S U (Continue s) r = (\<exists>t. r = Continue t \<and> U s t)"
| "flow_rel S U (Stopped k s) r =
    (\<exists>t. r = Stopped k t \<and> S s t \<and> (\<forall>c. k = Some c \<longrightarrow> ok_cont (current_forest s) c \<and> increments_clk c))"
| "flow_rel S U (EmitBreak k s) r = (\<exists>t. r = EmitBreak k t \<and> S s t \<and> ok_cont (current_forest s) k \<and> increments_clk k)"
| "flow_rel S U (LoadMastForestFromDyn d s) r = (\<exists>t. r = LoadMastForestFromDyn d t \<and> S s t)"
| "flow_rel S U (LoadMastForestFromExternal n d s) r =
    (\<exists>t e. r = LoadMastForestFromExternal n d t \<and> S s t \<and> get_node_by_id (current_forest s) n = Some (External e))"

lemma flow_rel_mono:
  "flow_rel S U r r' \<Longrightarrow> (\<And>s t. S s t \<Longrightarrow> S' s t) \<Longrightarrow> (\<And>s t. U s t \<Longrightarrow> U' s t) \<Longrightarrow> flow_rel S' U' r r'"
  by (cases r) auto

lemma sim_bind_flow:
  assumes "sim (flow_rel S T) m n" "\<And>s t. T s t \<Longrightarrow> sim (flow_rel S U) (f s) (g t)"
  shows "sim (flow_rel S U) (bind_flow m f) (bind_flow n g)"
  unfolding bind_flow_def using assms(1)
proof (rule sim_bind)
  fix x y assume "flow_rel S T x y"
  then show "sim (flow_rel S U) (case x of Continue s \<Rightarrow> f s | _ \<Rightarrow> Ok x) (case y of Continue s \<Rightarrow> g s | _ \<Rightarrow> Ok y)"
    using assms(2) by (cases x) auto
qed

lemma exec_in_push [intro]:
  "exec_in R f s t \<Longrightarrow> ok_cont f k \<Longrightarrow> increments_clk k \<Longrightarrow> exec_in R f (push_cont k s) (push_cont k t)"
  by (auto simp: exec_in_def exec_rel_def wf_exec_def)

lemma exec_in_proc [intro]: "exec_in R f s t \<Longrightarrow> R p q \<Longrightarrow> exec_in R f (s\<lparr>proc := p\<rparr>) (t\<lparr>proc := q\<rparr>)"
  by (auto simp: exec_in_def exec_rel_def wf_exec_def)

lemma exec_inD:
  assumes "exec_in R f s t"
  shows "R (proc s) (proc t)" "current_forest s = f" "current_forest t = f" "wf_forest f" "conts t = conts s"
    "wf_conts f (conts s)"
  using assms by (auto simp: exec_in_def exec_rel_def wf_exec_def)

locale exec_sim = machine_sim P Q R
  for P :: "'p processor" and Q :: "'q processor" and R :: "'p \<Rightarrow> 'q \<Rightarrow> bool" +
  fixes stp :: "'p stopper" and stq :: "'q stopper" and R' :: "'p \<Rightarrow> 'q \<Rightarrow> bool"
  assumes cycle_weaken: "R' p q \<Longrightarrow> R p q"
    and cycle_law: "R p q \<Longrightarrow>
      sim (\<lambda>x y. x = y \<and> (x = None \<or> x = Some c) \<and> R' (sys_increment_clock (system P) p) (sys_increment_clock (system Q) q))
        (stp (sys_increment_clock (system P) p) cs (Ok c)) (stq (sys_increment_clock (system Q) q) cs (Ok c))"
begin

lemma cycle_rel: "exec_rel R' s t \<Longrightarrow> exec_rel R s t"
  using cycle_weaken by (auto simp: exec_rel_def)

lemma cycle_in: "exec_in R' f s t \<Longrightarrow> exec_in R f s t"
  using cycle_weaken by (auto simp: exec_in_def exec_rel_def)

lemma finalize_sim:
  assumes "exec_in R f s t" "\<And>k. c = Some k \<Longrightarrow> ok_cont f k \<and> increments_clk k"
  shows "sim (flow_rel (exec_in R f) (exec_in R' f)) (finalize_clock_cycle_with_continuation P stp (Ok c) s)
    (finalize_clock_cycle_with_continuation Q stq (Ok c) t)"
proof -
  note * = exec_inD [OF assms(1)]
  have "exec_in R' f (s\<lparr>proc := p\<rparr>) (t\<lparr>proc := q\<rparr>)" if "R' p q" for p q
    using assms(1) that by (auto simp: exec_in_def exec_rel_def wf_exec_def)
  then show ?thesis
    unfolding finalize_clock_cycle_with_continuation_def Let_def
    using cycle_law [OF *(1), of c "conts s"] *(5) assms(2)
    by (elim sim_cases) (auto split: option.splits simp: *(2) exec_inD(2) intro: cycle_in)
qed

lemma finalize_again_sim:
  assumes "exec_in R f s t" "\<And>k. c = Some k \<Longrightarrow> ok_cont f k \<and> increments_clk k"
  shows "sim (flow_rel (exec_in R f) (exec_in R f)) (finalize_clock_cycle_with_continuation P stp (Ok c) s)
    (finalize_clock_cycle_with_continuation Q stq (Ok c) t)"
  using finalize_sim [OF assms] by (rule sim_mono) (auto elim!: flow_rel_mono intro: cycle_in)

lemma finalize_plain_sim:
  "exec_in R f s t \<Longrightarrow> sim (flow_rel (exec_in R f) (exec_in R' f)) (finalize_clock_cycle P stp s) (finalize_clock_cycle Q stq t)"
  unfolding finalize_clock_cycle_def by (rule finalize_sim) simp_all

lemmas sim_bind_in = sim_bind_flow [where S = "exec_in R f" and T = "exec_in R f" for f]

lemmas finish_defs = finish_join_node_def finish_split_node_def finish_basic_block_def

lemma finish_sim:
  assumes "exec_in R f s t"
  shows "sim (flow_rel (exec_in R f) (exec_in R' f)) (finish_join_node P stp s) (finish_join_node Q stq t)"
    "sim (flow_rel (exec_in R f) (exec_in R' f)) (finish_split_node P stp s) (finish_split_node Q stq t)"
    "sim (flow_rel (exec_in R f) (exec_in R' f)) (finish_basic_block P stp s) (finish_basic_block Q stq t)"
  unfolding finish_defs by (rule finalize_sim [OF assms], simp)+

lemma start_join_sim:
  assumes "exec_in R f s t" "jn_first j < length (mf_nodes f)" "jn_second j < length (mf_nodes f)"
  shows "sim (flow_rel (exec_in R f) (exec_in R' f)) (start_join_node P stp j n s) (start_join_node Q stq j n t)"
  unfolding start_join_node_def using assms by (intro finalize_plain_sim exec_in_push) simp_all

lemma start_split_sim:
  assumes "exec_in R f s t" "on_true sn < length (mf_nodes f)" "on_false sn < length (mf_nodes f)"
  shows "sim (flow_rel (exec_in R f) (exec_in R' f)) (start_split_node P stp sn n s) (start_split_node Q stq sn n t)"
  unfolding start_split_node_def Let_def using assms exec_inD(1) [OF assms(1)]
  by (intro sim_intros finalize_plain_sim exec_in_push exec_in_proc) simp_all

lemma start_loop_sim:
  assumes "exec_in R f s t" "get_node_by_id f n = Some (Loop l)"
  shows "sim (flow_rel (exec_in R f) (exec_in R' f)) (start_loop_node P stp l n s) (start_loop_node Q stq l n t)"
  unfolding start_loop_node_def using assms wf_forest_children(3) [OF exec_inD(4)]
  by (intro finalize_plain_sim exec_in_push) auto

lemma finish_loop_sim:
  assumes "exec_in R f s t" "ok_cont f (FinishLoop n)"
  shows "sim (flow_rel (exec_in R f) (exec_in R' f)) (finish_loop_node P stp n s) (finish_loop_node Q stq n t)"
proof -
  obtain l where l: "get_node_by_id f n = Some (Loop l)"
    using assms(2) by (auto split: option.splits mast_node.splits)
  show ?thesis
    unfolding finish_loop_node_def Let_def exec_inD(2,3) [OF assms(1)] l
    using assms l exec_inD(1) [OF assms(1)] wf_forest_children(3) [OF exec_inD(4) [OF assms(1)] l]
    by (simp add: option_map_break_reason_def unwrap_loop_def del: ok_cont.simps)
      (intro sim_intros finalize_plain_sim finalize_sim exec_in_push exec_in_proc; simp)
qed

lemma enter_context_sim:
  assumes "R p q"
  shows "sim R (enter_context P d c p) (enter_context Q d c q)"
  unfolding enter_context_def Let_def by (intro write_element_law sim_registers assms)

lemma next_ctx_eq: "R p q \<Longrightarrow> get_next_ctx_id Q q = get_next_ctx_id P p"
  by (simp add: get_next_ctx_id_def clock_law)

lemma start_call_sim:
  assumes "exec_in R f s t" "callee c < length (mf_nodes f)"
  shows "sim (flow_rel (exec_in R f) (exec_in R' f)) (start_call_node P stp K c n s) (start_call_node Q stq K c n t)"
proof -
  obtain d where d: "get_digest_by_id f (callee c) = Some d"
    using assms(2) by (simp add: get_digest_by_id_def get_node_by_id_def)
  have body: "sim R (if is_syscall c then
           if \<not> contains_proc K d then Err (OperationErr (SyscallTargetNotInKernel d)) else Ok (sys_set_ctx (system P) p 0)
         else enter_context P d (get_next_ctx_id P p) p)
       (if is_syscall c then
           if \<not> contains_proc K d then Err (OperationErr (SyscallTargetNotInKernel d)) else Ok (sys_set_ctx (system Q) q 0)
         else enter_context Q d (get_next_ctx_id Q q) q)" if "R p q" for p q
    unfolding next_ctx_eq [OF that] by (intro sim_intros enter_context_sim sim_registers that)
  show ?thesis
    unfolding start_call_node_def exec_inD(2,3) [OF assms(1)] d option_map_break_reason_def option.case bindO.simps Let_def
    by (intro sim_start_context sim_bind [OF body] finalize_plain_sim exec_in_push exec_in_proc sim_registers
        exec_inD(1) [OF assms(1)] assms(1)) (simp_all add: assms(2))
qed

lemma leave_context_sim:
  assumes "R p q"
  shows "sim R (leave_context P p) (leave_context Q q)"
  unfolding leave_context_def by (intro sim_restore_context restore_call_state_law assms)

lemma finish_call_sim:
  assumes "exec_in R f s t"
  shows "sim (flow_rel (exec_in R f) (exec_in R' f)) (finish_call_node P stp s) (finish_call_node Q stq t)"
  unfolding finish_call_node_def
  by (rule sim_bind [OF leave_context_sim [OF exec_inD(1) [OF assms]]])
    (intro finalize_sim exec_in_proc assms; simp)

lemma start_dyn_sim:
  assumes "exec_in R f s t" "get_node_by_id f n = Some (Dyn d)"
  shows "sim (flow_rel (exec_in R f) (exec_in R' f)) (start_dyn_node P stp n s) (start_dyn_node Q stq n t)"
proof -
  have body: "sim R (if is_dyncall d then
           let new_ctx = get_next_ctx_id P p in
           bindO (stk_start_context (stack P) p) (\<lambda>p. enter_context P h new_ctx (sys_save_call_state (system P) p))
         else Ok p)
       (if is_dyncall d then
           let new_ctx = get_next_ctx_id Q q in
           bindO (stk_start_context (stack Q) q) (\<lambda>p. enter_context Q h new_ctx (sys_save_call_state (system Q) p))
         else Ok q)" if "R p q" for p q h
    unfolding next_ctx_eq [OF that] by (intro sim_intros enter_context_sim sim_registers that)
  have rest: "sim (flow_rel (exec_in R f) (exec_in R' f))
      (let s = push_cont (FinishDyn n) (s\<lparr>proc := p\<rparr>) in bindO (find_procedure_root (current_forest s) h) (\<lambda>r.
         case r of Some m \<Rightarrow> finalize_clock_cycle P stp (push_cont (StartNode m) s) | None \<Rightarrow> Ok (LoadMastForestFromDyn h s)))
      (let t = push_cont (FinishDyn n) (t\<lparr>proc := q\<rparr>) in bindO (find_procedure_root (current_forest t) h) (\<lambda>r.
         case r of Some m \<Rightarrow> finalize_clock_cycle Q stq (push_cont (StartNode m) t) | None \<Rightarrow> Ok (LoadMastForestFromDyn h t)))"
    if "R p q" for p q h
  proof -
    have st: "exec_in R f (push_cont (FinishDyn n) (s\<lparr>proc := p\<rparr>)) (push_cont (FinishDyn n) (t\<lparr>proc := q\<rparr>))"
      using assms that by (intro exec_in_push exec_in_proc) auto
    obtain r where r: "(find_procedure_root f h :: _ exec) = Ok r" "\<And>m. r = Some m \<Longrightarrow> m < length (mf_nodes f)"
      using find_procedure_root_Ok [OF exec_inD(4) [OF assms(1)]] by blast
    have go: "sim (flow_rel (exec_in R f) (exec_in R' f)) (finalize_clock_cycle P stp (push_cont (StartNode m) (push_cont (FinishDyn n) (s\<lparr>proc := p\<rparr>))))
        (finalize_clock_cycle Q stq (push_cont (StartNode m) (push_cont (FinishDyn n) (t\<lparr>proc := q\<rparr>))))" if "r = Some m" for m
      using r(2) [OF that] by (intro finalize_plain_sim exec_in_push [OF st]) simp_all
    show ?thesis
      using r(1) exec_inD(2,3) [OF st] st go by (auto simp: Let_def split: option.split)
  qed
  show ?thesis
    unfolding start_dyn_node_def exec_inD(2,3) [OF assms(1)] assms(2) option_map_break_reason_def option.case
      bindO.simps unwrap_dyn_def mast_node.case
    by (subst (1 2) Let_def, intro sim_ctx sim_clock sim_get sim_read_word sim_decrement sim_bind [OF body] rest
        exec_inD(1) [OF assms(1)]) simp_all
qed

lemma finish_dyn_sim:
  assumes "exec_in R f s t" "ok_cont f (FinishDyn n)"
  shows "sim (flow_rel (exec_in R f) (exec_in R' f)) (finish_dyn_node P stp n s) (finish_dyn_node Q stq n t)"
proof -
  obtain d where d: "get_node_by_id f n = Some (Dyn d)"
    using assms(2) by (auto split: option.splits mast_node.splits)
  have "sim R (if is_dyncall d then leave_context P (proc s) else Ok (proc s))
      (if is_dyncall d then leave_context Q (proc t) else Ok (proc t))"
    using exec_inD(1) [OF assms(1)] by (intro sim_intros leave_context_sim)
  then show ?thesis
    unfolding finish_dyn_node_def exec_inD(2,3) [OF assms(1)] d option_map_break_reason_def option.case bindO.simps
      unwrap_dyn_def mast_node.case
    by (rule sim_bind) (intro finalize_sim exec_in_proc assms(1); simp)
qed

lemma execute_external_sim:
  assumes "exec_in R f s t" "get_node_by_id f n = Some (External e)"
  shows "sim (flow_rel (exec_in R f) (exec_in R' f)) (execute_external_node n s) (execute_external_node n t)"
  using assms exec_inD(2,3) [OF assms(1)]
  by (simp add: execute_external_node_def option_map_break_reason_def unwrap_external_def)

end

section \<open>Blocks\<close>

lemma continuation_after:
  assumes "get_node_by_id f n = Some (Block b)" "i < length (op_batches b)" "j < length (ob_ops (op_batches b ! i))"
  obtains k where "get_continuation_after_executing_operation b n i j = Ok k" "ok_cont f k" "increments_clk k"
  using assms by (simp add: get_continuation_after_executing_operation_def fetch_def usub_def)

context exec_sim
begin

lemma execute_ops_sim:
  assumes "exec_in R f s t" "get_node_by_id f n = Some (Block b)" "i < length (op_batches b)"
    "ops = drop j (ob_ops (op_batches b ! i))"
  shows "sim (flow_rel (exec_in R f) (exec_in R f)) (execute_ops P stp b n i j ops s) (execute_ops Q stq b n i j ops t)"
  using assms
proof (induction ops arbitrary: j s t)
  case (Cons op ops)
  have j: "j < length (ob_ops (op_batches b ! i))"
    using Cons.prems(4) by (metis drop_eq_Nil list.distinct(1) not_le)
  have next_ops: "ops = drop (Suc j) (ob_ops (op_batches b ! i))"
    using Cons.prems(4) by (metis drop_Suc list.sel(3) tl_drop)
  obtain k where k: "get_continuation_after_executing_operation b n i j = Ok k" "ok_cont f k" "increments_clk k"
    using continuation_after [OF Cons.prems(2,3) j] .
  show ?case
  proof (cases "op = Emit")
    case True
    then show ?thesis using k Cons.prems(1) exec_inD(2) [OF Cons.prems(1)] by simp
  next
    case False
    have "sim (flow_rel (exec_in R f) (exec_in R f))
        (bind_flow (finalize_clock_cycle_with_continuation P stp (Ok (Some k)) (s\<lparr>proc := p\<rparr>)) (execute_ops P stp b n i (Suc j) ops))
        (bind_flow (finalize_clock_cycle_with_continuation Q stq (Ok (Some k)) (t\<lparr>proc := q\<rparr>)) (execute_ops Q stq b n i (Suc j) ops))"
      if "R p q" for p q
      using k(2,3) Cons.prems(1-3) next_ops that
      by (intro sim_bind_in finalize_again_sim exec_in_proc Cons.IH) auto
    then show ?thesis
      using False k(1) by simp (rule sim_bind_op [OF execute_op_sim [OF exec_inD(1) [OF Cons.prems(1)] False]])
  qed
qed simp

lemma execute_op_batch_sim:
  assumes "exec_in R f s t" "get_node_by_id f n = Some (Block b)" "i < length (op_batches b)"
  shows "sim (flow_rel (exec_in R f) (exec_in R f)) (execute_op_batch P stp b n i j s) (execute_op_batch Q stq b n i j t)"
  using execute_ops_sim [OF assms refl] assms(3) by (simp add: execute_op_batch_def fetch_def)

lemma execute_batches_sim:
  assumes "exec_in R f s t" "get_node_by_id f n = Some (Block b)" "\<forall>i \<in> set is. i < length (op_batches b)"
  shows "sim (flow_rel (exec_in R f) (exec_in R f)) (execute_batches P stp b n is s) (execute_batches Q stq b n is t)"
  using assms
proof (induction "is" arbitrary: s t)
  case (Cons i "is")
  then show ?case
    by (simp only: execute_batches.simps) (intro sim_bind_in finalize_again_sim execute_op_batch_sim Cons.IH; auto)
qed simp

lemma from_batch_sim:
  assumes "exec_in R f s t" "get_node_by_id f n = Some (Block b)"
  shows "sim (flow_rel (exec_in R f) (exec_in R' f)) (execute_basic_block_node_from_batch P stp b n i s)
    (execute_basic_block_node_from_batch Q stq b n i t)"
  unfolding execute_basic_block_node_from_batch_def
  using assms by (intro sim_bind_in execute_batches_sim finish_sim) auto

lemma from_op_idx_sim:
  assumes "exec_in R f s t" "get_node_by_id f n = Some (Block b)" "i < length (op_batches b)"
  shows "sim (flow_rel (exec_in R f) (exec_in R' f)) (execute_basic_block_node_from_op_idx P stp b n i j s)
    (execute_basic_block_node_from_op_idx Q stq b n i j t)"
  unfolding execute_basic_block_node_from_op_idx_def
  using assms by (intro sim_bind_in execute_op_batch_sim from_batch_sim)

lemma from_start_sim:
  assumes "exec_in R f s t" "get_node_by_id f n = Some (Block b)"
  shows "sim (flow_rel (exec_in R f) (exec_in R' f)) (execute_basic_block_node_from_start P stp b n s)
    (execute_basic_block_node_from_start Q stq b n t)"
proof -
  have "op_batches b \<noteq> []"
    using wf_forestD(2) [OF exec_inD(4) [OF assms(1)] assms(2)] by simp
  then show ?thesis
    unfolding execute_basic_block_node_from_start_def using assms
    by simp (intro sim_bind_in finalize_again_sim execute_op_batch_sim from_batch_sim; auto)
qed

section \<open>The loops\<close>

lemma start_node_sim:
  assumes "exec_in R f s t" "n < length (mf_nodes f)"
  shows "sim (flow_rel (exec_in R f) (exec_in R' f)) (start_node P stp K n s) (start_node Q stq K n t)"
proof -
  obtain node where node: "get_node_by_id f n = Some node"
    using assms(2) by (simp add: get_node_by_id_def)
  note children = wf_forest_children [OF exec_inD(4) [OF assms(1)], of n]
  show ?thesis
    unfolding start_node_def unwrap_node_def exec_inD(2,3) [OF assms(1)] node option.case bindO.simps
    using node children
    by (cases node) (auto intro: from_start_sim start_join_sim start_split_sim start_loop_sim start_call_sim start_dyn_sim
        execute_external_sim assms(1) simp del: sim.simps)
qed

lemma execute_clocked_sim:
  assumes "exec_in R f s t" "ok_cont f k" "increments_clk k"
  shows "sim (flow_rel (exec_in R f) (exec_in R' f)) (execute_continuation P stp K k s) (execute_continuation Q stq K k t)"
proof -
  note st = exec_inD(2,3) [OF assms(1)]
  show ?thesis
  proof (cases k)
    case (ResumeBasicBlock n i j)
    then obtain b where "get_node_by_id f n = Some (Block b)" "i < length (op_batches b)"
      using assms(2) by (auto split: option.splits mast_node.splits)
    with from_op_idx_sim [OF assms(1) this] show ?thesis
      by (simp add: execute_continuation_def ResumeBasicBlock unwrap_node_def unwrap_basic_block_def st del: sim.simps)
  next
    case (Respan n i)
    then obtain b where "get_node_by_id f n = Some (Block b)"
      using assms(2) by (auto split: option.splits mast_node.splits)
    with from_batch_sim [OF assms(1) this] show ?thesis
      by (simp add: execute_continuation_def Respan unwrap_node_def unwrap_basic_block_def st del: sim.simps)
  qed (use assms in \<open>auto simp: execute_continuation_def simp del: sim.simps
      intro: start_node_sim finish_sim finish_loop_sim finish_call_sim finish_dyn_sim\<close>)
qed

lemma execute_continuation_sim:
  assumes "exec_rel R s t" "conts s = k # ks"
  shows "sim (flow_rel (exec_rel R) (exec_rel R)) (execute_continuation P stp K k (s\<lparr>conts := ks\<rparr>))
    (execute_continuation Q stq K k (t\<lparr>conts := ks\<rparr>))"
proof (cases "increments_clk k")
  case True
  then have "exec_in R (current_forest s) (s\<lparr>conts := ks\<rparr>) (t\<lparr>conts := ks\<rparr>)" "ok_cont (current_forest s) k"
    using assms by (auto simp: exec_in_def exec_rel_def wf_exec_def)
  from execute_clocked_sim [OF this True] show ?thesis
    by (rule sim_mono) (auto elim!: flow_rel_mono simp: exec_in_def dest: cycle_rel)
next
  case False
  then obtain g where "k = EnterForest g" by (cases k) auto
  with assms show ?thesis by (auto simp: execute_continuation_def exec_rel_def wf_exec_def)
qed

end

end
