(* ===== verification/Run_Sim.thy ===== *)
theory Run_Sim
  imports Exec_Sim
begin

text \<open>
  Whole runs on two machines: the events, the loading of forests and the outer loop. The contract of the two machines is
  extended by what lies outside the traits: both show the same state to the host, and a well-formed advice provider
  can be put into both. Since one iteration of the loops is a function, a run is the iteration of \<open>next_state\<close>, which
  pops a continuation and answers a break at once; the equation of \<open>run_impl\<close> in this form is proved from its definition.
\<close>

section \<open>Advice that events leave\<close>

definition keeps_advice :: "(advice_error, advice) outcome \<Rightarrow> bool" where
  "keeps_advice m \<longleftrightarrow> m \<noteq> Panic \<and> (\<forall>a. m = Ok a \<longrightarrow> wf_advice a)"

lemma capacity_safe: "check_stack_capacity a n \<noteq> Panic"
  by (simp add: check_stack_capacity_def bindO_eq_Panic bytes_safe)

lemma extend_map_added_safe: "extend_map_added a n es \<noteq> Panic"
  by (induction a n es rule: extend_map_added.induct) (auto simp: bindO_eq_Panic bytes_safe split: option.splits)

lemma keeps_push:
  assumes "wf_advice a"
  shows "keeps_advice (push_stack a x)" "keeps_advice (push_stack_word a w)"
    "keeps_advice (push_from_map a key il pad)"
proof -
  have "push_stack a x \<noteq> Panic" "push_stack_word a w \<noteq> Panic" "push_from_map a key il pad \<noteq> Panic"
    by (auto simp: push_stack_def push_stack_word_def push_from_map_def Let_def bindO_eq_Panic
        capacity_safe bytes_safe split: option.splits)
  then show "keeps_advice (push_stack a x)" "keeps_advice (push_stack_word a w)"
    "keeps_advice (push_from_map a key il pad)"
    using push_stack_wf [OF assms] push_stack_word_wf [OF assms] push_from_map_wf [OF assms]
    unfolding keeps_advice_def by blast+
qed

lemma keeps_map:
  assumes "wf_advice a"
  shows "keeps_advice (insert_into_map a key vs)" "keeps_advice (extend_map a m)"
proof -
  have "insert_into_map a key vs \<noteq> Panic" "extend_map a m \<noteq> Panic"
    by (auto simp: insert_into_map_def extend_map_def map_merge_def Let_def bindO_eq_Panic extend_map_added_safe bytes_safe
        split: option.splits)
  then show "keeps_advice (insert_into_map a key vs)" "keeps_advice (extend_map a m)"
    using insert_into_map_wf [OF assms] extend_map_wf [OF assms] unfolding keeps_advice_def by blast+
qed

lemma keeps_mutations:
  assumes "wf_advice a"
  shows "keeps_advice (apply_mutations a ms)"
  using apply_mutations_complete [OF assms, of ms] validate_mutations_safe [of a ms]
  by (cases "validate_mutations a ms") (auto simp: keeps_advice_def apply_mutations_def)

lemma get_node_loop_safe: "get_node_loop st idx i h \<noteq> Panic"
  by (induction st idx i h rule: get_node_loop.induct) (auto split: option.splits)

lemma get_tree_node_safe: "get_tree_node a root d i \<noteq> Panic"
  by (auto simp: get_tree_node_def get_node_def outcome_simps get_node_loop_safe split: option.splits)

lemma merge_roots_safe: "advice_merge_roots perm a l r \<noteq> Panic"
  by (auto simp: advice_merge_roots_def merge_roots_def Let_def bindO_eq_Panic node_bytes_safe)

lemma check_map_value_allocation_safe: "check_map_value_allocation a n \<noteq> Panic"
  by (cases "map_entry_bytes n") (simp_all add: check_map_value_allocation_def bytes_safe)

section \<open>Events\<close>

definition host_ok :: "('d, 'h) host \<Rightarrow> bool" where
  "host_ok H \<longleftrightarrow>
    (\<forall>h d h' f. get_mast_forest H h d = (h', Some f) \<longrightarrow> wf_forest f) \<and>
    (\<forall>e v a d. wf_advice (advice_st v) \<longrightarrow> deferred_event H e v = Inr (a, d) \<longrightarrow> wf_advice a)"

definition leaves_forest :: "'s flow \<Rightarrow> bool" where
  "leaves_forest r = (case r of LoadMastForestFromExternal _ _ _ \<Rightarrow> True | _ \<Rightarrow> False)"

locale run_sim = exec_sim P Q R stp stq R'
  for P :: "('d, 'x) sys_state_scheme processor" and Q :: "('d, 'y) sys_state_scheme processor"
    and R :: "('d, 'x) sys_state_scheme \<Rightarrow> ('d, 'y) sys_state_scheme \<Rightarrow> bool"
    and stp :: "('d, 'x) sys_state_scheme stopper" and stq :: "('d, 'y) sys_state_scheme stopper"
    and R' :: "('d, 'x) sys_state_scheme \<Rightarrow> ('d, 'y) sys_state_scheme \<Rightarrow> bool" +
  fixes V :: "(('d, 'x) sys_state_scheme, 'd) observer" and W :: "(('d, 'y) sys_state_scheme, 'd) observer"
  assumes view_law: "R p q \<Longrightarrow> obs_view W q = obs_view V p"
    and view_advice_law: "R p q \<Longrightarrow> advice_st (obs_view V p) = advice_st p"
    and word_safe_law: "R p q \<Longrightarrow> sim (=) (obs_word_safe V p 13) (obs_word_safe W q 13)"
    and shared_law: "R p q \<Longrightarrow> advice_st q = advice_st p \<and> memory_st q = memory_st p \<and> ctx q = ctx p"
    and advice_wf_law: "R p q \<Longrightarrow> wf_advice (advice_st p)"
    and set_advice_law: "R p q \<Longrightarrow> wf_advice a \<Longrightarrow> R (p\<lparr>advice_st := a\<rparr>) (q\<lparr>advice_st := a\<rparr>)"
    and set_deferred_law: "R p q \<Longrightarrow> R (p\<lparr>deferred_state := d\<rparr>) (q\<lparr>deferred_state := d\<rparr>)"
begin

lemma set_advice_sim [sim_intros]:
  assumes "R p q" "keeps_advice m"
  shows "sim R (set_advice p m) (set_advice q m)"
  using assms set_advice_law [OF assms(1)] by (cases m) (auto simp: set_advice_def keeps_advice_def)

lemma sim_set_advice [sim_intros]:
  assumes "R p q" "keeps_advice m" "\<And>p q. R p q \<Longrightarrow> sim U (f p) (g q)"
  shows "sim U (bindO (set_advice p m) f) (bindO (set_advice q m) g)"
  using set_advice_sim [OF assms(1,2)] assms(3) by (rule sim_bind)

lemma map_events_sim:
  assumes R: "R p q"
  shows "sim R (copy_map_value_to_adv_stack il pad P p) (copy_map_value_to_adv_stack il pad Q q)"
    "sim R (copy_map_value_length_to_adv_stack P p) (copy_map_value_length_to_adv_stack Q q)"
    "sim R (push_key_presence_flag P p) (push_key_presence_flag Q q)"
proof -
  note shared = conjunct1 [OF shared_law [OF R]] and wf = advice_wf_law [OF R]
  show "sim R (copy_map_value_to_adv_stack il pad P p) (copy_map_value_to_adv_stack il pad Q q)"
    unfolding copy_map_value_to_adv_stack_def shared by (intro sim_intros R keeps_push wf) simp
  show "sim R (push_key_presence_flag P p) (push_key_presence_flag Q q)"
    unfolding push_key_presence_flag_def shared by (intro sim_intros R keeps_push wf) simp
  have "sim R (case get_mapped_values (advice_st p) key of None \<Rightarrow> Err (AdviceErr (MapKeyNotFound key))
        | Some values \<Rightarrow> set_advice p (push_stack (advice_st p) (new_unchecked (word_of_nat (length values)))))
      (case get_mapped_values (advice_st p) key of None \<Rightarrow> Err (AdviceErr (MapKeyNotFound key))
        | Some values \<Rightarrow> set_advice q (push_stack (advice_st p) (new_unchecked (word_of_nat (length values)))))" for key
    by (cases "get_mapped_values (advice_st p) key") (auto intro: set_advice_sim R keeps_push wf simp del: sim.simps(1))
  then show "sim R (copy_map_value_length_to_adv_stack P p) (copy_map_value_length_to_adv_stack Q q)"
    unfolding copy_map_value_length_to_adv_stack_def shared by (intro sim_get_word R) simp_all
qed

lemma number_events_sim:
  assumes R: "R p q"
  shows "sim R (push_transformed_stack_top f P p) (push_transformed_stack_top f Q q)"
    "sim R (push_ilog2 P p) (push_ilog2 Q q)" "sim R (push_ext2_inv_result P p) (push_ext2_inv_result Q q)"
proof -
  note shared = conjunct1 [OF shared_law [OF R]] and wf = advice_wf_law [OF R]
  show "sim R (push_transformed_stack_top f P p) (push_transformed_stack_top f Q q)"
    unfolding push_transformed_stack_top_def shared by (intro sim_intros R keeps_push wf) simp
  show "sim R (push_ilog2 P p) (push_ilog2 Q q)"
    unfolding push_ilog2_def shared by (intro sim_intros R keeps_push wf) simp
  have second: "sim R (set_advice p (push_stack (advice_st p) x)) (set_advice q (push_stack (advice_st q) x))"
    if "R p q" for p q x
    using that shared_law [OF that] advice_wf_law [OF that] by (auto intro: set_advice_sim keeps_push simp del: sim.simps(1))
  show "sim R (push_ext2_inv_result P p) (push_ext2_inv_result Q q)"
    unfolding push_ext2_inv_result_def shared Let_def by (intro sim_intros R keeps_push wf second) simp_all
qed

lemma hash_events_sim:
  assumes R: "R p q"
  shows "sim R (insert_hdword_into_adv_map E d P p) (insert_hdword_into_adv_map E d Q q)"
    "sim R (insert_hqword_into_adv_map E V P p) (insert_hqword_into_adv_map E W Q q)"
    "sim R (insert_hperm_into_adv_map E P p) (insert_hperm_into_adv_map E Q q)"
proof -
  note shared = conjunct1 [OF shared_law [OF R]] and wf = advice_wf_law [OF R]
  show "sim R (insert_hdword_into_adv_map E d P p) (insert_hdword_into_adv_map E d Q q)"
    unfolding insert_hdword_into_adv_map_def shared by (intro sim_intros R keeps_map wf) simp_all
  show "sim R (insert_hqword_into_adv_map E V P p) (insert_hqword_into_adv_map E W Q q)"
    unfolding insert_hqword_into_adv_map_def shared
    by (intro sim_get_word sim_bind_eq [OF word_safe_law] sim_let set_advice_sim R keeps_map wf) simp_all
  show "sim R (insert_hperm_into_adv_map E P p) (insert_hperm_into_adv_map E Q q)"
    unfolding insert_hperm_into_adv_map_def shared by (intro sim_intros R keeps_map wf) simp_all
qed

lemma merkle_events_sim:
  assumes R: "R p q"
  shows "sim R (merge_merkle_nodes E P p) (merge_merkle_nodes E Q q)"
    "sim R (copy_merkle_node_to_adv_stack P p) (copy_merkle_node_to_adv_stack Q q)"
proof -
  note shared = conjunct1 [OF shared_law [OF R]] and wf = advice_wf_law [OF R]
  have merge: "sim R (bindO (with_advice p (advice_merge_roots (env_perm E) (advice_st p) l r)) (\<lambda>(_, p). Ok p))
      (bindO (with_advice q (advice_merge_roots (env_perm E) (advice_st p) l r)) (\<lambda>(_, q). Ok q))" for l r
  proof (cases "advice_merge_roots (env_perm E) (advice_st p) l r")
    case (Ok x)
    then have "wf_advice (snd x)"
      using advice_merge_roots_wf [OF wf, of "env_perm E" l r "fst x" "snd x"] by simp
    then show ?thesis
      using set_advice_law [OF R] Ok by (simp add: with_advice_def case_prod_beta)
  qed (simp_all add: with_advice_def merge_roots_safe)
  show "sim R (merge_merkle_nodes E P p) (merge_merkle_nodes E Q q)"
    unfolding merge_merkle_nodes_def shared by (intro sim_get_word merge R) simp_all
  show "sim R (copy_merkle_node_to_adv_stack P p) (copy_merkle_node_to_adv_stack Q q)"
    unfolding copy_merkle_node_to_adv_stack_def shared
    by (intro sim_get sim_get_word sim_value set_advice_sim R keeps_push wf) (simp_all add: get_tree_node_safe)
qed

lemma mem_event_sim:
  assumes R: "R p q"
  shows "sim R (insert_mem_values_into_adv_map P p) (insert_mem_values_into_adv_map Q q)"
proof -
  note wf = advice_wf_law [OF R]
  have shared: "advice_st q = advice_st p" "memory_st q = memory_st p" "ctx q = ctx p"
    using shared_law [OF R] by auto
  show ?thesis
    unfolding insert_mem_values_into_adv_map_def shared
    by (intro sim_get sim_get_word sim_let sim_if sim_Err sim_value set_advice_sim R keeps_map wf)
      (simp_all add: check_map_value_allocation_safe)
qed

lemma deferred_sim:
  assumes R: "R p q" and H: "host_ok H"
  shows "sim R (handle_deferred V H e p) (handle_deferred W H e q)"
proof (cases "deferred_event H e (obs_view V p)")
  case (Inr x)
  obtain a d where x: "x = (a, d)" by (cases x)
  have "wf_advice (advice_st (obs_view V p))"
    using advice_wf_law [OF R] view_advice_law [OF R] by simp
  then have "wf_advice a"
    using H Inr x unfolding host_ok_def by blast
  from set_deferred_law [OF set_advice_law [OF R this]] show ?thesis
    unfolding handle_deferred_def view_law [OF R] Inr x by simp
next
  case (Inl e)
  show ?thesis unfolding handle_deferred_def view_law [OF R] Inl by simp
qed

lemma system_event_sim:
  assumes R: "R p q" and H: "host_ok H"
  shows "sim R (handle_system_event E V H e P p) (handle_system_event E W H e Q q)"
proof -
  have domain: "sim R (bindO (sget P p HDWORD_TO_MAP_WITH_DOMAIN_DOMAIN_OFFSET) (\<lambda>d. insert_hdword_into_adv_map E d P p))
      (bindO (sget Q q HDWORD_TO_MAP_WITH_DOMAIN_DOMAIN_OFFSET) (\<lambda>d. insert_hdword_into_adv_map E d Q q))"
    unfolding HDWORD_TO_MAP_WITH_DOMAIN_DOMAIN_OFFSET_def by (intro sim_get hash_events_sim R) simp
  show ?thesis
    by (cases e) (simp_all add: handle_system_event_def map_events_sim [OF R] number_events_sim [OF R] hash_events_sim [OF R]
        merkle_events_sim [OF R] mem_event_sim [OF R] deferred_sim [OF assms] domain sim_Ok [where R = R, OF R] del: sim.simps(1))
qed

lemma host_event_sim:
  assumes "R p q"
  shows "sim R (apply_host_event_mutations p eid ms) (apply_host_event_mutations q eid ms)"
  using set_advice_sim [OF assms keeps_mutations [OF advice_wf_law [OF assms]]] shared_law [OF assms]
  by (cases ms) (simp_all add: apply_host_event_mutations_def del: sim.simps(1))

lemma op_emit_sim:
  assumes R: "R p q" and H: "host_ok H"
  shows "sim (rel_op R) (op_emit E V H P h p) (op_emit E W H Q h q)"
proof -
  have tagged: "sim (rel_op R) (bindO m (\<lambda>p. Ok (h, p))) (bindO n (\<lambda>q. Ok (h, q)))" if "sim R m n" for m n and h :: 'h
    using that by (rule sim_bind) simp
  have trace: "sim R (handle_trace_result p tid r) (handle_trace_result q tid r)" for tid r
    using R by (cases r) (simp_all add: handle_trace_result_def)
  show ?thesis
    unfolding op_emit_def
  proof (rule sim_get [OF R])
    fix eid
    show "sim (rel_op R)
        (case from_event_id eid of
           Some TraceEvent \<Rightarrow> let (h, r) = on_trace H h (obs_view V p) in
             bindO (sget P p 1) (\<lambda>tid. bindO (handle_trace_result p tid r) (\<lambda>p. Ok (h, p)))
         | Some e \<Rightarrow> bindO (handle_system_event E V H e P p) (\<lambda>p. Ok (h, p))
         | None \<Rightarrow> let (h, r) = on_event H h (obs_view V p) in bindO (apply_host_event_mutations p eid r) (\<lambda>p. Ok (h, p)))
        (case from_event_id eid of
           Some TraceEvent \<Rightarrow> let (h, r) = on_trace H h (obs_view W q) in
             bindO (sget Q q 1) (\<lambda>tid. bindO (handle_trace_result q tid r) (\<lambda>p. Ok (h, p)))
         | Some e \<Rightarrow> bindO (handle_system_event E W H e Q q) (\<lambda>p. Ok (h, p))
         | None \<Rightarrow> let (h, r) = on_event H h (obs_view W q) in bindO (apply_host_event_mutations q eid r) (\<lambda>p. Ok (h, p)))"
    proof (cases "from_event_id eid")
      case None
      then show ?thesis
        by (simp add: view_law [OF R] case_prod_beta tagged [OF host_event_sim [OF R]] del: sim.simps(1))
    next
      case (Some e)
      show ?thesis
      proof (cases "e = TraceEvent")
        case True
        have "sim (rel_op R) (bindO (sget P p 1) (\<lambda>tid. bindO (handle_trace_result p tid r) (\<lambda>p. Ok (h', p))))
            (bindO (sget Q q 1) (\<lambda>tid. bindO (handle_trace_result q tid r) (\<lambda>p. Ok (h', p))))" for r and h' :: 'h
          by (intro sim_get R tagged trace) simp
        then show ?thesis
          using Some True by (simp add: view_law [OF R] case_prod_beta del: sim.simps(1))
      next
        case False
        then show ?thesis
          using Some tagged [OF system_event_sim [OF assms, of E e]]
          by (cases e) (simp_all del: sim.simps(1))
      qed
    qed
  qed simp
qed

lemma load_sim:
  assumes R: "R p q" and H: "host_ok H"
  shows "sim (\<lambda>(h, p, n, f) (h', q, n', f'). h = h' \<and> R p q \<and> n = n' \<and> f = f' \<and> wf_forest f \<and> n < length (mf_nodes f))
    (load_mast_forest H d h p) (load_mast_forest H d h q)"
proof -
  obtain h' r where load: "get_mast_forest H h d = (h', r)" by (cases "get_mast_forest H h d")
  show ?thesis
  proof (cases r)
    case (Some f)
    with load H have wf: "wf_forest f" by (auto simp: host_ok_def)
    obtain root where root: "(find_procedure_root f d :: _ exec) = Ok root" "\<And>n. root = Some n \<Longrightarrow> n < length (mf_nodes f)"
      using find_procedure_root_Ok [OF wf] by blast
    have "sim R (set_advice p (extend_map (advice_st p) (mf_advice_map f))) (set_advice q (extend_map (advice_st q) (mf_advice_map f)))"
      using set_advice_sim [OF R keeps_map(2) [OF advice_wf_law [OF R]]] shared_law [OF R] by simp
    then show ?thesis
      using load Some root wf by (elim sim_cases; cases root) (auto simp: load_mast_forest_def)
  qed (simp add: load_mast_forest_def load)
qed

lemma weaken_in:
  "sim (flow_rel (exec_in R f) (exec_in R' f)) m n \<Longrightarrow> (\<And>s t. exec_rel R' s t \<Longrightarrow> U s t) \<Longrightarrow> sim (flow_rel (exec_rel R) U) m n"
  by (erule sim_mono) (auto elim!: flow_rel_mono simp: exec_in_def)

lemma finish_emit_sim:
  assumes "exec_rel R s t" "ok_cont (current_forest s) k" "increments_clk k" "R p q"
  shows "sim (flow_rel (exec_in R (current_forest s)) (exec_in R' (current_forest s)))
    (finish_emit_op_execution P stp k (s\<lparr>proc := p\<rparr>)) (finish_emit_op_execution Q stq k (t\<lparr>proc := q\<rparr>))"
proof -
  have "exec_in R (current_forest s) s t" using assms(1) by (simp add: exec_in_def)
  then show ?thesis
    unfolding finish_emit_op_execution_def using assms(2-4)
    by (intro sim_bind_flow [where T = "exec_in R' (current_forest s)"] finalize_sim exec_in_proc) auto
qed

lemma enter_forest_rel:
  assumes "exec_rel R s t" "R p q" "wf_forest g" "n < length (mf_nodes g)"
  shows "exec_in R g ((push_cont (StartNode n) (push_cont (EnterForest (current_forest s)) (s\<lparr>proc := p\<rparr>)))\<lparr>current_forest := g\<rparr>)
    ((push_cont (StartNode n) (push_cont (EnterForest (current_forest t)) (t\<lparr>proc := q\<rparr>)))\<lparr>current_forest := g\<rparr>)"
  using assms by (auto simp: exec_in_def exec_rel_def wf_exec_def)

lemma handle_break_sim:
  assumes "flow_rel (exec_rel R) U r r'" "host_ok H" and U: "\<And>s t. exec_rel R' s t \<Longrightarrow> U s t"
    "\<And>s t. leaves_forest r \<Longrightarrow> exec_rel R s t \<Longrightarrow> U s t"
  shows "sim (rel_prod (=) (flow_rel (exec_rel R) U)) (handle_break E V H P stp h r) (handle_break E W H Q stq h r')"
proof -
  have tagged: "sim (rel_prod (=) (flow_rel (exec_rel R) U)) (bindO m (\<lambda>r. Ok (h, r))) (bindO n (\<lambda>r. Ok (h, r)))"
    if "sim (flow_rel (exec_rel R) U) m n" for m n and h :: 'h
    using that by (rule sim_bind) simp
  note weaken = weaken_in [OF _ U(1)]
  show ?thesis
  proof (cases r)
    case (EmitBreak k s)
    then obtain t where t: "r' = EmitBreak k t" "exec_rel R s t" "ok_cont (current_forest s) k" "increments_clk k"
      using assms(1) by auto
    then have "R (proc s) (proc t)" by (simp add: exec_rel_def)
    then show ?thesis
      unfolding handle_break_def EmitBreak t(1) flow.case
      by (rule sim_bind_op [OF op_emit_sim [OF _ assms(2)]]) (intro tagged weaken [OF finish_emit_sim] t)
  next
    case (LoadMastForestFromDyn d s)
    then obtain t where t: "r' = LoadMastForestFromDyn d t" "exec_rel R s t"
      using assms(1) by auto
    then have R: "R (proc s) (proc t)" by (simp add: exec_rel_def)
    show ?thesis
      unfolding handle_break_def LoadMastForestFromDyn t(1) flow.case
    proof (rule sim_bind [OF load_sim [OF R assms(2)]], clarify)
      fix h p n g q assume "R p q" "wf_forest g" "n < length (mf_nodes g)"
      from enter_forest_rel [OF t(2) this] show "sim (rel_prod (=) (flow_rel (exec_rel R) U))
          (bindO (finish_load_mast_forest_from_dyn_start P stp n g (s\<lparr>proc := p\<rparr>)) (\<lambda>r. Ok (h :: 'h, r)))
          (bindO (finish_load_mast_forest_from_dyn_start Q stq n g (t\<lparr>proc := q\<rparr>)) (\<lambda>r. Ok (h, r)))"
        unfolding finish_load_mast_forest_from_dyn_start_def
        by (intro tagged weaken [of g]) (auto intro: finalize_plain_sim simp del: sim.simps)
    qed
  next
    case (LoadMastForestFromExternal n d s)
    then obtain t e where t: "r' = LoadMastForestFromExternal n d t" "exec_rel R s t"
        "get_node_by_id (current_forest s) n = Some (External e)"
      using assms(1) by auto
    then have R: "R (proc s) (proc t)" and same: "current_forest t = current_forest s"
      by (simp_all add: exec_rel_def)
    show ?thesis
      unfolding handle_break_def LoadMastForestFromExternal t(1) flow.case
    proof (rule sim_bind [OF load_sim [OF R assms(2)]], clarify)
      fix h p m g q assume "R p q" "wf_forest g" and m: "m < length (mf_nodes g)"
      note rel = enter_forest_rel [OF t(2) this]
      have "sim (flow_rel (exec_rel R) U) (finish_load_mast_forest_from_external m g n (s\<lparr>proc := p\<rparr>))
          (finish_load_mast_forest_from_external m g n (t\<lparr>proc := q\<rparr>))"
        using m t(3) same U(2) rel
        by (simp add: finish_load_mast_forest_from_external_def option_map_break_reason_def unwrap_external_def
            LoadMastForestFromExternal leaves_forest_def get_node_by_id_def exec_in_def split: if_splits)
      then show "sim (rel_prod (=) (flow_rel (exec_rel R) U))
          (bindO (finish_load_mast_forest_from_external m g n (s\<lparr>proc := p\<rparr>)) (\<lambda>r. Ok (h :: 'h, r)))
          (bindO (finish_load_mast_forest_from_external m g n (t\<lparr>proc := q\<rparr>)) (\<lambda>r. Ok (h, r)))"
        by (rule tagged)
    qed
  qed (use assms(1) in \<open>auto simp: handle_break_def\<close>)
qed

end

end
