(* ===== verification/Run_Loop.thy ===== *)
theory Run_Loop
  imports Run_Sim
begin

text \<open>
  The loops as iterations. \<open>next_state\<close> is one round: it pops a continuation, runs its handler and, when the handler leaves
  the inner loop, does what the outer loop does. A run that ends after some number of rounds is a run that \<open>run_impl\<close>
  returns; two machines that are related go through the same rounds.
\<close>

section \<open>Rounds\<close>

type_synonym ('h, 'p) run_result = "('h \<times> 'p exec_state \<times> run_end) exec"

definition after_break :: "('h \<times> 'p exec_state flow) exec \<Rightarrow> ('h, 'p) run_result + 'h \<times> 'p exec_state" where
  "after_break m =
    (case m of
       Ok (h, Continue s) \<Rightarrow> Inr (h, s)
     | Ok (h, Stopped k s) \<Rightarrow> Inl (Ok (h, s, StoppedAt k))
     | Err e \<Rightarrow> Inl (Err e)
     | _ \<Rightarrow> Inl Panic)"

definition next_state ::
    "'d env \<Rightarrow> (('d, 'x) sys_state_scheme, 'd) observer \<Rightarrow> ('d, 'h) host \<Rightarrow> ('d, 'x) sys_state_scheme processor
      \<Rightarrow> ('d, 'x) sys_state_scheme stopper \<Rightarrow> kernel \<Rightarrow> 'h \<times> ('d, 'x) sys_state_scheme exec_state
      \<Rightarrow> ('h, ('d, 'x) sys_state_scheme) run_result + 'h \<times> ('d, 'x) sys_state_scheme exec_state" where
  "next_state E V H P stp K x =
    (let (h, s) = x in
     case conts s of
       [] \<Rightarrow> Inl (final_outputs V h s)
     | k # ks \<Rightarrow>
         after_break (bindO (execute_continuation P stp K k (s\<lparr>conts := ks\<rparr>)) (handle_break E V H P stp h)))"

fun rounds ::
    "'d env \<Rightarrow> (('d, 'x) sys_state_scheme, 'd) observer \<Rightarrow> ('d, 'h) host \<Rightarrow> ('d, 'x) sys_state_scheme processor
      \<Rightarrow> ('d, 'x) sys_state_scheme stopper \<Rightarrow> kernel \<Rightarrow> nat \<Rightarrow> 'h \<times> ('d, 'x) sys_state_scheme exec_state
      \<Rightarrow> ('h, ('d, 'x) sys_state_scheme) run_result + 'h \<times> ('d, 'x) sys_state_scheme exec_state" where
  "rounds E V H P stp K 0 x = Inr x"
| "rounds E V H P stp K (Suc n) x =
    (case next_state E V H P stp K x of Inl r \<Rightarrow> Inl r | Inr y \<Rightarrow> rounds E V H P stp K n y)"

lemma handle_break_plain [simp]:
  "handle_break E V H P stp h (Continue s) = Ok (h, Continue s)"
  "handle_break E V H P stp h (Stopped k s) = Ok (h, Stopped k s)"
  by (simp_all add: handle_break_def)

lemma run_impl_round:
  "run_impl E V H P stp K h s =
    (case next_state E V H P stp K (h, s) of Inl r \<Rightarrow> Some r | Inr (h, s) \<Rightarrow> run_impl E V H P stp K h s)"
proof (cases "conts s")
  case Nil
  then show ?thesis
    by (subst run_impl.simps, subst execute_impl.simps) (simp add: next_state_def)
next
  case (Cons k ks)
  have inner: "execute_impl P stp K s =
      (case execute_continuation P stp K k (s\<lparr>conts := ks\<rparr>) of Ok (Continue s) \<Rightarrow> execute_impl P stp K s | r \<Rightarrow> Some r)"
    by (subst execute_impl.simps) (simp add: Cons)
  show ?thesis
  proof (cases "\<exists>s'. execute_continuation P stp K k (s\<lparr>conts := ks\<rparr>) = Ok (Continue s')")
    case True
    then obtain s' where s': "execute_continuation P stp K k (s\<lparr>conts := ks\<rparr>) = Ok (Continue s')" ..
    have "run_impl E V H P stp K h s = run_impl E V H P stp K h s'"
      by (subst (1 2) run_impl.simps) (simp add: inner s')
    then show ?thesis
      by (simp add: next_state_def Cons s' after_break_def)
  next
    case False
    then have "execute_impl P stp K s = Some (execute_continuation P stp K k (s\<lparr>conts := ks\<rparr>))"
      unfolding inner by (auto split: outcome.splits flow.splits)
    then show ?thesis
      using False
      by (subst run_impl.simps)
        (auto simp: next_state_def Cons after_break_def split: outcome.splits flow.splits prod.splits)
  qed
qed

lemma run_impl_rounds:
  "rounds E V H P stp K n (h, s) = Inl r \<Longrightarrow> run_impl E V H P stp K h s = Some r"
  "rounds E V H P stp K n (h, s) = Inr (h', s') \<Longrightarrow> run_impl E V H P stp K h s = run_impl E V H P stp K h' s'"
proof (induction n arbitrary: h s)
  case (Suc n)
  { case 1 with Suc.IH(1) show ?case
      by (subst run_impl_round) (auto split: sum.splits) }
  { case 2 with Suc.IH(2) show ?case
      by (subst run_impl_round) (auto split: sum.splits) }
qed simp_all

text \<open>The finishing handlers continue or stop.\<close>

definition settled :: "'s flow \<Rightarrow> bool" where
  "settled r = (case r of Continue _ \<Rightarrow> True | Stopped _ _ \<Rightarrow> True | _ \<Rightarrow> False)"

lemma settled_simps [simp]: "settled (Continue s)" "settled (Stopped k s)"
  by (simp_all add: settled_def)

lemma finalize_settled: "finalize_clock_cycle_with_continuation P stp k s = Ok r \<Longrightarrow> settled r"
  by (auto simp: finalize_clock_cycle_with_continuation_def Let_def bindO_eq_Ok split: option.splits)

lemma finish_emit_settled: "finish_emit_op_execution P stp k s = Ok r \<Longrightarrow> settled r"
  unfolding finish_emit_op_execution_def bind_flow_def bindO_eq_Ok
proof (elim exE conjE)
  fix x assume "finalize_clock_cycle_with_continuation P stp (Ok (Some k)) s = Ok x"
      "(case x of Continue s \<Rightarrow> Ok (Continue (push_cont k s)) | _ \<Rightarrow> Ok x) = Ok r"
  then show "settled r" by (cases x) (auto dest: finalize_settled)
qed

lemma handle_break_settled: "handle_break E V H P stp h r = Ok (h', r') \<Longrightarrow> settled r'"
  by (cases r) (auto simp: handle_break_def bindO_eq_Ok finish_load_mast_forest_from_dyn_start_def finalize_clock_cycle_def
      finish_load_mast_forest_from_external_def split: if_splits dest: finalize_settled finish_emit_settled)

section \<open>Two machines\<close>

abbreviation end_rel ::
    "('p \<Rightarrow> 'q \<Rightarrow> bool) \<Rightarrow> 'h \<times> 'p exec_state \<times> run_end \<Rightarrow> 'h \<times> 'q exec_state \<times> run_end \<Rightarrow> bool" where
  "end_rel R \<equiv> rel_prod (=) (rel_prod (exec_rel R) (=))"

context run_sim
begin

lemma next_state_sim:
  assumes "exec_rel R s t" "host_ok H"
  shows "rel_sum (sim (end_rel R)) (rel_prod (=) (exec_rel R)) (next_state E V H P stp K (h, s)) (next_state E W H Q stq K (h, t))"
proof -
  have same: "conts t = conts s" "R (proc s) (proc t)" using assms(1) by (simp_all add: exec_rel_def)
  show ?thesis
  proof (cases "conts s")
    case Nil
    then show ?thesis
      using same(1) view_law [OF same(2)] assms(1)
      by (auto simp: next_state_def final_outputs_def Let_def split: option.split)
  next
    case (Cons k ks)
    have "sim (rel_prod (=) (flow_rel (exec_rel R) (exec_rel R)))
        (bindO (execute_continuation P stp K k (s\<lparr>conts := ks\<rparr>)) (handle_break E V H P stp h))
        (bindO (execute_continuation Q stq K k (t\<lparr>conts := ks\<rparr>)) (handle_break E W H Q stq h))"
      by (rule sim_bind [OF execute_continuation_sim [OF assms(1) Cons] handle_break_sim [OF _ assms(2)]]) (auto intro: cycle_rel)
    moreover have "rel_sum (sim (end_rel R)) (rel_prod (=) (exec_rel R)) (after_break m) (after_break n)"
      if "sim (rel_prod (=) (flow_rel (exec_rel R) (exec_rel R))) m n" "\<And>h r. m = Ok (h, r) \<Longrightarrow> settled r" for m n :: "('h \<times> _) exec"
      using that by (elim sim_cases) (auto simp: after_break_def rel_prod_sel settled_def split: flow.splits)
    moreover have "settled r" if "bindO (execute_continuation P stp K k (s\<lparr>conts := ks\<rparr>)) (handle_break E V H P stp h) = Ok (h', r)" for h' r
      using that by (auto simp: bindO_eq_Ok intro: handle_break_settled)
    ultimately have "rel_sum (sim (end_rel R)) (rel_prod (=) (exec_rel R))
        (after_break (bindO (execute_continuation P stp K k (s\<lparr>conts := ks\<rparr>)) (handle_break E V H P stp h)))
        (after_break (bindO (execute_continuation Q stq K k (t\<lparr>conts := ks\<rparr>)) (handle_break E W H Q stq h)))"
      by blast
    then show ?thesis
      by (simp add: next_state_def same(1) Cons)
  qed
qed

lemma rounds_sim:
  assumes "exec_rel R s t" "host_ok H"
  shows "rel_sum (sim (end_rel R)) (rel_prod (=) (exec_rel R)) (rounds E V H P stp K n (h, s)) (rounds E W H Q stq K n (h, t))"
  using assms(1)
proof (induction n arbitrary: h s t)
  case (Suc n)
  from next_state_sim [OF Suc.prems assms(2), of E K h] show ?case
    using Suc.IH by (cases rule: rel_sum.cases) (auto elim!: rel_prod.cases)
qed simp

end

end
