(* ===== verification/Step_Run.thy ===== *)
theory Step_Run
  imports Run_Loop
begin

text \<open>
  Stepping is running. A run that stops after every clock cycle leaves a continuation to resume with; in the middle of a
  block this is a position in the block. Running on from the state it stopped in with that continuation on top is
  what the run that does not stop does. Hence a program executed step by step ends as it ends when it is run at once.
\<close>

section \<open>The two stoppers\<close>

lemma finalize_step:
  assumes "finalize_clock_cycle_with_continuation P step_stopper (Ok c) s = m"
  shows "case m of
      Ok r \<Rightarrow> r = Stopped c (s\<lparr>proc := sys_increment_clock (system P) (proc s)\<rparr>) \<and>
        finalize_clock_cycle_with_continuation P never_stopper k s =
          Ok (Continue (s\<lparr>proc := sys_increment_clock (system P) (proc s)\<rparr>))
    | Err e \<Rightarrow> finalize_clock_cycle_with_continuation P never_stopper k s = Err e
    | Panic \<Rightarrow> False"
  unfolding assms [symmetric]
  by (simp add: finalize_clock_cycle_with_continuation_def never_stopper_def step_stopper_def check_if_max_cycles_exceeded_def
      check_if_continuation_stack_too_large_def Let_def)

text \<open>How much of a block is left at a continuation.\<close>

definition batch_sizes :: "mast_forest \<Rightarrow> node_id \<Rightarrow> nat list" where
  "batch_sizes f n =
    (case get_node_by_id f n of Some (Block b) \<Rightarrow> map (\<lambda>x. length (ob_ops x) + 2) (op_batches b) | _ \<Rightarrow> [])"

fun left_in_block :: "mast_forest \<Rightarrow> continuation \<Rightarrow> nat" where
  "left_in_block f (StartNode n) = sum_list (batch_sizes f n)"
| "left_in_block f (ResumeBasicBlock n i j) = sum_list (drop (Suc i) (batch_sizes f n)) + (batch_sizes f n ! i - (j + 2)) + 1"
| "left_in_block f (Respan n i) = sum_list (drop i (batch_sizes f n))"
| "left_in_block f _ = 0"

text \<open>What a step \<open>m\<close> says of the uninterrupted handler \<open>n\<close>, for the continuation \<open>k\<close> in forest \<open>f\<close>.\<close>

definition resumes ::
    "('d, 'x) sys_state_scheme processor \<Rightarrow> kernel \<Rightarrow> mast_forest \<Rightarrow> continuation
      \<Rightarrow> ('d, 'x) sys_state_scheme exec_state flow exec \<Rightarrow> ('d, 'x) sys_state_scheme exec_state flow exec \<Rightarrow> bool" where
  "resumes P K f k m n \<longleftrightarrow>
    (case m of
       Ok (Stopped None s) \<Rightarrow> n = Ok (Continue s)
     | Ok (Stopped (Some c) s) \<Rightarrow>
         n = execute_continuation P never_stopper K c s \<and> left_in_block f c < left_in_block f k \<and> increments_clk c \<and>
         current_forest s = f
     | Ok r \<Rightarrow> n = Ok r
     | Err e \<Rightarrow> n = Err e
     | Panic \<Rightarrow> True)"

lemma resumes_simps [simp]:
  "resumes P K f k (Err e) n = (n = Err e)" "resumes P K f k Panic n" "resumes P K f k (Ok (Continue s)) n = (n = Ok (Continue s))"
  "resumes P K f k (Ok (EmitBreak c s)) n = (n = Ok (EmitBreak c s))"
  "resumes P K f k (Ok (LoadMastForestFromDyn d s)) n = (n = Ok (LoadMastForestFromDyn d s))"
  "resumes P K f k (Ok (LoadMastForestFromExternal i d s)) n = (n = Ok (LoadMastForestFromExternal i d s))"
  "resumes P K f k (Ok (Stopped None s)) n = (n = Ok (Continue s))"
  by (simp_all add: resumes_def)

lemma resumes_bind [intro!]: "(\<And>x. resumes P K f k (m' x) (n' x)) \<Longrightarrow> resumes P K f k (bindO m m') (bindO m n')"
  by (cases m) simp_all

lemma resumes_finalize [intro!]:
  "resumes P K f k (finalize_clock_cycle_with_continuation P step_stopper (Ok None) s)
    (finalize_clock_cycle_with_continuation P never_stopper (Ok None) s)"
  using finalize_step [OF refl, where P = P and c = None and s = s and k = "Ok None"] by (auto split: outcome.splits)

lemma resumes_finalize_plain [intro!]:
  "resumes P K f k (finalize_clock_cycle P step_stopper s) (finalize_clock_cycle P never_stopper s)"
  unfolding finalize_clock_cycle_def ..

text \<open>A clock cycle inside a block.\<close>

lemma resumes_cycle:
  assumes "current_forest s = f" "\<And>s'. current_forest s' = f \<Longrightarrow> go s' = execute_continuation P never_stopper K c s'"
    "left_in_block f c < left_in_block f k" "increments_clk c"
  shows "resumes P K f k
    (bind_flow (finalize_clock_cycle_with_continuation P step_stopper (Ok (Some c)) s) other)
    (bind_flow (finalize_clock_cycle_with_continuation P never_stopper x s) go)"
  using finalize_step [OF refl, where P = P and c = "Some c" and s = s and k = x] assms
  by (auto simp: bind_flow_def resumes_def split: outcome.splits)

lemma bind_flow_assoc: "bind_flow (bind_flow m f) g = bind_flow m (\<lambda>s. bind_flow (f s) g)"
  by (cases m) (auto simp: bind_flow_def split: flow.splits)

lemma bind_flow_simps [simp]:
  "bind_flow (Ok (Continue s)) f = f s" "bind_flow (Err e) f = Err e" "bind_flow Panic f = Panic"
  "bind_flow (Ok (EmitBreak c s)) f = Ok (EmitBreak c s)"
  "bind_flow (bindO m g) f = bindO m (\<lambda>x. bind_flow (g x) f)"
  by (simp_all add: bind_flow_def) (cases m; simp add: bind_flow_def)

section \<open>Blocks\<close>

lemma from_batch_unfold:
  "execute_basic_block_node_from_batch P stp b n i s =
    (if i < length (op_batches b)
     then bind_flow (finalize_clock_cycle_with_continuation P stp (Ok (Some (ResumeBasicBlock n i 0))) s)
       (execute_basic_block_node_from_op_idx P stp b n i 0)
     else finish_basic_block P stp s)"
  by (simp add: execute_basic_block_node_from_batch_def [abs_def] execute_basic_block_node_from_op_idx_def [abs_def] upt_conv_Cons bind_flow_assoc)

lemma resume_simps:
  assumes "get_node_by_id (current_forest s) n = Some (Block b)"
  shows "execute_continuation P stp K (ResumeBasicBlock n i j) s = execute_basic_block_node_from_op_idx P stp b n i j s"
    "execute_continuation P stp K (Respan n i) s = execute_basic_block_node_from_batch P stp b n i s"
    "execute_continuation P stp K (FinishBasicBlock n) s = finish_basic_block P stp s"
  using assms by (simp_all add: execute_continuation_def unwrap_node_def unwrap_basic_block_def)

lemma batch_sizes_drop:
  assumes "get_node_by_id f n = Some (Block b)" "i < length (op_batches b)"
  shows "drop i (batch_sizes f n) = (length (ob_ops (op_batches b ! i)) + 2) # drop (Suc i) (batch_sizes f n)"
    "batch_sizes f n ! i = length (ob_ops (op_batches b ! i)) + 2"
  using assms by (simp_all add: batch_sizes_def drop_map Cons_nth_drop_Suc [symmetric])

lemma after_operation:
  assumes "get_node_by_id f n = Some (Block b)" "i < length (op_batches b)" "j < length (ob_ops (op_batches b ! i))"
  obtains c where "(get_continuation_after_executing_operation b n i j :: continuation exec) = Ok c"
    "left_in_block f c < left_in_block f (ResumeBasicBlock n i j)" "increments_clk c"
    "\<And>s. current_forest s = f \<Longrightarrow>
      bind_flow (execute_ops P never_stopper b n i (Suc j) (drop (Suc j) (ob_ops (op_batches b ! i))) s)
        (execute_basic_block_node_from_batch P never_stopper b n (i + 1)) = execute_continuation P never_stopper K c s"
proof -
  let ?ops = "ob_ops (op_batches b ! i)"
  consider "Suc j < length ?ops" | "Suc j = length ?ops" "i + 1 < length (op_batches b)" | "Suc j = length ?ops" "i + 1 = length (op_batches b)"
    using assms(2,3) by linarith
  then show thesis
  proof cases
    case 1
    show thesis
      using assms 1 batch_sizes_drop [OF assms(1,2)]
      by (intro that [of "ResumeBasicBlock n i (j + 1)"])
        (auto simp: get_continuation_after_executing_operation_def fetch_def usub_def resume_simps
          execute_basic_block_node_from_op_idx_def execute_op_batch_def)
  next
    case 2
    show thesis
      using assms 2 batch_sizes_drop [OF assms(1,2)]
      by (intro that [of "Respan n (i + 1)"])
        (auto simp: get_continuation_after_executing_operation_def fetch_def usub_def resume_simps)
  next
    case 3
    show thesis
      using assms 3 batch_sizes_drop [OF assms(1,2)]
      by (intro that [of "FinishBasicBlock n"])
        (auto simp: get_continuation_after_executing_operation_def fetch_def usub_def resume_simps from_batch_unfold)
  qed
qed

lemma resumes_from_batch:
  assumes "get_node_by_id (current_forest s) n = Some (Block b)" "sum_list (drop i (batch_sizes (current_forest s) n)) \<le> left_in_block (current_forest s) k"
  shows "resumes P K (current_forest s) k (execute_basic_block_node_from_batch P step_stopper b n i s)
    (execute_basic_block_node_from_batch P never_stopper b n i s)"
proof (cases "i < length (op_batches b)")
  case True
  then show ?thesis
    using assms batch_sizes_drop [OF assms(1) True] by (auto simp: from_batch_unfold resume_simps intro!: resumes_cycle)
next
  case False
  then show ?thesis by (auto simp: from_batch_unfold finish_basic_block_def)
qed

lemma resumes_from_op_idx:
  assumes "get_node_by_id (current_forest s) n = Some (Block b)" "i < length (op_batches b)"
  shows "resumes P K (current_forest s) (ResumeBasicBlock n i j) (execute_basic_block_node_from_op_idx P step_stopper b n i j s)
    (execute_basic_block_node_from_op_idx P never_stopper b n i j s)"
proof (cases "j < length (ob_ops (op_batches b ! i))")
  case True
  then have ops: "drop j (ob_ops (op_batches b ! i)) = (ob_ops (op_batches b ! i) ! j) # drop (Suc j) (ob_ops (op_batches b ! i))"
    by (simp add: Cons_nth_drop_Suc)
  obtain c where c: "(get_continuation_after_executing_operation b n i j :: continuation exec) = Ok c"
    "left_in_block (current_forest s) c < left_in_block (current_forest s) (ResumeBasicBlock n i j)" "increments_clk c"
    "\<And>s'. current_forest s' = current_forest s \<Longrightarrow>
      bind_flow (execute_ops P never_stopper b n i (Suc j) (drop (Suc j) (ob_ops (op_batches b ! i))) s')
        (execute_basic_block_node_from_batch P never_stopper b n (i + 1)) = execute_continuation P never_stopper K c s'"
    by (rule after_operation [OF assms True, where P = P and K = K]) blast
  have "resumes P K (current_forest s) (ResumeBasicBlock n i j)
      (bind_flow (finalize_clock_cycle_with_continuation P step_stopper (Ok (Some c)) (s\<lparr>proc := p\<rparr>)) other)
      (bind_flow (finalize_clock_cycle_with_continuation P never_stopper (Ok (Some c)) (s\<lparr>proc := p\<rparr>))
        (\<lambda>s. bind_flow (execute_ops P never_stopper b n i (Suc j) (drop (Suc j) (ob_ops (op_batches b ! i))) s)
          (execute_basic_block_node_from_batch P never_stopper b n (i + 1))))" for p other
    by (rule resumes_cycle [OF _ c(4) c(2,3)]) simp_all
  then show ?thesis
    using assms(2) by (auto simp: execute_basic_block_node_from_op_idx_def execute_op_batch_def fetch_def ops c(1) bind_flow_assoc split: prod.splits)
next
  case False
  then show ?thesis
    using resumes_from_batch [OF assms(1), of "i + 1" "ResumeBasicBlock n i j" P K] assms(2)
    by (simp add: execute_basic_block_node_from_op_idx_def execute_op_batch_def fetch_def)
qed

lemma resumes_from_start:
  assumes "get_node_by_id (current_forest s) n = Some (Block b)" "op_batches b \<noteq> []"
  shows "resumes P K (current_forest s) (StartNode n) (execute_basic_block_node_from_start P step_stopper b n s)
    (execute_basic_block_node_from_start P never_stopper b n s)"
proof -
  have go: "(\<lambda>s. bind_flow (execute_op_batch P never_stopper b n 0 0 s) (execute_basic_block_node_from_batch P never_stopper b n (Suc 0))) =
      execute_basic_block_node_from_op_idx P never_stopper b n 0 0"
    by (simp add: execute_basic_block_node_from_op_idx_def [abs_def])
  have "left_in_block (current_forest s) (ResumeBasicBlock n 0 0) < left_in_block (current_forest s) (StartNode n)"
    using assms(2) batch_sizes_drop(2) [OF assms(1), of 0] arg_cong [OF batch_sizes_drop(1) [OF assms(1), of 0], of sum_list]
    by simp
  then show ?thesis
    using assms by (auto simp: execute_basic_block_node_from_start_def go resume_simps intro!: resumes_cycle simp del: left_in_block.simps)
qed

section \<open>Handlers\<close>

lemmas node_handlers = start_join_node_def start_split_node_def start_loop_node_def start_call_node_def start_dyn_node_def
  finish_loop_node_def finish_dyn_node_def finish_join_node_def finish_split_node_def finish_call_node_def finish_basic_block_def

lemma resumes_nodes [intro!]:
  "resumes P K f k (start_join_node P step_stopper j n s) (start_join_node P never_stopper j n s)"
  "resumes P K f k (start_split_node P step_stopper sn n s) (start_split_node P never_stopper sn n s)"
  "resumes P K f k (start_loop_node P step_stopper l n s) (start_loop_node P never_stopper l n s)"
  "resumes P K f k (start_call_node P step_stopper K c n s) (start_call_node P never_stopper K c n s)"
  "resumes P K f k (start_dyn_node P step_stopper n s) (start_dyn_node P never_stopper n s)"
  "resumes P K f k (finish_loop_node P step_stopper n s) (finish_loop_node P never_stopper n s)"
  "resumes P K f k (finish_dyn_node P step_stopper n s) (finish_dyn_node P never_stopper n s)"
  "resumes P K f k (finish_join_node P step_stopper s) (finish_join_node P never_stopper s)"
  "resumes P K f k (finish_split_node P step_stopper s) (finish_split_node P never_stopper s)"
  "resumes P K f k (finish_call_node P step_stopper s) (finish_call_node P never_stopper s)"
  "resumes P K f k (finish_basic_block P step_stopper s) (finish_basic_block P never_stopper s)"
  by (auto simp: node_handlers Let_def split: option.split)

lemma resumes_continuation:
  assumes "wf_forest (current_forest s)" "ok_cont (current_forest s) k"
  shows "resumes P K (current_forest s) k (execute_continuation P step_stopper K k s) (execute_continuation P never_stopper K k s)"
proof (cases k)
  case (StartNode n)
  then obtain node where node: "get_node_by_id (current_forest s) n = Some node"
    using assms(2) by (auto simp: get_node_by_id_def)
  show ?thesis
  proof (cases node)
    case (Block b)
    with resumes_from_start [of s n b P K] node wf_forestD(2) [OF assms(1) node] StartNode show ?thesis
      by (simp add: execute_continuation_def start_node_def unwrap_node_def)
  qed (auto simp: execute_continuation_def start_node_def unwrap_node_def node StartNode execute_external_node_def
      option_map_break_reason_def unwrap_external_def)
next
  case (ResumeBasicBlock n i j)
  with assms(2) resumes_from_op_idx show ?thesis
    by (auto simp: resume_simps split: option.splits mast_node.splits)
next
  case (Respan n i)
  with assms(2) resumes_from_batch [where k = "Respan n i" and s = s] show ?thesis
    by (auto simp: resume_simps split: option.splits mast_node.splits)
qed (auto simp: execute_continuation_def)

text \<open>What the outer loop does after a break.\<close>

abbreviation with_cont :: "continuation option \<Rightarrow> 'p exec_state \<Rightarrow> 'p exec_state" where
  "with_cont c s \<equiv> (case c of Some k \<Rightarrow> push_cont k s | None \<Rightarrow> s)"

definition resumes_break :: "('h \<times> 'p exec_state flow) exec \<Rightarrow> ('h \<times> 'p exec_state flow) exec \<Rightarrow> bool" where
  "resumes_break m n \<longleftrightarrow>
    (case m of
       Ok (h, Stopped c s) \<Rightarrow> n = Ok (h, Continue (with_cont c s))
     | Ok (h, r) \<Rightarrow> n = Ok (h, r)
     | Err e \<Rightarrow> n = Err e
     | Panic \<Rightarrow> True)"

lemma resumes_break_bind [intro!]: "(\<And>x. resumes_break (m' x) (n' x)) \<Longrightarrow> resumes_break (bindO m m') (bindO m n')"
  by (cases m) (simp_all add: resumes_break_def)

lemma resumes_break_refl: "(\<forall>c s. r \<noteq> Stopped c s) \<Longrightarrow> resumes_break (Ok (h, r)) (Ok (h, r))"
  by (cases r) (simp_all add: resumes_break_def)

lemma resumes_break_cycle [intro!]:
  "resumes_break (bindO (finish_emit_op_execution P step_stopper k s) (\<lambda>r. Ok (h, r)))
    (bindO (finish_emit_op_execution P never_stopper k s) (\<lambda>r. Ok (h, r)))"
  "resumes_break (bindO (finalize_clock_cycle P step_stopper s) (\<lambda>r. Ok (h, r)))
    (bindO (finalize_clock_cycle P never_stopper s) (\<lambda>r. Ok (h, r)))"
  using finalize_step [OF refl, where P = P and c = "Some k" and s = s and k = "Ok (Some k)"]
    finalize_step [OF refl, where P = P and c = None and s = s and k = "Ok None"]
  by (auto simp: finish_emit_op_execution_def finalize_clock_cycle_def bind_flow_def resumes_break_def split: outcome.splits)

lemma resumes_external:
  "resumes_break (bindO (finish_load_mast_forest_from_external m g n s) (\<lambda>r. Ok (h, r)))
    (bindO (finish_load_mast_forest_from_external m g n s) (\<lambda>r. Ok (h, r)))"
proof (cases "finish_load_mast_forest_from_external m g n s")
  case (Ok r)
  then have "\<exists>s'. r = Continue s'"
    by (auto simp: finish_load_mast_forest_from_external_def bindO_eq_Ok split: if_splits)
  then show ?thesis using Ok by (auto intro: resumes_break_refl)
qed (simp_all add: resumes_break_def)

lemma resumes_handle_break:
  assumes "\<forall>c s. r \<noteq> Stopped c s"
  shows "resumes_break (handle_break E V H P step_stopper h r) (handle_break E V H P never_stopper h r)"
proof (cases r)
  case (LoadMastForestFromExternal n d s)
  then show ?thesis
    by (simp add: handle_break_def case_prod_unfold) (rule resumes_break_bind resumes_external)+
qed (use assms in \<open>auto simp: handle_break_def finish_load_mast_forest_from_dyn_start_def intro: resumes_break_refl\<close>)

section \<open>Steps and rounds\<close>

text \<open>A round of the run that stops, against a round of the run that does not.\<close>

lemma step_round:
  assumes "wf_exec s"
  shows "case next_state E V H P step_stopper K (h, s) of
      Inr x \<Rightarrow> next_state E V H P never_stopper K (h, s) = Inr x
    | Inl (Ok (h', s', StoppedAt c)) \<Rightarrow>
        next_state E V H P never_stopper K (h, s) = Inr (h', with_cont c s') \<or>
        (\<exists>k ks j. conts s = k # ks \<and> c = Some j \<and> increments_clk j \<and> h' = h \<and>
          left_in_block (current_forest s') j < left_in_block (current_forest s) k \<and>
          next_state E V H P never_stopper K (h, s) = next_state E V H P never_stopper K (h, push_cont j s'))
    | Inl Panic \<Rightarrow> True
    | Inl r \<Rightarrow> next_state E V H P never_stopper K (h, s) = Inl r"
proof (cases "conts s")
  case Nil
  then show ?thesis
    by (auto simp: next_state_def final_outputs_def Let_def split: option.splits)
next
  case (Cons k ks)
  let ?s = "s\<lparr>conts := ks\<rparr>"
  let ?m = "execute_continuation P step_stopper K k ?s" and ?n = "execute_continuation P never_stopper K k ?s"
  have step: "next_state E V H P stp K (h, s) =
      after_break (bindO (execute_continuation P stp K k ?s) (handle_break E V H P stp h))" for stp
    by (simp add: next_state_def Cons)
  have r: "resumes P K (current_forest s) k ?m ?n"
    using resumes_continuation [of ?s k P K] assms by (simp add: wf_exec_def Cons)
  show ?thesis
  proof (cases ?m)
    case (Ok x)
    show ?thesis
    proof (cases "\<exists>c s'. x = Stopped c s'")
      case True
      then obtain c s' where x: "x = Stopped c s'" by blast
      then show ?thesis
        using r Cons Ok
        by (cases c) (auto simp: step resumes_def after_break_def next_state_def)
    next
      case False
      then have "?n = Ok x"
        using r Ok by (cases x) (auto simp: resumes_def)
      then show ?thesis
        using resumes_handle_break [of x E V H P h] False Ok
        by (auto simp: step resumes_break_def after_break_def split: outcome.splits flow.splits)
    qed
  qed (use r in \<open>simp_all add: step after_break_def\<close>)
qed

text \<open>Leaving forests at once is leaving them round by round.\<close>

lemma leave_forests_rounds:
  assumes "rounds E V H P stp K n (h, s) = Inl r"
  shows "\<exists>m \<le> n. rounds E V H P stp K m (h, resume_context None s) = Inl r"
  using assms
proof (induction "conts s" arbitrary: s n)
  case Nil
  then have "resume_context None s = s"
    by (cases s) (simp add: resume_context_def)
  then show ?case using Nil by auto
next
  case (Cons k ks)
  show ?case
  proof (cases "\<exists>g. k = EnterForest g")
    case True
    then obtain g where "k = EnterForest g" by blast
    then have g: "conts s = EnterForest g # ks"
      using Cons.hyps(2) by simp
    let ?s = "s\<lparr>conts := ks, current_forest := g\<rparr>"
    obtain n' where n': "n = Suc n'"
      using Cons.prems by (cases n) simp_all
    have "next_state E V H P stp K (h, s) = Inr (h, ?s)"
      by (simp add: next_state_def g execute_continuation_def after_break_def)
    with Cons.prems n' have "rounds E V H P stp K n' (h, ?s) = Inl r" by simp
    then obtain m where "m \<le> n'" "rounds E V H P stp K m (h, resume_context None ?s) = Inl r"
      using Cons.hyps(1) [of ?s n'] by auto
    moreover have "resume_context None s = resume_context None ?s"
      by (simp add: resume_context_def g split: prod.split)
    ultimately show ?thesis
      using n' by (intro exI [of _ m]) simp
  next
    case False
    then have "resume_context None s = s"
      using Cons.hyps(2) by (cases s; cases k) (auto simp: resume_context_def)
    then show ?thesis using Cons.prems by auto
  qed
qed

text \<open>The rounds of a loop of steps.\<close>

lemma step_loop_round:
  "step_loop E V H P K h s =
    (case next_state E V H P step_stopper K (h, s) of
       Inr (h', s') \<Rightarrow> step_loop E V H P K h' s'
     | Inl (Ok (h', s', StoppedAt c)) \<Rightarrow> step_loop E V H P K h' (resume_context c s')
     | Inl (Ok (h', s', Outputs _)) \<Rightarrow> Some (bindO (current_stack_outputs V (proc s')) (\<lambda>out. Ok (h', s', out)))
     | Inl (Err e) \<Rightarrow> Some (Err e)
     | Inl Panic \<Rightarrow> Some Panic)"
proof -
  have "step_sync E V H P K h s =
    (case next_state E V H P step_stopper K (h, s) of
       Inr (h', s') \<Rightarrow> step_sync E V H P K h' s'
     | Inl r \<Rightarrow> Some (bindO r (\<lambda>(h, s, e).
         case e of
           Outputs _ \<Rightarrow> Ok (h, s, False)
         | StoppedAt k \<Rightarrow> Ok (h, resume_context k s, True))))"
    unfolding step_sync_def by (subst run_impl_round) (auto split: sum.splits)
  then show ?thesis
    by (subst step_loop.simps) (auto split: sum.splits outcome.splits run_end.splits simp: step_loop.simps [of E V H P K])
qed

section \<open>The state to resume from\<close>

lemma leave_forests_wf:
  "leave_forests ks f = (ks', f') \<Longrightarrow> wf_conts f ks \<Longrightarrow> wf_forest f \<Longrightarrow> wf_conts f' ks' \<and> wf_forest f'"
  by (induction ks f rule: leave_forests.induct) auto

lemma resume_rel:
  assumes "exec_rel R s t" "\<And>k. c = Some k \<Longrightarrow> ok_cont (current_forest s) k \<and> increments_clk k"
  shows "exec_rel R (resume_context c s) (resume_context c t)"
proof -
  let ?s = "with_cont c s" and ?t = "with_cont c t"
  have "exec_rel R ?s ?t"
    using assms by (auto simp: exec_rel_def wf_exec_def split: option.split)
  then show ?thesis
    using leave_forests_wf [of "conts ?s" "current_forest ?s"]
    by (auto simp: resume_context_def Let_def exec_rel_def wf_exec_def split: prod.split)
qed

context run_sim
begin

lemma stopped_rel:
  assumes "exec_rel R s t" "host_ok H" "next_state E V H P stp K (h, s) = Inl (Ok (h', s', StoppedAt c))"
  shows "\<exists>t'. exec_rel R (resume_context c s') (t' :: ('d, 'y) sys_state_scheme exec_state)"
proof -
  obtain k ks where k: "conts s = k # ks"
    using assms(3) by (cases "conts s") (auto simp: next_state_def final_outputs_def Let_def split: option.splits)
  have "sim (rel_prod (=) (flow_rel (exec_rel R) (exec_rel R)))
      (bindO (execute_continuation P stp K k (s\<lparr>conts := ks\<rparr>)) (handle_break E V H P stp h))
      (bindO (execute_continuation Q stq K k (t\<lparr>conts := ks\<rparr>)) (handle_break E W H Q stq h))"
    by (rule sim_bind [OF execute_continuation_sim [OF assms(1) k] handle_break_sim [OF _ assms(2)]]) (auto intro: cycle_rel)
  moreover have "bindO (execute_continuation P stp K k (s\<lparr>conts := ks\<rparr>)) (handle_break E V H P stp h) = Ok (h', Stopped c s')"
    using assms(3) by (auto simp: next_state_def k after_break_def split: outcome.splits flow.splits)
  ultimately obtain t' where "exec_rel R s' t'" "\<forall>k. c = Some k \<longrightarrow> ok_cont (current_forest s') k \<and> increments_clk k"
    by (auto simp: rel_prod_sel)
  then show ?thesis
    using resume_rel [of R s' t' c] by blast
qed

end

end
