(* ===== verification/Fast_Run.thy ===== *)
theory Fast_Run
  imports Step_Run
begin

text \<open>
  Programs on the fast processor. The contracts of \<open>Exec_Sim\<close> and \<open>Run_Sim\<close> are interpreted on the fast processor and the
  machine on lists, for both stoppers. A second interpretation of the contract of the operations shows that they never
  touch the clock, the context, the saved states or the options. Every round of a run either advances the clock or
  leaves less to do in the current cycle, so a run ends within a number of rounds that follows from \<open>max_cycles\<close>.
\<close>

section \<open>The contracts hold\<close>

lemma word_safe_sim:
  assumes "wf_fast p"
  shows "stack_get_word_safe p 13 = list_word_safe (abs_vm p) 13"
proof -
  let ?t = "stack_top_idx p" and ?st = "fp_stack p"
  have at: "(if i < length (rev (live p)) then rev (live p) ! i else 0) = (if i < ?t then ?st ! (?t - Suc i) else 0)"
    if "i \<le> 16" for i
    using nth_live [OF assms, of i] wf_fastD(1,8) [OF assms] wf_fastD(4) [OF assms, of "?t - Suc i"] that assms by auto
  have ge: "16 \<le> ?t" "?t < length ?st" using wf_fastD(1,2) [OF assms] by auto
  show ?thesis
  proof (cases "?t = 16")
    case True
    then have "slice 0 3 ?st = [?st ! 0, ?st ! 1, ?st ! 2]"
      using ge by (intro nth_equalityI) (auto simp: less_Suc_eq numeral_eq_Suc)
    then show ?thesis
      using True ge at [of 13] at [of 14] at [of 15] at [of 16]
      by (auto simp: stack_get_word_safe_def list_word_safe_def Let_def saturating_add_def usize_max_def WORD_SIZE_def
          fetch_range_def split: if_splits)
  next
    case False
    then have "slice (?t - 17) 4 ?st = [?st ! (?t - 17), ?st ! (?t - 16), ?st ! (?t - 15), ?st ! (?t - 14)]"
      using ge by (intro nth_equalityI) (auto simp: less_Suc_eq numeral_eq_Suc intro!: arg_cong [of _ _ "(!) ?st"])
    then show ?thesis
      using False ge at [of 13] at [of 14] at [of 15] at [of 16]
      by (auto simp: stack_get_word_safe_def list_word_safe_def Let_def saturating_add_def usize_max_def WORD_SIZE_def
          fetch_range_def split: if_splits)
  qed
qed

lemma fast_cycle:
  fixes p :: "'d fast_processor"
  assumes "related p v"
  shows "sim (\<lambda>x y. x = y \<and> (x = None \<or> x = Some c) \<and> related (sys_increment_clock (system (fast E)) p) (sys_increment_clock (system (ref E)) v))
      (never_stopper (sys_increment_clock (system (fast E)) p) cs (Ok c)) (never_stopper (sys_increment_clock (system (ref E)) v) cs (Ok c))"
    "sim (\<lambda>x y. x = y \<and> (x = None \<or> x = Some c) \<and> related (sys_increment_clock (system (fast E)) p) (sys_increment_clock (system (ref E)) v))
      (step_stopper (sys_increment_clock (system (fast E)) p) cs (Ok c)) (step_stopper (sys_increment_clock (system (ref E)) v) cs (Ok c))"
  using fast_system_sim(7) [OF assms, of E]
  by (auto simp: related_def never_stopper_def step_stopper_def check_if_max_cycles_exceeded_def
      check_if_continuation_stack_too_large_def)

lemma fast_machine: "machine_sim (fast E) (ref E) related"
  by (rule fast_ref.machine_sim_axioms)

lemma fast_run_axioms:
  "run_sim_axioms (related :: 'd fast_processor \<Rightarrow> 'd vm \<Rightarrow> bool) fast_observer ref_observer"
proof
  fix p :: "'d fast_processor" and v :: "'d vm" and a d
  assume R: "related p v"
  then have wf: "wf_fast p" and v: "v = abs_vm p" by (simp_all add: related_def)
  show "obs_view ref_observer v = obs_view fast_observer p"
    by (simp add: ref_observer_def fast_observer_def v)
  show "advice_st (obs_view fast_observer p) = advice_st p"
    by (simp add: fast_observer_def)
  show "sim (=) (obs_word_safe fast_observer p 13) (obs_word_safe ref_observer v 13)"
    using word_safe_sim [OF wf] by (simp add: fast_observer_def ref_observer_def v list_word_safe_def Let_def)
  show "advice_st v = advice_st p \<and> memory_st v = memory_st p \<and> ctx v = ctx p"
    by (simp add: v)
  show "wf_advice (advice_st p)"
    using R by (simp add: related_def)
  show "related (p\<lparr>advice_st := a\<rparr>) (v\<lparr>advice_st := a\<rparr>)" if "wf_advice a"
    using R that by (auto simp: related_def wf_fast_def abs_vm_def live_def)
  show "related (p\<lparr>deferred_state := d\<rparr>) (v\<lparr>deferred_state := d\<rparr>)"
    using R by (auto simp: related_def wf_fast_def abs_vm_def live_def)
qed

interpretation fast_run: run_sim "fast E" "ref E" "related :: 'd fast_processor \<Rightarrow> 'd vm \<Rightarrow> bool"
    never_stopper never_stopper related fast_observer ref_observer
  for E :: "'d env"
  by (intro run_sim.intro exec_sim.intro fast_machine fast_run_axioms exec_sim_axioms.intro fast_cycle)

interpretation fast_step: run_sim "fast E" "ref E" "related :: 'd fast_processor \<Rightarrow> 'd vm \<Rightarrow> bool"
    step_stopper step_stopper related fast_observer ref_observer
  for E :: "'d env"
  by (intro run_sim.intro exec_sim.intro fast_machine fast_run_axioms exec_sim_axioms.intro fast_cycle)

section \<open>What operations leave alone\<close>

type_synonym frame = "row_index \<times> context_id \<times> qword \<times> (context_id \<times> qword) list \<times> exec_options \<times> felt list list"

definition frame_of :: "'d vm \<Rightarrow> frame" where
  "frame_of v = (clk v, ctx v, caller_hash v, system_call_state_stack v, options v, saved v)"

definition framed :: "(frame \<Rightarrow> bool) \<Rightarrow> 'd fast_processor \<Rightarrow> 'd vm \<Rightarrow> bool" where
  "framed N p v \<longleftrightarrow> related p v \<and> N (frame_of v)"

lemma framed_related: "framed N p v \<Longrightarrow> related p v"
  by (simp add: framed_def)

lemma sim_framed:
  assumes "framed N p v" "sim related m n" "\<And>w. n = Ok w \<Longrightarrow> frame_of w = frame_of v"
  shows "sim (framed N) m n"
  using assms by (elim sim_cases) (auto simp: framed_def)

lemma sim_framed_op:
  assumes "framed N p v" "sim (rel_op related) m n" "\<And>x w. n = Ok (x, w) \<Longrightarrow> frame_of w = frame_of v"
  shows "sim (rel_op (framed N)) m n"
  using assms by (elim sim_cases) (auto simp: framed_def rel_prod_sel)

lemma vm_stack_framed:
  "stk_set vm_stack v i x = Ok w \<Longrightarrow> frame_of w = frame_of v"
  "stk_set_word vm_stack v i y = Ok w \<Longrightarrow> frame_of w = frame_of v"
  "stk_swap vm_stack v i j = Ok w \<Longrightarrow> frame_of w = frame_of v"
  "stk_swapw_nth vm_stack v n = Ok w \<Longrightarrow> frame_of w = frame_of v"
  "stk_rotate_left vm_stack v n = Ok w \<Longrightarrow> frame_of w = frame_of v"
  "stk_rotate_right vm_stack v n = Ok w \<Longrightarrow> frame_of w = frame_of v"
  "bindO (stk_increment_size vm_stack v) (\<lambda>v. stk_set vm_stack v 0 x) = Ok w \<Longrightarrow> frame_of w = frame_of v"
  "stk_decrement_size vm_stack v = Ok w \<Longrightarrow> frame_of w = frame_of v"
  by (auto simp: vm_stack_def vm_set_def vm_set_word_def vm_swap_def vm_swapw_nth_def vm_rotate_left_def
      vm_rotate_right_def vm_increment_size_def vm_decrement_size_def frame_of_def
      outcome_simps Let_def split: if_splits list.splits)

lemma vm_rest_framed:
  "sys_log_deferred_statement (system (ref E)) v s r = Ok w \<Longrightarrow> frame_of w = frame_of v"
  "adv_pop_stack (advice_provider (ref E)) v = Ok (x, w) \<Longrightarrow> frame_of w = frame_of v"
  "adv_pop_stack_word (advice_provider (ref E)) v = Ok (y, w) \<Longrightarrow> frame_of w = frame_of v"
  "adv_pop_stack_dword (advice_provider (ref E)) v = Ok (z, w) \<Longrightarrow> frame_of w = frame_of v"
  "adv_update_merkle_node (advice_provider (ref E)) v root d i y = Ok (path, w) \<Longrightarrow> frame_of w = frame_of v"
  "mem_write_element (memory (ref E)) v c a x = Ok w \<Longrightarrow> frame_of w = frame_of v"
  "mem_write_word (memory (ref E)) v c a k y = Ok w \<Longrightarrow> frame_of w = frame_of v"
  by (auto simp: processor_sel frame_of_def with_advice_def log_deferred_statement_def outcome_simps split: sum.splits)

lemma framed_stack: "stack_sim fast_stack vm_stack (framed N :: 'd fast_processor \<Rightarrow> 'd vm \<Rightarrow> bool)"
proof -
  note laws = stack_sim.get_law [OF fast_stack_sim] stack_sim.get_word_law [OF fast_stack_sim] stack_sim.depth_law [OF fast_stack_sim]
    stack_sim.set_law [OF fast_stack_sim] stack_sim.set_word_law [OF fast_stack_sim] stack_sim.swap_law [OF fast_stack_sim]
    stack_sim.swapw_nth_law [OF fast_stack_sim] stack_sim.rotate_left_law [OF fast_stack_sim]
    stack_sim.rotate_right_law [OF fast_stack_sim] stack_sim.push_law [OF fast_stack_sim] stack_sim.decrement_law [OF fast_stack_sim]
  show ?thesis
    by unfold_locales (auto intro: laws(1-3) framed_related dest: vm_stack_framed
        intro!: sim_framed laws(4-11) simp del: sim.simps(1))
qed

lemma framed_ops: "processor_sim (fast E) (ref E) (framed N :: 'd fast_processor \<Rightarrow> 'd vm \<Rightarrow> bool)"
proof -
  have st: "stack (fast E) = fast_stack" "stack (ref E) = vm_stack"
    by (simp_all add: processor_sel)
  have update: "sim (\<lambda>x y. rel_op (framed N) x y \<and> (\<exists>path. fst x = Some path \<and> length path \<le> 255))
      (adv_update_merkle_node (advice_provider (fast E)) p root d i w)
      (adv_update_merkle_node (advice_provider (ref E)) v root d i w)" if "framed N p v" for p v root d i w
    using fast_ref.update_merkle_node_law [OF framed_related [OF that], of E root d i w] that
    by (elim sim_cases) (auto simp: framed_def rel_prod_sel dest: vm_rest_framed(5))
  show ?thesis
    unfolding processor_sim_def processor_sim_axioms_def st
    by (intro conjI framed_stack allI impI update;
        (auto intro: fast_ref.caller_hash_law fast_ref.clock_law fast_ref.ctx_law fast_ref.deferred_root_law fast_ref.get_merkle_path_law
          fast_ref.read_element_law fast_ref.read_word_law fast_ref.permute_law fast_ref.verify_merkle_root_law
          fast_ref.update_merkle_root_law framed_related dest: vm_rest_framed
          intro!: sim_framed fast_ref.log_deferred_law fast_ref.write_element_law fast_ref.write_word_law
            sim_framed_op fast_ref.pop_stack_law fast_ref.pop_stack_word_law fast_ref.pop_stack_dword_law
          simp del: sim.simps)?)
qed

interpretation fast_framed: processor_sim "fast E" "ref E" "framed N :: 'd fast_processor \<Rightarrow> 'd vm \<Rightarrow> bool"
  for E :: "'d env" and N
  by (rule framed_ops)

lemma execute_op_frame:
  assumes "good p" "execute_op (fast E) op p = Ok (h, p')"
  shows "frame_of (abs_vm p') = frame_of (abs_vm p)"
proof (cases "op = Emit")
  case False
  have "framed ((=) (frame_of (abs_vm p))) p (abs_vm p)"
    using assms(1) by (simp add: framed_def)
  from fast_framed.execute_op_sim [OF this False, of E] assms(2)
  obtain w where "framed ((=) (frame_of (abs_vm p))) p' w" by (auto simp: rel_prod_sel)
  then have "frame_of (abs_vm p) = frame_of w" "w = abs_vm p'"
    by (simp_all only: framed_def related_def)
  then show ?thesis by simp
qed (use assms(2) in simp)

section \<open>The clock\<close>

text \<open>The clock is within its limit and has reached \<open>c\<close>; the limit leaves room for one more cycle in the width of the
  clock.\<close>

definition timely :: "nat \<Rightarrow> exec_options \<Rightarrow> frame \<Rightarrow> bool" where
  "timely c opts = (\<lambda>(now, _, _, _, opts', _).
    opts' = opts \<and> c \<le> unat now \<and> unat now \<le> unat (max_cycles opts) \<and> unat (max_cycles opts) < 2 ^ 32 - 1)"

lemma timely_iff:
  "timely c opts (frame_of v) \<longleftrightarrow>
    options v = opts \<and> c \<le> unat (clk v) \<and> unat (clk v) \<le> unat (max_cycles opts) \<and> unat (max_cycles opts) < 2 ^ 32 - 1"
  by (simp add: timely_def frame_of_def)

abbreviation timed :: "nat \<Rightarrow> exec_options \<Rightarrow> 'd fast_processor \<Rightarrow> 'd vm \<Rightarrow> bool" where
  "timed c opts \<equiv> framed (timely c opts)"

lemma sim_timed:
  assumes "timed c opts p v" "sim related m n" "\<And>w. n = Ok w \<Longrightarrow> clk w = clk v \<and> options w = options v"
  shows "sim (timed c opts) m n"
  using assms by (elim sim_cases) (auto simp: framed_def timely_iff)

lemma vm_control_timed:
  "vm_start_context v = Ok w \<Longrightarrow> clk w = clk v \<and> options w = options v"
  "vm_restore_context v = Ok w \<Longrightarrow> clk w = clk v \<and> options w = options v"
  "restore_call_state v = Ok w \<Longrightarrow> clk w = clk v \<and> options w = options v"
  by (auto simp: vm_start_context_def vm_restore_context_def restore_call_state_def outcome_simps Let_def
      split: if_splits list.splits)

lemma timed_machine: "machine_sim (fast E) (ref E) (timed c opts :: 'd fast_processor \<Rightarrow> 'd vm \<Rightarrow> bool)"
proof -
  have st: "stack (ref E) = vm_stack" "system (ref E) = system_impl E" for E :: "'d env"
    by (simp_all add: processor_sel)
  have control: "sim (timed c opts) (stk_start_context (stack (fast E)) p) (stk_start_context (stack (ref E)) v)"
      "sim (timed c opts) (stk_restore_context (stack (fast E)) p) (stk_restore_context (stack (ref E)) v)"
      "sim (timed c opts) (sys_restore_call_state (system (fast E)) p) (sys_restore_call_state (system (ref E)) v)"
    if "timed c opts p v" for p and v :: "'d vm"
    using fast_ref.start_context_law [OF framed_related [OF that], of E] fast_ref.restore_context_law [OF framed_related [OF that], of E]
      fast_ref.restore_call_state_law [OF framed_related [OF that], of E]
    by (auto intro!: sim_timed [OF that] dest: vm_control_timed simp: st vm_stack_def system_impl_def simp del: sim.simps)
  have registers: "timed c opts (sys_set_caller_hash (system (fast E)) p w) (sys_set_caller_hash (system (ref E)) v w)"
      "timed c opts (sys_set_ctx (system (fast E)) p x) (sys_set_ctx (system (ref E)) v x)"
      "timed c opts (sys_save_call_state (system (fast E)) p) (sys_save_call_state (system (ref E)) v)"
    if "timed c opts p v" for p v w x
    using that fast_ref.set_caller_hash_law [OF framed_related [OF that], of E] fast_ref.set_ctx_law [OF framed_related [OF that], of E]
      fast_ref.save_call_state_law [OF framed_related [OF that], of E]
    by (auto simp: framed_def timely_iff st system_impl_def save_call_state_def)
  show ?thesis
    unfolding machine_sim_def machine_sim_axioms_def
    by (intro conjI framed_ops allI impI control registers)
qed

lemma timed_weaken: "timed (Suc c) opts p v \<Longrightarrow> timed c opts p v"
  by (auto simp: framed_def timely_iff)

lemma timed_cycle:
  assumes "timed n opts p v"
  shows "sim (\<lambda>x y. x = y \<and> (x = None \<or> x = Some c) \<and>
        timed (Suc n) opts (sys_increment_clock (system (fast E)) p) (sys_increment_clock (system (ref E)) v))
      (never_stopper (sys_increment_clock (system (fast E)) p) cs (Ok c)) (never_stopper (sys_increment_clock (system (ref E)) v) cs (Ok c))"
proof -
  have now: "options v = opts" "n \<le> unat (clk v)" "unat (clk v) \<le> unat (max_cycles opts)" "unat (max_cycles opts) < 2 ^ 32 - 1"
    using assms by (simp_all add: framed_def timely_iff)
  then have "unat (clk v + 1) = Suc (unat (clk v))"
    by (simp add: unat_word_ariths)
  moreover have "related (sys_increment_clock (system (fast E)) p) (sys_increment_clock (system (ref E)) v)"
    using fast_system_sim(7) [OF framed_related [OF assms]] .
  ultimately show ?thesis
    using assms now
    by (auto simp: framed_def timely_iff related_def never_stopper_def check_if_max_cycles_exceeded_def processor_sel
        increment_clock_def check_if_continuation_stack_too_large_def word_less_nat_alt)
qed

lemma timed_run_axioms: "run_sim_axioms (timed c opts :: 'd fast_processor \<Rightarrow> 'd vm \<Rightarrow> bool) fast_observer ref_observer"
proof
  fix p :: "'d fast_processor" and v :: "'d vm" and a d
  assume T: "timed c opts p v"
  note R = framed_related [OF T]
  show "obs_view ref_observer v = obs_view fast_observer p" "advice_st (obs_view fast_observer p) = advice_st p"
    "sim (=) (obs_word_safe fast_observer p 13) (obs_word_safe ref_observer v 13)" "wf_advice (advice_st p)"
    "advice_st v = advice_st p \<and> memory_st v = memory_st p \<and> ctx v = ctx p"
    by (rule fast_run.view_law [OF R] fast_run.view_advice_law [OF R] fast_run.word_safe_law [OF R] fast_run.advice_wf_law [OF R]
        fast_run.shared_law [OF R])+
  show "timed c opts (p\<lparr>advice_st := a\<rparr>) (v\<lparr>advice_st := a\<rparr>)" if "wf_advice a"
    using T fast_run.set_advice_law [OF R that] by (simp add: framed_def timely_iff)
  show "timed c opts (p\<lparr>deferred_state := d\<rparr>) (v\<lparr>deferred_state := d\<rparr>)"
    using T fast_run.set_deferred_law [OF R] by (simp add: framed_def timely_iff)
qed

interpretation timed_run: run_sim "fast E" "ref E" "timed c opts :: 'd fast_processor \<Rightarrow> 'd vm \<Rightarrow> bool"
    never_stopper never_stopper "timed (Suc c) opts" fast_observer ref_observer
  for E :: "'d env" and c opts
  by (intro run_sim.intro exec_sim.intro timed_machine timed_run_axioms exec_sim_axioms.intro timed_cycle; (assumption | erule timed_weaken))

end
