(* ===== verification/Fast_Halt.thy ===== *)
theory Fast_Halt
  imports Fast_Run
begin

text \<open>
  Every run ends. A round advances the clock, or it switches back to a forest, or it resolves an external node to a node
  that is not external; the last two leave less to do before the next clock cycle (\<open>pending\<close>), and the clock is
  bounded by \<open>max_cycles\<close>. Hence running a program on the fast processor always returns, and returns what the machine
  on lists returns.
\<close>

section \<open>What is left before the next cycle\<close>

fun pending :: "mast_forest \<Rightarrow> continuation list \<Rightarrow> nat" where
  "pending f (EnterForest g # ks) = Suc (pending g ks)"
| "pending f (StartNode n # ks) = (case get_node_by_id f n of Some (External _) \<Rightarrow> 1 | _ \<Rightarrow> 0)"
| "pending f _ = 0"

text \<open>No handler but the one of external nodes leaves for another forest, and none stops unless its stopper does.\<close>

definition stays :: "'p stopper \<Rightarrow> 'p exec_state flow exec \<Rightarrow> bool" where
  "stays stp m \<longleftrightarrow>
    (\<forall>r. m = Ok r \<longrightarrow> \<not> leaves_forest r \<and> ((\<forall>p cs k. stp p cs k \<in> range Err \<union> {Panic, Ok None}) \<longrightarrow> (\<forall>k s. r \<noteq> Stopped k s)))"

lemma stays_intros [intro!, simp]:
  "stays stp (Err e)" "stays stp Panic" "stays stp (Ok (Continue s))" "stays stp (Ok (EmitBreak c s))"
  "stays stp (Ok (LoadMastForestFromDyn d s))"
  by (simp_all add: stays_def leaves_forest_def)

lemma stays_bind [intro!]: "(\<And>x. stays stp (f x)) \<Longrightarrow> stays stp (bindO m f)"
  by (cases m) auto

lemma stays_bind_flow [intro!]: "stays stp m \<Longrightarrow> (\<And>s. stays stp (f s)) \<Longrightarrow> stays stp (bind_flow m f)"
  unfolding bind_flow_def stays_def by (cases m) (auto split: flow.splits)

lemma stays_finalize [intro!, simp]: "stays stp (finalize_clock_cycle_with_continuation P stp k s)"
proof -
  let ?p = "sys_increment_clock (system P) (proc s)"
  consider e where "stp ?p (conts s) k = Err e" | "stp ?p (conts s) k = Panic" | "stp ?p (conts s) k = Ok None"
    | c where "stp ?p (conts s) k = Ok (Some c)"
    by (metis option.exhaust outcome.exhaust)
  then show ?thesis
  proof cases
    case (4 c)
    then have "\<not> (\<forall>p cs k. stp p cs k \<in> range Err \<union> {Panic, Ok None})"
      by (metis UnE insertE option.distinct(1) outcome.distinct(1,3) outcome.inject(1) rangeE singletonD)
    then show ?thesis
      using 4 by (simp add: finalize_clock_cycle_with_continuation_def stays_def leaves_forest_def)
  qed (simp_all add: finalize_clock_cycle_with_continuation_def)
qed

lemma stays_finalize_plain [intro!, simp]: "stays stp (finalize_clock_cycle P stp s)"
  by (simp add: finalize_clock_cycle_def)

lemma stays_ops [intro!]: "stays stp (execute_ops P stp b n i j ops s)"
  by (induction ops arbitrary: j s) (auto split: prod.splits)

lemma stays_batches [intro!]: "stays stp (execute_batches P stp b n is s)"
  by (induction "is" arbitrary: s) (auto simp: execute_op_batch_def)

lemma stays_blocks [intro!]:
  "stays stp (execute_basic_block_node_from_batch P stp b n i s)"
  "stays stp (execute_basic_block_node_from_op_idx P stp b n i j s)"
  "stays stp (execute_basic_block_node_from_start P stp b n s)"
  by (auto simp: execute_basic_block_node_from_batch_def execute_basic_block_node_from_op_idx_def
      execute_basic_block_node_from_start_def execute_op_batch_def finish_basic_block_def)

lemma stays_nodes [intro!]:
  "stays stp (start_join_node P stp jn n s)" "stays stp (start_split_node P stp sn n s)" "stays stp (start_loop_node P stp l n s)"
  "stays stp (start_call_node P stp K c n s)" "stays stp (start_dyn_node P stp n s)" "stays stp (finish_loop_node P stp n s)"
  "stays stp (finish_dyn_node P stp n s)"
  by (auto simp: start_join_node_def start_split_node_def start_loop_node_def start_call_node_def start_dyn_node_def
      finish_loop_node_def finish_dyn_node_def Let_def split: option.split)

lemma stays_continuation:
  assumes "\<And>n e. k = StartNode n \<Longrightarrow> get_node_by_id (current_forest s) n \<noteq> Some (External e)"
  shows "stays stp (execute_continuation P stp K k s)"
proof (cases k)
  case (StartNode n)
  then show ?thesis
    using assms by (auto simp: execute_continuation_def start_node_def unwrap_node_def split: option.splits mast_node.splits)
qed (auto simp: execute_continuation_def finish_join_node_def finish_split_node_def finish_call_node_def
    finish_basic_block_def)

lemma never_stops: "never_stopper p cs k \<in> range Err \<union> {Panic, Ok None}"
  by (auto simp: never_stopper_def check_if_max_cycles_exceeded_def check_if_continuation_stack_too_large_def)

lemma never_stopped: "execute_continuation P never_stopper K k s \<noteq> Ok (Stopped c s')"
proof (cases "\<exists>n e. k = StartNode n \<and> get_node_by_id (current_forest s) n = Some (External e)")
  case True
  then show ?thesis
    by (auto simp: execute_continuation_def start_node_def unwrap_node_def execute_external_node_def
        option_map_break_reason_def unwrap_external_def)
next
  case False
  then have "stays never_stopper (execute_continuation P never_stopper K k s)"
    by (intro stays_continuation) auto
  then show ?thesis
    using never_stops unfolding stays_def by blast
qed

lemma never_stopped_break:
  assumes "\<forall>k s. r \<noteq> Stopped k s"
  shows "handle_break E V H P never_stopper h r \<noteq> Ok (h', Stopped c s)"
proof -
  have "finalize_clock_cycle_with_continuation P never_stopper k s \<noteq> Ok (Stopped c s')" for k s c s'
    using stays_finalize [of never_stopper P k s] never_stops unfolding stays_def by blast
  then show ?thesis
    using assms
    by (cases r) (auto simp: handle_break_def bindO_eq_Ok finish_load_mast_forest_from_dyn_start_def finalize_clock_cycle_def
        finish_load_mast_forest_from_external_def finish_emit_op_execution_def bind_flow_def split: if_splits flow.splits)
qed

lemma after_break_Inr: "after_break m = Inr (h, s) \<longleftrightarrow> m = Ok (h, Continue s)"
  by (auto simp: after_break_def split: outcome.splits flow.splits prod.splits)

text \<open>One round of the fast processor.\<close>

lemma round_progress:
  fixes s :: "'d fast_processor exec_state"
  assumes rel: "exec_rel (timed c opts) s t" and H: "host_ok H"
    and round: "next_state E fast_observer H (fast E) never_stopper K (h, s) = Inr (h', s')"
  shows "(\<exists>t'. exec_rel (timed (Suc c) opts) s' t') \<or>
    (\<exists>t'. exec_rel (timed c opts) s' t') \<and> pending (current_forest s') (conts s') < pending (current_forest s) (conts s)"
proof -
  let ?go = "execute_continuation (fast E) never_stopper K" and ?ref = "execute_continuation (ref E) never_stopper K"
  let ?handle = "handle_break E fast_observer H (fast E) never_stopper h"
  obtain k ks where k: "conts s = k # ks"
    using round by (cases "conts s") (simp_all add: next_state_def)
  let ?s = "s\<lparr>conts := ks\<rparr>" and ?t = "t\<lparr>conts := ks\<rparr>"
  from round obtain r where r: "?go k ?s = Ok r" "?handle r = Ok (h', Continue s')"
    by (auto simp: next_state_def k after_break_Inr bindO_eq_Ok)
  from timed_run.execute_continuation_sim [OF rel k, of E K] r(1)
  obtain r' where r': "flow_rel (exec_rel (timed c opts)) (exec_rel (timed c opts)) r r'" by auto
  have same: "\<exists>t'. exec_rel (timed c opts) s' t'"
    using timed_run.handle_break_sim [OF r' H timed_run.cycle_rel, of E E h] r(2) by (auto simp: rel_prod_sel)
  show ?thesis
  proof (cases "increments_clk k")
    case False
    then obtain g where g: "k = EnterForest g" by (cases k) auto
    then have "s' = ?s\<lparr>current_forest := g\<rparr>"
      using r by (auto simp: execute_continuation_def)
    then show ?thesis using same by (simp add: k g)
  next
    case clocked: True
    show ?thesis
    proof (cases "\<exists>n e. k = StartNode n \<and> get_node_by_id (current_forest s) n = Some (External e)")
      case True
      then obtain n e where n: "k = StartNode n" "get_node_by_id (current_forest s) n = Some (External e)" by auto
      then have "r = LoadMastForestFromExternal n (en_digest e) ?s"
        using r(1) by (simp add: execute_continuation_def start_node_def unwrap_node_def execute_external_node_def
            option_map_break_reason_def unwrap_external_def)
      with r(2) have "pending (current_forest s') (conts s') = 0"
        by (auto simp: handle_break_def bindO_eq_Ok finish_load_mast_forest_from_external_def option_map_break_reason_def
            is_external_def split: if_splits option.splits mast_node.splits)
      then show ?thesis using same n by (simp add: k)
    next
      case False
      have "exec_in (timed c opts) (current_forest s) ?s ?t" "ok_cont (current_forest s) k"
        using rel k clocked by (auto simp: exec_in_def exec_rel_def wf_exec_def)
      from timed_run.execute_clocked_sim [OF this clocked, of E K] r(1)
      obtain r' where "flow_rel (exec_in (timed c opts) (current_forest s)) (exec_in (timed (Suc c) opts) (current_forest s)) r r'"
        by auto
      then have r': "flow_rel (exec_rel (timed c opts)) (exec_rel (timed (Suc c) opts)) r r'"
        by (rule flow_rel_mono) (simp_all add: exec_in_def)
      have "\<not> leaves_forest r"
        using stays_continuation [of k ?s never_stopper "fast E" K] False r(1) by (auto simp: stays_def)
      then have "\<exists>t'. exec_rel (timed (Suc c) opts) s' t'"
        using timed_run.handle_break_sim [OF r' H, of E E h] r(2) by (auto simp: rel_prod_sel)
      then show ?thesis ..
    qed
  qed
qed

lemma round_end:
  assumes "next_state E V H P never_stopper K (h, s) = Inl (Ok (h', s', e))"
  shows "conts s = [] \<and> h' = h \<and> s' = s \<and> (\<exists>out. e = Outputs out \<and> stack_outputs (stk (obs_view V (proc s))) = Some out)"
proof (cases "conts s")
  case Nil
  then show ?thesis
    using assms by (auto simp: next_state_def final_outputs_def Let_def split: option.splits)
next
  case (Cons k ks)
  then obtain r c where "execute_continuation P never_stopper K k (s\<lparr>conts := ks\<rparr>) = Ok r"
      "handle_break E V H P never_stopper h r = Ok (h', Stopped c s')"
    using assms by (auto simp: next_state_def after_break_def bindO_eq_Ok split: outcome.splits flow.splits prod.splits)
  then show ?thesis
    using never_stopped never_stopped_break by metis
qed

section \<open>Runs end\<close>

lemma halts:
  fixes s :: "'d fast_processor exec_state"
  assumes "exec_rel (timed c opts) s t" "host_ok H"
  shows "\<exists>n r. rounds E fast_observer H (fast E) never_stopper K n (h, s) = Inl r"
  using assms(1)
proof (induction "unat (max_cycles opts) - c" arbitrary: c s t h rule: less_induct)
  case clock: less
  show ?case
    using clock.prems
  proof (induction "pending (current_forest s) (conts s)" arbitrary: s t h rule: less_induct)
    case less
    show ?case
    proof (cases "next_state E fast_observer H (fast E) never_stopper K (h, s)")
      case (Inl r)
      then show ?thesis by (intro exI [of _ 1] exI [of _ r]) simp
    next
      case (Inr x)
      obtain h' s' where x: "x = (h', s')" by (cases x)
      have "\<exists>n r. rounds E fast_observer H (fast E) never_stopper K n (h', s') = Inl r"
        using round_progress [OF less.prems assms(2) Inr [unfolded x]]
      proof (elim disjE conjE exE)
        fix t' assume t': "exec_rel (timed (Suc c) opts) s' t'"
        then have "Suc c \<le> unat (max_cycles opts)"
          by (auto simp: exec_rel_def framed_def timely_iff)
        then show ?thesis using clock.hyps [OF _ t'] by simp
      next
        fix t' assume "exec_rel (timed c opts) s' t'"
          "pending (current_forest s') (conts s') < pending (current_forest s) (conts s)"
        then show ?thesis using less.hyps by blast
      qed
      then obtain n r where "rounds E fast_observer H (fast E) never_stopper K n (h', s') = Inl r" by blast
      then show ?thesis using Inr x by (intro exI [of _ "Suc n"] exI [of _ r]) simp
    qed
  qed
qed

end
