(* ===== verification/Context_Run.thy ===== *)
theory Context_Run
  imports Fast_Halt
begin

text \<open>
  Calls and returns are balanced. Every pending end of a call has a saved context and a saved pair of registers, and
  the registers at the bottom are those the run started with. Operations and events leave all of this alone; a call adds
  one entry and its end removes it. So a run that succeeds ends in the context it started in.
\<close>

section \<open>Pending returns\<close>

fun returns :: "mast_forest \<Rightarrow> continuation \<Rightarrow> nat" where
  "returns f (FinishCall n) = 1"
| "returns f (FinishDyn n) = (case get_node_by_id f n of Some (Dyn d) \<Rightarrow> of_bool (is_dyncall d) | _ \<Rightarrow> 0)"
| "returns f _ = 0"

fun open_calls :: "mast_forest \<Rightarrow> continuation list \<Rightarrow> nat" where
  "open_calls f [] = 0"
| "open_calls f (k # ks) = returns f k + open_calls (forest_after f k) ks"

definition balanced :: "context_id \<times> qword \<Rightarrow> nat \<Rightarrow> 'd fast_processor \<Rightarrow> bool" where
  "balanced b n p \<longleftrightarrow>
    good p \<and> length (saved (abs_vm p)) = n \<and> length (system_call_state_stack p) = n \<and>
    last ((ctx p, caller_hash p) # system_call_state_stack p) = b"

definition balanced_exec :: "context_id \<times> qword \<Rightarrow> 'd fast_processor exec_state \<Rightarrow> bool" where
  "balanced_exec b s \<longleftrightarrow> balanced b (open_calls (current_forest s) (conts s)) (proc s)"

section \<open>Methods of the processor\<close>

lemma balanced_good: "balanced b n p \<Longrightarrow> good p"
  by (simp add: balanced_def)

lemma balanced_frame: "balanced b n p \<Longrightarrow> good p' \<Longrightarrow> frame_of (abs_vm p') = frame_of (abs_vm p) \<Longrightarrow> balanced b n p'"
  by (simp add: balanced_def frame_of_def)

lemma sim_framed_same:
  assumes "sim (framed ((=) (frame_of (abs_vm p)))) m n" "m = Ok p'"
  shows "good p'" "frame_of (abs_vm p') = frame_of (abs_vm p)"
  using assms by (auto simp: framed_def related_def)

lemma framed_start: "good p \<Longrightarrow> framed ((=) (frame_of (abs_vm p))) p (abs_vm p)"
  by (simp add: framed_def)

lemma balanced_op:
  assumes "balanced b n p" "execute_op (fast E) op p = Ok (h, p')"
  shows "balanced b n p'"
proof -
  note G = balanced_good [OF assms(1)]
  show ?thesis
    by (rule balanced_frame [OF assms(1) conjunct1 [OF execute_op_fast [OF G assms(2)]] execute_op_frame [OF G assms(2)]])
qed

lemma balanced_method:
  assumes "balanced b n p" "sim (framed ((=) (frame_of (abs_vm p)))) m n'" "m = Ok p'"
  shows "balanced b n p'"
  by (rule balanced_frame [OF assms(1) sim_framed_same [OF assms(2,3)]])

lemma balanced_decrement: "balanced b n p \<Longrightarrow> sdec (fast E) p = Ok p' \<Longrightarrow> balanced b n p'"
  by (rule balanced_method [OF _ fast_framed.decrement_law [OF framed_start [OF balanced_good]]])

lemma balanced_write: "balanced b n p \<Longrightarrow> mem_write_element (memory (fast E)) p c a x = Ok p' \<Longrightarrow> balanced b n p'"
  by (rule balanced_method [OF _ fast_framed.write_element_law [OF framed_start [OF balanced_good]]])

lemma balanced_clock: "balanced b n p \<Longrightarrow> balanced b n (sys_increment_clock (system (fast E)) p)"
  using fast_system_sim(7) [of p "abs_vm p" E]
  by (auto simp: balanced_def related_def processor_sel increment_clock_def)

lemma balanced_registers:
  assumes "balanced b (Suc n) p"
  shows "balanced b (Suc n) (sys_set_ctx (system (fast E)) p c)" "balanced b (Suc n) (sys_set_caller_hash (system (fast E)) p h)"
  using assms fast_system_sim(5,6) [of p "abs_vm p" E]
  by (auto simp: balanced_def related_def processor_sel neq_Nil_conv length_Suc_conv)

lemma balanced_start:
  assumes "balanced b n p" "stk_start_context (stack (fast E)) p = Ok p'"
  shows "balanced b (Suc n) (sys_save_call_state (system (fast E)) p')"
proof -
  have "related p' (abs_vm p') \<and> vm_start_context (abs_vm p) = Ok (abs_vm p')"
    using fast_ref.start_context_law [OF balanced_good [OF assms(1)], of E] assms(2)
    by (auto simp: related_def processor_sel vm_stack_def)
  then have "good p'" and "abs_vm p' = (abs_vm p)\<lparr>stk := take 16 (stk (abs_vm p)), saved := drop 16 (stk (abs_vm p)) # saved (abs_vm p)\<rparr>"
    by (simp_all add: vm_start_context_def)
  from arg_cong [OF this(2), of saved] arg_cong [OF this(2), of ctx] arg_cong [OF this(2), of caller_hash]
    arg_cong [OF this(2), of system_call_state_stack]
  have "length (saved (abs_vm p')) = Suc (length (saved (abs_vm p)))" "ctx p' = ctx p" "caller_hash p' = caller_hash p"
      "system_call_state_stack p' = system_call_state_stack p"
    by simp_all
  with \<open>good p'\<close> show ?thesis
    using assms(1) fast_system_sim(8) [of p' "abs_vm p'" E]
    by (auto simp: balanced_def related_def processor_sel save_call_state_def)
qed

lemma balanced_leave:
  assumes "balanced b (Suc n) p" "leave_context (fast E) p = Ok p'"
  shows "balanced b n p'"
proof -
  obtain q where q: "stk_restore_context (stack (fast E)) p = Ok q" "restore_call_state q = Ok p'"
    using assms(2) by (auto simp: leave_context_def bindO_eq_Ok processor_sel)
  have "good q" and restored: "vm_restore_context (abs_vm p) = Ok (abs_vm q)"
    using fast_ref.restore_context_law [OF balanced_good [OF assms(1)], of E] q(1)
    by (auto simp: related_def processor_sel vm_stack_def)
  obtain over rest where over: "saved (abs_vm p) = over # rest"
      "abs_vm q = (abs_vm p)\<lparr>stk := stk (abs_vm p) @ over, saved := rest\<rparr>"
    using restored by (auto simp: vm_restore_context_def split: if_splits list.splits)
  from arg_cong [OF this(2), of saved] arg_cong [OF this(2), of system_call_state_stack]
  have q': "saved (abs_vm q) = rest" "system_call_state_stack q = system_call_state_stack p"
    by simp_all
  obtain c h calls where calls: "system_call_state_stack p = (c, h) # calls" "p' = q\<lparr>system_call_state_stack := calls, ctx := c, caller_hash := h\<rparr>"
    using q(2) q'(2) by (auto simp: restore_call_state_def split: list.splits)
  have "good p'"
    using fast_ref.restore_call_state_law [OF \<open>good q\<close>, of E] q(2) by (auto simp: processor_sel related_def)
  moreover have "saved (abs_vm p') = saved (abs_vm q)"
    by (simp add: calls(2))
  ultimately show ?thesis
    using assms(1) over(1) calls q'(1) by (auto simp: balanced_def split: if_splits)
qed

lemma balanced_enter:
  assumes "balanced b (Suc n) p" "enter_context (fast E) w c p = Ok p'"
  shows "balanced b (Suc n) p'"
  using assms(2) unfolding enter_context_def Let_def by (rule balanced_write [OF balanced_registers(2) [OF balanced_registers(1) [OF assms(1)]]])

section \<open>Events\<close>

text \<open>An event changes advice and deferred state only.\<close>

definition only_advice :: "('d, 'x) sys_state_scheme \<Rightarrow> ('d, 'x) sys_state_scheme exec \<Rightarrow> bool" where
  "only_advice p m \<longleftrightarrow> (\<forall>p'. m = Ok p' \<longrightarrow> (\<exists>a d. p' = p\<lparr>advice_st := a, deferred_state := d\<rparr>))"

lemma only_advice_simps [simp]:
  "only_advice p (Err e)" "only_advice p Panic" "only_advice p (Ok p)" "only_advice p (Ok (p\<lparr>advice_st := a, deferred_state := d\<rparr>))"
  by (auto simp: only_advice_def) (rule exI [of _ "advice_st p"], rule exI [of _ "deferred_state p"], simp)

lemma only_adviceD: "only_advice p m \<Longrightarrow> m = Ok p' \<Longrightarrow> \<exists>a d. p' = p\<lparr>advice_st := a, deferred_state := d\<rparr>"
  by (simp add: only_advice_def)

lemma only_advice_bind: "(\<And>x. only_advice p (f x)) \<Longrightarrow> only_advice p (bindO m f)"
  by (cases m) simp_all

lemma only_advice_set: "only_advice p (set_advice p m)"
  by (auto simp: only_advice_def set_advice_def bindO_eq_Ok intro!: exI [of _ "deferred_state p"])

lemma only_advice_twice:
  assumes "\<And>q. only_advice q (f q)"
  shows "only_advice p (bindO (set_advice p m) f)"
proof (unfold only_advice_def, intro allI impI)
  fix p' assume "bindO (set_advice p m) f = Ok p'"
  then obtain q where q: "set_advice p m = Ok q" "f q = Ok p'" by (auto simp: bindO_eq_Ok)
  obtain a d where "q = p\<lparr>advice_st := a, deferred_state := d\<rparr>"
    using only_advice_set [of p m] q(1) unfolding only_advice_def by blast
  moreover obtain a' d' where "p' = q\<lparr>advice_st := a', deferred_state := d'\<rparr>"
    using assms [of q] q(2) unfolding only_advice_def by blast
  ultimately show "\<exists>a d. p' = p\<lparr>advice_st := a, deferred_state := d\<rparr>" by auto
qed

lemma only_advice_merge: "only_advice p (bindO (with_advice p m) (\<lambda>(_, p). Ok p))"
  by (auto simp: only_advice_def with_advice_def bindO_eq_Ok intro!: exI [of _ "deferred_state p"])

lemmas event_handlers = insert_mem_values_into_adv_map_def insert_hdword_into_adv_map_def insert_hqword_into_adv_map_def
  insert_hperm_into_adv_map_def merge_merkle_nodes_def copy_merkle_node_to_adv_stack_def copy_map_value_to_adv_stack_def
  copy_map_value_length_to_adv_stack_def push_key_presence_flag_def push_transformed_stack_top_def push_ilog2_def

lemma only_advice_ext2: "only_advice p (push_ext2_inv_result P p)"
  unfolding push_ext2_inv_result_def Let_def
  by (intro only_advice_bind) (simp add: only_advice_twice only_advice_set)

lemma only_advice_event: "only_advice p (handle_system_event E V H e P p)"
  by (cases e)
    (auto simp: handle_system_event_def event_handlers Let_def handle_deferred_def intro!: only_advice_bind only_advice_set
      only_advice_merge only_advice_ext2 split: option.split sum.split)

lemma op_emit_shape:
  assumes "op_emit E V H P h p = Ok (h', p')"
  shows "\<exists>a d. p' = p\<lparr>advice_st := a, deferred_state := d\<rparr>"
proof -
  have only: "only_advice p (apply_host_event_mutations p eid ms)" "only_advice p (handle_trace_result p eid r)" for eid ms r
    by (auto simp: apply_host_event_mutations_def handle_trace_result_def only_advice_set split: option.split)
  obtain eid where eid: "sget P p 0 = Ok eid"
    using assms by (auto simp: op_emit_def bindO_eq_Ok)
  show ?thesis
  proof (cases "from_event_id eid")
    case None
    then show ?thesis
      using assms by (auto simp: op_emit_def eid bindO_eq_Ok split: prod.splits dest: only_adviceD [OF only(1)])
  next
    case (Some e)
    show ?thesis
    proof (cases "e = TraceEvent")
      case True
      then show ?thesis
        using assms Some by (auto simp: op_emit_def eid bindO_eq_Ok split: prod.splits dest: only_adviceD [OF only(2)])
    next
      case False
      then have "op_emit E V H P h p = bindO (handle_system_event E V H e P p) (\<lambda>p. Ok (h, p))"
        by (cases e) (simp_all add: op_emit_def eid Some)
      with assms have "bindO (handle_system_event E V H e P p) (\<lambda>p. Ok (h, p)) = Ok (h', p')" by simp
      then show ?thesis
        by (auto simp: bindO_eq_Ok dest: only_adviceD [OF only_advice_event])
    qed
  qed
qed

lemma balanced_emit:
  assumes "balanced b n p" "host_ok H" "op_emit E fast_observer H (fast E) h p = Ok (h', p')"
  shows "balanced b n p'"
proof (rule balanced_frame [OF assms(1)])
  have "sim (rel_op related) (op_emit E fast_observer H (fast E) h p) (op_emit E ref_observer H (ref E) h (abs_vm p))"
    by (rule fast_run.op_emit_sim [OF balanced_good [OF assms(1)] assms(2)])
  then obtain w where "related p' w"
    by (auto simp: assms(3) rel_prod_sel)
  then show "good p'" by (simp add: related_def)
  show "frame_of (abs_vm p') = frame_of (abs_vm p)"
    using op_emit_shape [OF assms(3)] by (auto simp: frame_of_def)
qed

lemma load_shape:
  assumes "load_mast_forest H d h p = Ok (h', p', m, g)"
  shows "\<exists>a. p' = p\<lparr>advice_st := a\<rparr>"
proof -
  obtain h1 r where "get_mast_forest H h d = (h1, r)" by (cases "get_mast_forest H h d")
  then show ?thesis
    using assms by (cases r) (auto simp: load_mast_forest_def bindO_eq_Ok set_advice_def split: option.splits)
qed

lemma balanced_load:
  assumes "balanced b n p" "host_ok H" "load_mast_forest H d h p = Ok (h', p', m, g)"
  shows "balanced b n p'"
proof (rule balanced_frame [OF assms(1)])
  show "good p'"
    using fast_run.load_sim [OF balanced_good [OF assms(1)] assms(2), of d h]
    by (cases "load_mast_forest H d h (abs_vm p)") (simp_all add: assms(3) related_def split: prod.splits)
  show "frame_of (abs_vm p') = frame_of (abs_vm p)"
    using load_shape [OF assms(3)] by (auto simp: frame_of_def)
qed

section \<open>Handlers\<close>

definition keeps_balance :: "context_id \<times> qword \<Rightarrow> 'd fast_processor exec_state flow exec \<Rightarrow> bool" where
  "keeps_balance b m \<longleftrightarrow>
    (\<forall>r. m = Ok r \<longrightarrow>
      (case r of
         Continue s \<Rightarrow> balanced_exec b s
       | Stopped _ _ \<Rightarrow> True
       | EmitBreak k s \<Rightarrow> balanced_exec b s \<and> (\<forall>f. returns f k = 0) \<and> increments_clk k
       | LoadMastForestFromDyn _ s \<Rightarrow> balanced_exec b s
       | LoadMastForestFromExternal _ _ s \<Rightarrow> balanced_exec b s))"

lemma keeps_balance_simps [simp]:
  "keeps_balance b (Err e)" "keeps_balance b Panic"
  "keeps_balance b (Ok (Continue s)) = balanced_exec b s"
  "keeps_balance b (Ok (Stopped c s))"
  "keeps_balance b (Ok (EmitBreak k s)) \<longleftrightarrow> balanced_exec b s \<and> (\<forall>f. returns f k = 0) \<and> increments_clk k"
  "keeps_balance b (Ok (LoadMastForestFromDyn d s)) = balanced_exec b s"
  "keeps_balance b (Ok (LoadMastForestFromExternal n d s)) = balanced_exec b s"
  by (simp_all add: keeps_balance_def)

lemma keeps_balance_bind: "(\<And>x. m = Ok x \<Longrightarrow> keeps_balance b (f x)) \<Longrightarrow> keeps_balance b (bindO m f)"
  by (cases m) simp_all

lemma keeps_balance_flow:
  "keeps_balance b m \<Longrightarrow> (\<And>s. balanced_exec b s \<Longrightarrow> keeps_balance b (f s)) \<Longrightarrow> keeps_balance b (bind_flow m f)"
  by (cases m) (auto simp: bind_flow_def split: flow.splits)

lemma keeps_balance_finalize:
  assumes "balanced_exec b s"
  shows "keeps_balance b (finalize_clock_cycle_with_continuation (fast E) stp c s)"
    "keeps_balance b (finalize_clock_cycle (fast E) stp s)"
proof -
  have "keeps_balance b (finalize_clock_cycle_with_continuation (fast E) stp c s)" for c
    using assms
    by (auto simp: finalize_clock_cycle_with_continuation_def balanced_exec_def Let_def intro!: keeps_balance_bind balanced_clock
        split: option.split)
  then show "keeps_balance b (finalize_clock_cycle_with_continuation (fast E) stp c s)"
    "keeps_balance b (finalize_clock_cycle (fast E) stp s)"
    by (simp_all add: finalize_clock_cycle_def)
qed

lemma balanced_exec_push:
  "increments_clk k \<Longrightarrow> returns (current_forest s) k = 0 \<Longrightarrow> balanced_exec b (push_cont k s) = balanced_exec b s"
  by (simp add: balanced_exec_def)

lemma after_op_returns:
  "get_continuation_after_executing_operation bl n i j = Ok k \<Longrightarrow> returns f k = 0 \<and> increments_clk k"
  by (auto simp: get_continuation_after_executing_operation_def bindO_eq_Ok)

lemma keeps_balance_ops:
  "balanced_exec b s \<Longrightarrow> keeps_balance b (execute_ops (fast E) stp bl n i j ops s)"
proof (induction ops arbitrary: j s)
  case (Cons op ops)
  have op: "balanced_exec b (s\<lparr>proc := p\<rparr>)" if "execute_op (fast E) op (proc s) = Ok (x, p)" for x p
    using Cons.prems balanced_op [OF _ that] by (simp add: balanced_exec_def)
  show ?case
    using Cons.prems Cons.IH op
    by (auto intro!: keeps_balance_bind keeps_balance_flow keeps_balance_finalize dest: after_op_returns)
qed simp

lemma keeps_balance_blocks:
  assumes "balanced_exec b s"
  shows "keeps_balance b (execute_op_batch (fast E) stp bl n i j s)"
    "keeps_balance b (execute_batches (fast E) stp bl n is s)"
    "keeps_balance b (execute_basic_block_node_from_batch (fast E) stp bl n i s)"
    "keeps_balance b (execute_basic_block_node_from_op_idx (fast E) stp bl n i j s)"
    "keeps_balance b (execute_basic_block_node_from_start (fast E) stp bl n s)"
    "keeps_balance b (finish_basic_block (fast E) stp s)"
proof -
  have batch: "keeps_balance b (execute_op_batch (fast E) stp bl n i j s)" if "balanced_exec b s" for i j s
    using that by (auto simp: execute_op_batch_def intro!: keeps_balance_bind keeps_balance_ops)
  have batches: "keeps_balance b (execute_batches (fast E) stp bl n is s)" if "balanced_exec b s" for "is" s
    using that by (induction "is" arbitrary: s) (auto intro!: keeps_balance_flow keeps_balance_finalize batch)
  have finish: "keeps_balance b (finish_basic_block (fast E) stp s)" if "balanced_exec b s" for s
    using that by (simp add: finish_basic_block_def keeps_balance_finalize)
  have from_batch: "keeps_balance b (execute_basic_block_node_from_batch (fast E) stp bl n i s)" if "balanced_exec b s" for i s
    using that unfolding execute_basic_block_node_from_batch_def by (intro keeps_balance_flow batches finish)
  show "keeps_balance b (execute_op_batch (fast E) stp bl n i j s)" "keeps_balance b (execute_batches (fast E) stp bl n is s)"
    "keeps_balance b (execute_basic_block_node_from_batch (fast E) stp bl n i s)" "keeps_balance b (finish_basic_block (fast E) stp s)"
    by (rule batch batches from_batch finish, rule assms)+
  show "keeps_balance b (execute_basic_block_node_from_op_idx (fast E) stp bl n i j s)"
    "keeps_balance b (execute_basic_block_node_from_start (fast E) stp bl n s)"
    using assms unfolding execute_basic_block_node_from_op_idx_def execute_basic_block_node_from_start_def
    by (auto intro!: keeps_balance_flow keeps_balance_finalize batch from_batch)
qed

lemma keeps_balance_start:
  assumes s: "balanced_exec b s"
  shows "keeps_balance b (start_join_node (fast E) stp j n s)" "keeps_balance b (start_split_node (fast E) stp sn n s)"
    "keeps_balance b (start_loop_node (fast E) stp l n s)" "keeps_balance b (execute_external_node n s)"
proof -
  have dec: "balanced_exec b (s\<lparr>proc := p\<rparr>)" if "sdec (fast E) (proc s) = Ok p" for p
    using balanced_decrement [OF _ that] s by (simp add: balanced_exec_def)
  show "keeps_balance b (start_join_node (fast E) stp j n s)" "keeps_balance b (start_loop_node (fast E) stp l n s)"
    "keeps_balance b (execute_external_node n s)"  "keeps_balance b (start_split_node (fast E) stp sn n s)"
    using s by (auto simp: start_join_node_def start_loop_node_def execute_external_node_def start_split_node_def Let_def
        intro!: keeps_balance_finalize keeps_balance_bind dest!: dec) (simp_all add: balanced_exec_def)
qed

lemma keeps_balance_call:
  assumes s: "balanced_exec b s"
  shows "keeps_balance b (start_call_node (fast E) stp K c n s)"
  unfolding start_call_node_def Let_def
proof (intro keeps_balance_bind)
  let ?n = "open_calls (current_forest s) (conts s)"
  fix p h q
  assume "stk_start_context (stack (fast E)) (proc s) = Ok p"
  then have "balanced b (Suc ?n) (sys_save_call_state (system (fast E)) p)"
    by (rule balanced_start [OF s [unfolded balanced_exec_def]])
  moreover assume "(if is_syscall c then
        if \<not> contains_proc K h then Err (OperationErr (SyscallTargetNotInKernel h))
        else Ok (sys_set_ctx (system (fast E)) (sys_save_call_state (system (fast E)) p) 0)
      else enter_context (fast E) h (get_next_ctx_id (fast E) (sys_save_call_state (system (fast E)) p))
        (sys_save_call_state (system (fast E)) p)) = Ok q"
  ultimately have "balanced b (Suc ?n) q"
    by (auto split: if_splits intro: balanced_registers(1) balanced_enter)
  then show "keeps_balance b (finalize_clock_cycle (fast E) stp
      (push_cont (StartNode (callee c)) (push_cont (FinishCall n) (s\<lparr>proc := q\<rparr>))))"
    by (intro keeps_balance_finalize) (simp add: balanced_exec_def)
qed

lemma keeps_balance_dyn:
  assumes s: "balanced_exec b s"
  shows "keeps_balance b (start_dyn_node (fast E) stp n s)"
  unfolding start_dyn_node_def Let_def
proof (intro keeps_balance_bind)
  let ?n = "open_calls (current_forest s) (conts s)"
  fix node d a w p q r
  assume node: "option_map_break_reason (get_node_by_id (current_forest s) n) ''dyn node not found in current forest'' = Ok node"
      "unwrap_dyn node = Ok d"
    and "sdec (fast E) (proc s) = Ok p"
    and q: "(if is_dyncall d then
        bindO (stk_start_context (stack (fast E)) p) (\<lambda>pa.
          enter_context (fast E) w (get_next_ctx_id (fast E) p) (sys_save_call_state (system (fast E)) pa))
      else Ok p) = Ok q"
  have "balanced b ?n p"
    by (rule balanced_decrement [OF s [unfolded balanced_exec_def]]) fact
  then have "balanced b (of_bool (is_dyncall d) + ?n) q"
    using q by (auto simp: bindO_eq_Ok split: if_splits intro: balanced_enter [OF balanced_start])
  moreover have "returns (current_forest s) (FinishDyn n) = of_bool (is_dyncall d)"
    using node by (auto simp: option_map_break_reason_def unwrap_dyn_def split: option.splits mast_node.splits)
  ultimately have *: "balanced_exec b (push_cont (FinishDyn n) (s\<lparr>proc := q\<rparr>))"
    by (simp add: balanced_exec_def del: returns.simps)
  then show "keeps_balance b
      (case r of None \<Rightarrow> Ok (LoadMastForestFromDyn w (push_cont (FinishDyn n) (s\<lparr>proc := q\<rparr>)))
       | Some m \<Rightarrow> finalize_clock_cycle (fast E) stp (push_cont (StartNode m) (push_cont (FinishDyn n) (s\<lparr>proc := q\<rparr>))))"
    by (cases r) (auto simp: balanced_exec_def del: returns.simps intro!: keeps_balance_finalize)
qed

lemma keeps_balance_finish:
  assumes "balanced_exec b s"
  shows "keeps_balance b (finish_join_node (fast E) stp s)" "keeps_balance b (finish_split_node (fast E) stp s)"
    "keeps_balance b (finish_loop_node (fast E) stp n s)"
proof -
  have dec: "balanced_exec b (s\<lparr>proc := p\<rparr>)" if "sdec (fast E) (proc s) = Ok p" for p
    using balanced_decrement [OF _ that] assms by (simp add: balanced_exec_def)
  show "keeps_balance b (finish_join_node (fast E) stp s)" "keeps_balance b (finish_split_node (fast E) stp s)"
    "keeps_balance b (finish_loop_node (fast E) stp n s)"
    using assms by (auto simp: finish_join_node_def finish_split_node_def finish_loop_node_def Let_def
        intro!: keeps_balance_finalize keeps_balance_bind dest!: dec) (simp_all add: balanced_exec_def)
qed

lemma keeps_balance_return:
  assumes "balanced_exec b s" "conts s = k # ks" "k = FinishCall n \<or> k = FinishDyn n"
  shows "keeps_balance b (execute_continuation (fast E) stp K k (s\<lparr>conts := ks\<rparr>))"
proof -
  let ?n = "open_calls (current_forest s) ks"
  have leave: "balanced_exec b (s\<lparr>conts := ks, proc := p\<rparr>)" if "leave_context (fast E) (proc s) = Ok p" "balanced b (Suc ?n) (proc s)" for p
    using balanced_leave [OF that(2,1)] by (simp add: balanced_exec_def)
  show ?thesis
    using assms(3)
  proof
    assume k: "k = FinishCall n"
    have "balanced b (Suc ?n) (proc s)"
      using assms(1) by (simp add: balanced_exec_def assms(2) k)
    then show ?thesis
      using leave by (auto simp: k execute_continuation_def finish_call_node_def intro!: keeps_balance_finalize keeps_balance_bind)
  next
    assume k: "k = FinishDyn n"
    have dyn: "balanced b (of_bool (is_dyncall d) + ?n) (proc s)" if "get_node_by_id (current_forest s) n = Some (Dyn d)" for d
      using assms(1) by (simp add: balanced_exec_def assms(2) k that)
    have after: "balanced_exec b (s\<lparr>conts := ks, proc := p\<rparr>)"
      if "get_node_by_id (current_forest s) n = Some (Dyn d)"
        "(if is_dyncall d then leave_context (fast E) (proc s) else Ok (proc s)) = Ok p" for d p
      using that(2) dyn [OF that(1)] leave by (auto simp: balanced_exec_def split: if_splits)
    have node: "get_node_by_id (current_forest s) n = Some (Dyn d)"
      if "option_map_break_reason (get_node_by_id (current_forest s) n) msg = Ok node" "unwrap_dyn node = Ok d" for node d msg
      using that by (auto simp: option_map_break_reason_def unwrap_dyn_def split: option.splits mast_node.splits)
    show ?thesis
      by (auto simp: k execute_continuation_def finish_dyn_node_def intro!: keeps_balance_finalize keeps_balance_bind after node)
  qed
qed

lemma keeps_balance_continuation:
  assumes "balanced_exec b s" "conts s = k # ks"
  shows "keeps_balance b (execute_continuation (fast E) stp K k (s\<lparr>conts := ks\<rparr>))"
proof (cases "\<exists>n. k = FinishCall n \<or> k = FinishDyn n")
  case True
  then show ?thesis using keeps_balance_return [OF assms] by blast
next
  case False
  then have "balanced_exec b ((s\<lparr>conts := ks\<rparr>)\<lparr>current_forest := forest_after (current_forest s) k\<rparr>)"
    using assms by (cases k) (simp_all add: balanced_exec_def)
  then show ?thesis
    using False
    by (cases k) (auto simp: execute_continuation_def start_node_def intro!: keeps_balance_bind keeps_balance_blocks
        keeps_balance_start keeps_balance_call keeps_balance_dyn keeps_balance_finish split: mast_node.split)
qed

section \<open>Runs\<close>

lemma balanced_exec_enter:
  assumes "balanced_exec b s" "balanced b (open_calls (current_forest s) (conts s)) p"
  shows "balanced_exec b ((push_cont (StartNode m) (push_cont (EnterForest (current_forest s)) (s\<lparr>proc := p\<rparr>)))\<lparr>current_forest := g\<rparr>)"
  using assms by (simp add: balanced_exec_def)

lemma keeps_balance_emit:
  assumes "balanced_exec b s" "\<forall>f. returns f k = 0" "increments_clk k"
  shows "keeps_balance b (finish_emit_op_execution (fast E) stp k s)"
  unfolding finish_emit_op_execution_def using assms
  by (intro keeps_balance_flow keeps_balance_finalize) (simp_all add: balanced_exec_push)

lemma keeps_balance_break:
  assumes "keeps_balance b (Ok r)" "host_ok H" "handle_break E fast_observer H (fast E) stp h r = Ok (h', Continue s')"
  shows "balanced_exec b s'"
proof -
  have tagged: "balanced_exec b s'" if "keeps_balance b m" "bindO m (\<lambda>r. Ok (h, r)) = Ok (h', Continue s')" for m and h
    using that by (auto simp: bindO_eq_Ok)
  have proc: "balanced_exec b (s\<lparr>proc := p\<rparr>)" if "balanced b (open_calls (current_forest s) (conts s)) p" for s p
    using that by (simp add: balanced_exec_def)
  show ?thesis
  proof (cases r)
    case (EmitBreak k s)
    then obtain h1 p where p: "op_emit E fast_observer H (fast E) h (proc s) = Ok (h1, p)"
        "bindO (finish_emit_op_execution (fast E) stp k (s\<lparr>proc := p\<rparr>)) (\<lambda>r. Ok (h1, r)) = Ok (h', Continue s')"
      using assms(3) by (auto simp: handle_break_def bindO_eq_Ok)
    have "balanced b (open_calls (current_forest s) (conts s)) p"
      using assms(1) EmitBreak by (intro balanced_emit [OF _ assms(2) p(1)]) (simp add: balanced_exec_def)
    then show ?thesis
      using tagged [OF keeps_balance_emit [OF proc] p(2)] assms(1) EmitBreak by simp
  next
    case (LoadMastForestFromDyn d s)
    then obtain h1 p m g where p: "load_mast_forest H d h (proc s) = Ok (h1, p, m, g)"
        "bindO (finish_load_mast_forest_from_dyn_start (fast E) stp m g (s\<lparr>proc := p\<rparr>)) (\<lambda>r. Ok (h1, r)) = Ok (h', Continue s')"
      using assms(3) by (auto simp: handle_break_def bindO_eq_Ok)
    have *: "balanced_exec b s" using assms(1) LoadMastForestFromDyn by simp
    then have "balanced b (open_calls (current_forest s) (conts s)) p"
      by (intro balanced_load [OF _ assms(2) p(1)]) (simp add: balanced_exec_def)
    then show ?thesis
      using tagged [OF keeps_balance_finalize(2) [OF balanced_exec_enter [OF *]]] p(2)
      by (simp add: finish_load_mast_forest_from_dyn_start_def)
  next
    case (LoadMastForestFromExternal n d s)
    then obtain h1 p m g where p: "load_mast_forest H d h (proc s) = Ok (h1, p, m, g)"
        "bindO (finish_load_mast_forest_from_external m g n (s\<lparr>proc := p\<rparr>)) (\<lambda>r. Ok (h1, r)) = Ok (h', Continue s')"
      using assms(3) by (auto simp: handle_break_def bindO_eq_Ok)
    have *: "balanced_exec b s" using assms(1) LoadMastForestFromExternal by simp
    then have "balanced b (open_calls (current_forest s) (conts s)) p"
      by (intro balanced_load [OF _ assms(2) p(1)]) (simp add: balanced_exec_def)
    then show ?thesis
      using balanced_exec_enter [OF *] p(2) by (auto simp: finish_load_mast_forest_from_external_def bindO_eq_Ok split: if_splits)
  qed (use assms in simp_all)
qed

lemma balanced_next:
  assumes "balanced_exec b s" "host_ok H" "next_state E fast_observer H (fast E) never_stopper K (h, s) = Inr (h', s')"
  shows "balanced_exec b s'"
proof -
  obtain k ks where k: "conts s = k # ks"
    using assms(3) by (cases "conts s") (simp_all add: next_state_def)
  then obtain r where "execute_continuation (fast E) never_stopper K k (s\<lparr>conts := ks\<rparr>) = Ok r"
      "handle_break E fast_observer H (fast E) never_stopper h r = Ok (h', Continue s')"
    using assms(3) by (auto simp: next_state_def after_break_Inr bindO_eq_Ok)
  then show ?thesis
    using keeps_balance_continuation [OF assms(1) k, of E never_stopper K] keeps_balance_break [OF _ assms(2)] by metis
qed

lemma balanced_rounds_on:
  assumes "balanced_exec b s" "host_ok H" "rounds E fast_observer H (fast E) never_stopper K n (h, s) = Inr (h', s')"
  shows "balanced_exec b s'"
  using assms(1,3)
proof (induction n arbitrary: h s)
  case (Suc n)
  then obtain h1 s1 where "next_state E fast_observer H (fast E) never_stopper K (h, s) = Inr (h1, s1)"
      "rounds E fast_observer H (fast E) never_stopper K n (h1, s1) = Inr (h', s')"
    by (auto split: sum.splits)
  then show ?case
    using Suc.IH balanced_next [OF Suc.prems(1) assms(2)] by metis
qed simp

lemma balanced_rounds:
  assumes "balanced_exec b s" "host_ok H" "rounds E fast_observer H (fast E) never_stopper K n (h, s) = Inl (Ok (h', s', e))"
  shows "balanced b 0 (proc s')"
  using assms(1,3)
proof (induction n arbitrary: h s)
  case (Suc n)
  show ?case
  proof (cases "next_state E fast_observer H (fast E) never_stopper K (h, s)")
    case (Inl r)
    then show ?thesis
      using Suc.prems round_end [of E fast_observer H "fast E" K h s h' s' e] by (simp add: balanced_exec_def)
  next
    case (Inr x)
    obtain h1 s1 where "x = (h1, s1)" by (cases x)
    then show ?thesis
      using Suc.IH [OF balanced_next [OF Suc.prems(1) assms(2)]] Suc.prems(2) Inr by simp
  qed
qed simp

text \<open>Leaving a context that was entered.\<close>

lemma return_cases:
  assumes "balanced b (Suc n) p"
  shows "if length (stk (abs_vm p)) > 16
    then leave_context (fast E) p = Err (OperationErr (InvalidStackDepthOnReturn (length (stk (abs_vm p)))))
    else \<exists>p' xs rest. leave_context (fast E) p = Ok p' \<and> good p' \<and> saved (abs_vm p) = xs # rest \<and>
      stk (abs_vm p') = stk (abs_vm p) @ xs \<and> saved (abs_vm p') = rest"
proof -
  have sim: "sim related (stk_restore_context (stack (fast E)) p) (vm_restore_context (abs_vm p))"
    using fast_ref.restore_context_law [OF balanced_good [OF assms], of E] by (simp add: processor_sel vm_stack_def)
  show ?thesis
  proof (cases "length (stk (abs_vm p)) > 16")
    case True
    then show ?thesis
      using sim by (auto simp: vm_restore_context_def leave_context_def elim: sim_cases)
  next
    case False
    obtain xs rest where xs: "saved (abs_vm p) = xs # rest"
      using assms by (auto simp: balanced_def length_Suc_conv)
    let ?w = "(abs_vm p)\<lparr>stk := stk (abs_vm p) @ xs, saved := rest\<rparr>"
    have "vm_restore_context (abs_vm p) = Ok ?w"
      using False xs by (simp add: vm_restore_context_def)
    with sim obtain q where "stk_restore_context (stack (fast E)) p = Ok q" "related q ?w"
      by (cases "stk_restore_context (stack (fast E)) p") simp_all
    then have q: "stk_restore_context (stack (fast E)) p = Ok q" "good q" "abs_vm q = ?w"
      by (simp_all add: related_def)
    have "system_call_state_stack q = system_call_state_stack p"
      using arg_cong [OF q(3), of system_call_state_stack] by simp
    then obtain c h calls where "system_call_state_stack q = (c, h) # calls"
      using assms by (auto simp: balanced_def length_Suc_conv)
    then have r: "restore_call_state q = Ok (q\<lparr>system_call_state_stack := calls, ctx := c, caller_hash := h\<rparr>)" (is "_ = Ok ?p")
      by (simp add: restore_call_state_def)
    then have "good ?p"
      using fast_ref.restore_call_state_law [OF q(2), of E] by (auto simp: processor_sel related_def)
    moreover have "leave_context (fast E) p = Ok ?p"
      using q(1) r by (simp add: leave_context_def processor_sel)
    moreover have "stk (abs_vm ?p) = stk (abs_vm p) @ xs" "saved (abs_vm ?p) = rest"
      using arg_cong [OF q(3), of stk] arg_cong [OF q(3), of saved] by (simp_all add: abs_vm_def live_def)
    ultimately show ?thesis
      using False xs by meson
  qed
qed

end
