(* ===== verification/Isa_Spec.thy ===== *)
theory Isa_Spec
  imports Dispatch
begin

text \<open>
  What the documentation of the instruction set promises of the operations that only touch the operand
  stack (\<open>docs/src/design/stack\<close>), as a function on the list of its elements, its top first: field
  arithmetic modulo the order, arithmetic on 32-bit values as quotients and remainders of natural numbers,
  and permutations of the top elements. The handlers implement it, and every operation changes the depth
  as \<open>increments_stack_size\<close> and \<open>decrements_stack_size\<close> say.
\<close>

section \<open>Effects\<close>

text \<open>The stack after the operation before zeros are pulled in, a failure, or an operation that reads or
  writes something else than the stack.\<close>

datatype effect = Becomes "felt list" | Fails operation_error | Elsewhere

definition not_u32 :: "felt list \<Rightarrow> felt list" where
  "not_u32 xs = filter (\<lambda>x. 2 ^ 32 \<le> val x) xs"

definition on_u32 :: "felt list \<Rightarrow> effect \<Rightarrow> effect" where
  "on_u32 xs f = (if not_u32 xs = [] then f else Fails (NotU32Values (not_u32 xs)))"

definition on_bits :: "felt list \<Rightarrow> effect \<Rightarrow> effect" where
  "on_bits xs f =
    (case filter (\<lambda>x. x \<noteq> 0 \<and> x \<noteq> 1) xs of [] \<Rightarrow> f | x # _ \<Rightarrow> Fails (NotBinaryValue CtxOperation x))"

definition halves :: "nat \<Rightarrow> felt list \<Rightarrow> felt list" where
  "halves n r = of_nat (n mod 2 ^ 32) # of_nat (n div 2 ^ 32) # r"

primrec stack_effect :: "operation \<Rightarrow> row_index \<Rightarrow> qword \<Rightarrow> felt list \<Rightarrow> effect" where
  "stack_effect Noop = (\<lambda>k h s. Becomes s)"
| "stack_effect (Assert err_code) = (\<lambda>k h s. case s of x # r \<Rightarrow> if x = 1 then Becomes r else Fails (FailedAssertion err_code) | _ \<Rightarrow> Elsewhere)"
| "stack_effect SDepth = (\<lambda>k h s. Becomes (of_nat (length s) # s))"
| "stack_effect Caller = (\<lambda>k h s. Becomes (into_elements h @ drop 4 s))"
| "stack_effect Clk = (\<lambda>k h s. Becomes (of_nat (unat k) # s))"
| "stack_effect Emit = (\<lambda>k h s. Elsewhere)"
| "stack_effect Add = (\<lambda>k h s. case s of b # a # r \<Rightarrow> Becomes ((a + b) # r) | _ \<Rightarrow> Elsewhere)"
| "stack_effect Neg = (\<lambda>k h s. case s of a # r \<Rightarrow> Becomes (- a # r) | _ \<Rightarrow> Elsewhere)"
| "stack_effect Mul = (\<lambda>k h s. case s of b # a # r \<Rightarrow> Becomes (a * b # r) | _ \<Rightarrow> Elsewhere)"
| "stack_effect Inv = (\<lambda>k h s. case s of a # r \<Rightarrow> if a = 0 then Fails DivideByZero else Becomes (1 / a # r) | _ \<Rightarrow> Elsewhere)"
| "stack_effect Incr = (\<lambda>k h s. case s of a # r \<Rightarrow> Becomes ((a + 1) # r) | _ \<Rightarrow> Elsewhere)"
| "stack_effect And = (\<lambda>k h s. case s of b # a # r \<Rightarrow> on_bits [b, a] (Becomes (of_bool (a = 1 \<and> b = 1) # r)) | _ \<Rightarrow> Elsewhere)"
| "stack_effect Or = (\<lambda>k h s. case s of b # a # r \<Rightarrow> on_bits [b, a] (Becomes (of_bool (a = 1 \<or> b = 1) # r)) | _ \<Rightarrow> Elsewhere)"
| "stack_effect NotOp = (\<lambda>k h s. case s of a # r \<Rightarrow> on_bits [a] (Becomes ((1 - a) # r)) | _ \<Rightarrow> Elsewhere)"
| "stack_effect Eq = (\<lambda>k h s. case s of b # a # r \<Rightarrow> Becomes (of_bool (a = b) # r) | _ \<Rightarrow> Elsewhere)"
| "stack_effect Eqz = (\<lambda>k h s. case s of a # r \<Rightarrow> Becomes (of_bool (a = 0) # r) | _ \<Rightarrow> Elsewhere)"
| "stack_effect Expacc = (\<lambda>k h s. case s of _ # b # acc # e # r \<Rightarrow> Becomes (of_nat (val e mod 2) # b ^ 2 # acc * b ^ (val e mod 2) # of_nat (val e div 2) # r) | _ \<Rightarrow> Elsewhere)"
| "stack_effect Ext2Mul = (\<lambda>k h s. case s of b0 # b1 # a0 # a1 # r \<Rightarrow> let q = Quad a0 a1 * Quad b0 b1 in Becomes (b0 # b1 # c0 q # c1 q # r) | _ \<Rightarrow> Elsewhere)"
| "stack_effect U32split = (\<lambda>k h s. case s of a # r \<Rightarrow> Becomes (halves (val a) r) | _ \<Rightarrow> Elsewhere)"
| "stack_effect U32add = (\<lambda>k h s. case s of a # b # r \<Rightarrow> on_u32 [a, b] (Becomes (halves (val a + val b) r)) | _ \<Rightarrow> Elsewhere)"
| "stack_effect (U32assert2 err_code) = (\<lambda>k h s. case s of a # b # r \<Rightarrow> if err_code = 0 then on_u32 [a, b] (Becomes s) else if not_u32 [a, b] = [] then Becomes s else Fails (U32AssertionFailed err_code (not_u32 [a, b])) | _ \<Rightarrow> Elsewhere)"
| "stack_effect U32add3 = (\<lambda>k h s. case s of a # b # c # r \<Rightarrow> on_u32 [a, b, c] (Becomes (halves (val a + val b + val c) r)) | _ \<Rightarrow> Elsewhere)"
| "stack_effect U32sub = (\<lambda>k h s. case s of b # a # r \<Rightarrow> on_u32 [b, a] (Becomes (of_bool (val a < val b) # of_nat ((2 ^ 32 + val a - val b) mod 2 ^ 32) # r)) | _ \<Rightarrow> Elsewhere)"
| "stack_effect U32mul = (\<lambda>k h s. case s of a # b # r \<Rightarrow> on_u32 [a, b] (Becomes (halves (val a * val b) r)) | _ \<Rightarrow> Elsewhere)"
| "stack_effect U32madd = (\<lambda>k h s. case s of a # b # c # r \<Rightarrow> on_u32 [a, b, c] (Becomes (halves (val a * val b + val c) r)) | _ \<Rightarrow> Elsewhere)"
| "stack_effect U32div = (\<lambda>k h s. case s of b # a # r \<Rightarrow> on_u32 [b, a] (if b = 0 then Fails DivideByZero else Becomes (of_nat (val a mod val b) # of_nat (val a div val b) # r)) | _ \<Rightarrow> Elsewhere)"
| "stack_effect U32and = (\<lambda>k h s. case s of b # a # r \<Rightarrow> on_u32 [b, a] (Becomes (of_nat (val a AND val b) # r)) | _ \<Rightarrow> Elsewhere)"
| "stack_effect U32xor = (\<lambda>k h s. case s of b # a # r \<Rightarrow> on_u32 [b, a] (Becomes (of_nat (val a XOR val b) # r)) | _ \<Rightarrow> Elsewhere)"
| "stack_effect Pad = (\<lambda>k h s. Becomes (0 # s))"
| "stack_effect Drop = (\<lambda>k h s. Becomes (tl s))"
| "stack_effect Dup0 = (\<lambda>k h s. Becomes (s ! 0 # s))"
| "stack_effect Dup1 = (\<lambda>k h s. Becomes (s ! 1 # s))"
| "stack_effect Dup2 = (\<lambda>k h s. Becomes (s ! 2 # s))"
| "stack_effect Dup3 = (\<lambda>k h s. Becomes (s ! 3 # s))"
| "stack_effect Dup4 = (\<lambda>k h s. Becomes (s ! 4 # s))"
| "stack_effect Dup5 = (\<lambda>k h s. Becomes (s ! 5 # s))"
| "stack_effect Dup6 = (\<lambda>k h s. Becomes (s ! 6 # s))"
| "stack_effect Dup7 = (\<lambda>k h s. Becomes (s ! 7 # s))"
| "stack_effect Dup9 = (\<lambda>k h s. Becomes (s ! 9 # s))"
| "stack_effect Dup11 = (\<lambda>k h s. Becomes (s ! 11 # s))"
| "stack_effect Dup13 = (\<lambda>k h s. Becomes (s ! 13 # s))"
| "stack_effect Dup15 = (\<lambda>k h s. Becomes (s ! 15 # s))"
| "stack_effect Swap = (\<lambda>k h s. case s of b # a # r \<Rightarrow> Becomes (a # b # r) | _ \<Rightarrow> Elsewhere)"
| "stack_effect SwapW = (\<lambda>k h s. Becomes (slice 4 4 s @ slice 0 4 s @ drop 8 s))"
| "stack_effect SwapW2 = (\<lambda>k h s. Becomes (slice 8 4 s @ slice 4 4 s @ slice 0 4 s @ drop 12 s))"
| "stack_effect SwapW3 = (\<lambda>k h s. Becomes (slice 12 4 s @ slice 4 8 s @ slice 0 4 s @ drop 16 s))"
| "stack_effect SwapDW = (\<lambda>k h s. Becomes (slice 8 8 s @ slice 0 8 s @ drop 16 s))"
| "stack_effect MovUp2 = (\<lambda>k h s. Becomes (s ! 2 # take 2 s @ drop 3 s))"
| "stack_effect MovUp3 = (\<lambda>k h s. Becomes (s ! 3 # take 3 s @ drop 4 s))"
| "stack_effect MovUp4 = (\<lambda>k h s. Becomes (s ! 4 # take 4 s @ drop 5 s))"
| "stack_effect MovUp5 = (\<lambda>k h s. Becomes (s ! 5 # take 5 s @ drop 6 s))"
| "stack_effect MovUp6 = (\<lambda>k h s. Becomes (s ! 6 # take 6 s @ drop 7 s))"
| "stack_effect MovUp7 = (\<lambda>k h s. Becomes (s ! 7 # take 7 s @ drop 8 s))"
| "stack_effect MovUp8 = (\<lambda>k h s. Becomes (s ! 8 # take 8 s @ drop 9 s))"
| "stack_effect MovDn2 = (\<lambda>k h s. Becomes (slice 1 2 s @ s ! 0 # drop 3 s))"
| "stack_effect MovDn3 = (\<lambda>k h s. Becomes (slice 1 3 s @ s ! 0 # drop 4 s))"
| "stack_effect MovDn4 = (\<lambda>k h s. Becomes (slice 1 4 s @ s ! 0 # drop 5 s))"
| "stack_effect MovDn5 = (\<lambda>k h s. Becomes (slice 1 5 s @ s ! 0 # drop 6 s))"
| "stack_effect MovDn6 = (\<lambda>k h s. Becomes (slice 1 6 s @ s ! 0 # drop 7 s))"
| "stack_effect MovDn7 = (\<lambda>k h s. Becomes (slice 1 7 s @ s ! 0 # drop 8 s))"
| "stack_effect MovDn8 = (\<lambda>k h s. Becomes (slice 1 8 s @ s ! 0 # drop 9 s))"
| "stack_effect CSwap = (\<lambda>k h s. case s of c # b # a # r \<Rightarrow> on_bits [c] (Becomes (if c = 1 then a # b # r else b # a # r)) | _ \<Rightarrow> Elsewhere)"
| "stack_effect CSwapW = (\<lambda>k h s. case s of c # r \<Rightarrow> on_bits [c] (Becomes (if c = 1 then slice 4 4 r @ slice 0 4 r @ drop 8 r else r)) | _ \<Rightarrow> Elsewhere)"
| "stack_effect (Push a) = (\<lambda>k h s. Becomes (a # s))"
| "stack_effect AdvPop = (\<lambda>k h s. Elsewhere)"
| "stack_effect AdvPopW = (\<lambda>k h s. Elsewhere)"
| "stack_effect MLoadW = (\<lambda>k h s. Elsewhere)"
| "stack_effect MStoreW = (\<lambda>k h s. Elsewhere)"
| "stack_effect MLoad = (\<lambda>k h s. Elsewhere)"
| "stack_effect MStore = (\<lambda>k h s. Elsewhere)"
| "stack_effect MStream = (\<lambda>k h s. Elsewhere)"
| "stack_effect Pipe = (\<lambda>k h s. Elsewhere)"
| "stack_effect CryptoStream = (\<lambda>k h s. Elsewhere)"
| "stack_effect HPerm = (\<lambda>k h s. Elsewhere)"
| "stack_effect (MpVerify err_code) = (\<lambda>k h s. Elsewhere)"
| "stack_effect MrUpdate = (\<lambda>k h s. Elsewhere)"
| "stack_effect FriE2F4 = (\<lambda>k h s. Elsewhere)"
| "stack_effect HornerBase = (\<lambda>k h s. Elsewhere)"
| "stack_effect HornerExt = (\<lambda>k h s. Elsewhere)"
| "stack_effect EvalCircuit = (\<lambda>k h s. Elsewhere)"
| "stack_effect LogDeferred = (\<lambda>k h s. Elsewhere)"

text \<open>Zeros pulled in to keep sixteen elements.\<close>

definition pad16 :: "felt list \<Rightarrow> felt list" where
  "pad16 s = s @ replicate (16 - length s) 0"

lemma pad16_full [simp]: "16 \<le> length s \<Longrightarrow> pad16 s = s"
  by (simp add: pad16_def)

lemma pad16_Cons [simp]: "length s < 16 \<Longrightarrow> pad16 (x # s) = x # s @ replicate (15 - length s) 0"
  by (simp add: pad16_def)

section \<open>The reference machine, evaluated\<close>

lemma ref_stack [simp]:
  "stk_get (stack (ref E)) = vm_get" "stk_get_word (stack (ref E)) = vm_get_word" "stk_depth (stack (ref E)) = vm_depth"
  "stk_set (stack (ref E)) = vm_set" "stk_set_word (stack (ref E)) = vm_set_word" "stk_swap (stack (ref E)) = vm_swap"
  "stk_swapw_nth (stack (ref E)) = vm_swapw_nth" "stk_rotate_left (stack (ref E)) = vm_rotate_left"
  "stk_rotate_right (stack (ref E)) = vm_rotate_right" "stk_increment_size (stack (ref E)) = vm_increment_size"
  "stk_decrement_size (stack (ref E)) = vm_decrement_size"
  by (simp_all add: ref_def processor_with_def vm_stack_def)

lemma ref_system [simp]:
  "sys_ctx (system (ref E)) = ctx" "sys_clock (system (ref E)) = clk" "sys_caller_hash (system (ref E)) = caller_hash"
  by (simp_all add: ref_def processor_with_def system_impl_def)

lemma vm_access [simp]:
  assumes "16 \<le> length (stk v)"
  shows "i < 16 \<Longrightarrow> vm_get v i = Ok (stk v ! i)" "i < 16 \<Longrightarrow> vm_set v i x = Ok (v\<lparr>stk := (stk v)[i := x]\<rparr>)"
    "i < 16 \<Longrightarrow> j < 16 \<Longrightarrow> vm_swap v i j = Ok (v\<lparr>stk := (stk v)[i := stk v ! j, j := stk v ! i]\<rparr>)"
  using assms by (simp_all add: vm_get_def vm_set_def vm_swap_def fetch_def store_def)

lemma vm_decrement [simp]: "16 \<le> length (stk v) \<Longrightarrow> vm_decrement_size v = Ok (v\<lparr>stk := pad16 (tl (stk v))\<rparr>)"
  by (auto simp: vm_decrement_size_def pad16_def)

lemma vm_push:
  "vm_increment_size v = (if length (stk v) + total_saved v < max_stack_depth (options v) then Ok (v\<lparr>stk := 0 # stk v\<rparr>)
    else Err (StackDepthLimitExceeded (length (stk v) + total_saved v + 1) (max_stack_depth (options v))))"
  by (simp add: vm_increment_size_def Let_def)

text \<open>The outcome of an operation whose effect is known.\<close>

definition outcome_of :: "effect \<Rightarrow> 'd vm \<Rightarrow> (op_helpers \<times> 'd vm) exec \<Rightarrow> bool" where
  "outcome_of e v r =
    (case e of
       Becomes s \<Rightarrow>
         if length s + total_saved v \<le> max_stack_depth (options v) \<or> length s \<le> length (stk v)
         then \<exists>h. r = Ok (h, v\<lparr>stk := pad16 s\<rparr>)
         else r = Err (StackDepthLimitExceeded (length s + total_saved v) (max_stack_depth (options v)))
     | Fails x \<Rightarrow> r = Err (OperationErr x)
     | Elsewhere \<Rightarrow> True)"

lemma outcome_of_simps [simp]:
  "outcome_of (Fails x) v r \<longleftrightarrow> r = Err (OperationErr x)" "outcome_of Elsewhere v r"
  "length s \<le> length (stk v) \<Longrightarrow> outcome_of (Becomes s) v r \<longleftrightarrow> (\<exists>h. r = Ok (h, v\<lparr>stk := pad16 s\<rparr>))"
  by (simp_all add: outcome_of_def)

definition follows :: "'d env \<Rightarrow> 'd vm \<Rightarrow> operation \<Rightarrow> bool" where
  "follows E v op \<longleftrightarrow> outcome_of (stack_effect op (clk v) (caller_hash v) (stk v)) v (execute_op (ref E) op v)"

lemma elements_on_top:
  "16 \<le> length s \<Longrightarrow> \<exists>a b r. s = a # b # r \<and> 14 \<le> length r"
  "16 \<le> length s \<Longrightarrow> \<exists>a b c r. s = a # b # c # r \<and> 13 \<le> length r"
  "16 \<le> length s \<Longrightarrow> \<exists>a b c d r. s = a # b # c # d # r \<and> 12 \<le> length r"
  by (auto simp: numeral_eq_Suc Suc_le_length_iff)

section \<open>Each operation follows its effect\<close>

lemma field_effects:
  assumes "16 \<le> length (stk v)"
  shows "follows E v Add" "follows E v Neg" "follows E v Mul" "follows E v Inv" "follows E v Incr"
    "follows E v And" "follows E v Or" "follows E v NotOp" "follows E v Eq" "follows E v Eqz"
proof -
  obtain b a r where "stk v = b # a # r" "14 \<le> length r"
    using elements_on_top(1) [OF assms] by blast
  then show "follows E v Add" "follows E v Neg" "follows E v Mul" "follows E v Inv" "follows E v Incr"
      "follows E v And" "follows E v Or" "follows E v NotOp" "follows E v Eq" "follows E v Eqz"
    by (simp_all add: follows_def op_add_def op_neg_def op_mul_def op_inv_def op_incr_def op_and_def op_or_def
        op_not_def op_eq_def op_eqz_def pop2_applyfn_push_def pop2_applyfn_push_op_def assert_binary_def
        on_bits_def pad16_def field_simps)
qed

text \<open>A word read from the stack.\<close>

lemma vm_get_word_eq [simp]:
  assumes "i + 4 \<le> length (stk v)"
  shows "vm_get_word v i = Ok (QWord (stk v ! i) (stk v ! (i + 1)) (stk v ! (i + 2)) (stk v ! (i + 3)))"
proof -
  have "slice i 4 (stk v) = [stk v ! i, stk v ! (i + 1), stk v ! (i + 2), stk v ! (i + 3)]"
    using assms by (intro nth_equalityI) (auto simp: less_4_cases nth_Cons')
  then show ?thesis
    using assms by (simp add: vm_get_word_def fetch_range_def)
qed

lemma vm_set_word_eq [simp]:
  "i + 4 \<le> length (stk v) \<Longrightarrow> vm_set_word v i w = Ok (v\<lparr>stk := overlay (stk v) i (into_elements w)\<rparr>)"
  by (simp add: vm_set_word_def store_range_def)

lemma low_bit:
  "new_unchecked (as_canonical_u64 d AND 1) = of_nat (val d mod 2)"
  "(as_canonical_u64 d AND 1 = 1) = odd (val d)"
  "new_unchecked (drop_bit (Suc 0) (as_canonical_u64 d)) = of_nat (val d div 2)"
proof -
  have "unat (as_canonical_u64 d AND 1) = val d mod 2"
    by (simp add: and_one_eq unat_mod)
  then show "new_unchecked (as_canonical_u64 d AND 1) = of_nat (val d mod 2)"
    "(as_canonical_u64 d AND 1 = 1) = odd (val d)"
    by (simp_all add: new_unchecked_def word_unat_eq_iff odd_iff_mod_2_eq_one)
  show "new_unchecked (drop_bit (Suc 0) (as_canonical_u64 d)) = of_nat (val d div 2)"
    by (simp add: new_unchecked_def drop_bit_eq_div unat_div)
qed

lemma power_effects:
  assumes "16 \<le> length (stk v)"
  shows "follows E v Expacc" "follows E v Ext2Mul"
proof -
  obtain b a c d r where s: "stk v = b # a # c # d # r" "12 \<le> length r"
    using elements_on_top(3) [OF assms] by blast
  show "follows E v Expacc" 
    using s by (cases "odd (val d)")
      (simp_all add: follows_def op_expacc_def Let_def low_bit odd_iff_mod_2_eq_one power2_eq_square)
  show "follows E v Ext2Mul"
    using s by (simp add: follows_def op_ext2mul_def Let_def algebra_simps)
qed

lemma not_u32_eq: "filter (\<lambda>x. \<not> is_u32 x) xs = not_u32 xs"
  by (simp add: not_u32_def is_u32_iff not_less)

lemma bitwise_values:
  "new_unchecked (as_canonical_u64 a AND as_canonical_u64 b) = of_nat (val b AND val a)"
  "new_unchecked (as_canonical_u64 a XOR as_canonical_u64 b) = of_nat (val b XOR val a)"
  by (simp_all add: new_unchecked_def unsigned_and_eq unsigned_xor_eq and.commute xor.commute)

text \<open>The exact results of the 64-bit arithmetic on 32-bit operands.\<close>

lemma u32_arith:
  assumes "val a < 2 ^ 32" "val b < 2 ^ 32" "val c < 2 ^ 32"
  defines "x \<equiv> as_canonical_u64 a" and "y \<equiv> as_canonical_u64 b" and "z \<equiv> as_canonical_u64 c"
  shows "add_u64 x y = Ok (x + y)" "add_u64 (x + y) z = Ok (x + y + z)"
    "mul_u64 x y = Ok (x * y)" "add_u64 (x * y) z = Ok (x * y + z)"
    "split_element (new_unchecked (x + y)) = (of_nat ((val a + val b) div 2 ^ 32), of_nat ((val a + val b) mod 2 ^ 32))"
    "split_element (new_unchecked (x + y + z)) =
      (of_nat ((val a + val b + val c) div 2 ^ 32), of_nat ((val a + val b + val c) mod 2 ^ 32))"
    "split_element (new_unchecked (x * y)) = (of_nat ((val a * val b) div 2 ^ 32), of_nat ((val a * val b) mod 2 ^ 32))"
    "split_element (new_unchecked (x * y + z)) =
      (of_nat ((val a * val b + val c) div 2 ^ 32), of_nat ((val a * val b + val c) mod 2 ^ 32))"
proof -
  note sums = u32_sums [OF assms(1-3)]
  have u: "unat x = val a" "unat y = val b" "unat z = val c"
    by (simp_all add: x_def y_def z_def)
  have xy: "unat (x + y) = val a + val b" and m: "unat (x * y) = val a * val b"
    using sums(1,3) u by (simp_all add: add_u64_Ok mul_u64_Ok)
  have xyz: "unat (x + y + z) = val a + val b + val c" and mz: "unat (x * y + z) = val a * val b + val c"
    using sums(2,4) u xy m by (simp_all add: unat_word_ariths)
  have below: "val a + val b < 18446744069414584321" "val a + val b + val c < 18446744069414584321"
    "val a * val b < 18446744069414584321" "val a * val b + val c < 18446744069414584321"
    using assms(1-3) sums(4) by auto
  show "add_u64 x y = Ok (x + y)" "add_u64 (x + y) z = Ok (x + y + z)"
    "mul_u64 x y = Ok (x * y)" "add_u64 (x * y) z = Ok (x * y + z)"
    using sums u xy m by (simp_all add: add_u64_def mul_u64_def)
  show "split_element (new_unchecked (x + y)) = (of_nat ((val a + val b) div 2 ^ 32), of_nat ((val a + val b) mod 2 ^ 32))"
    "split_element (new_unchecked (x + y + z)) =
      (of_nat ((val a + val b + val c) div 2 ^ 32), of_nat ((val a + val b + val c) mod 2 ^ 32))"
    "split_element (new_unchecked (x * y)) = (of_nat ((val a * val b) div 2 ^ 32), of_nat ((val a * val b) mod 2 ^ 32))"
    "split_element (new_unchecked (x * y + z)) =
      (of_nat ((val a * val b + val c) div 2 ^ 32), of_nat ((val a * val b + val c) mod 2 ^ 32))"
    using split_exact [of "x + y"] split_exact [of "x + y + z"] split_exact [of "x * y"] split_exact [of "x * y + z"]
      below by (simp_all only: xy xyz m mz)
qed

lemma borrow_bit:
  assumes "a < 2 ^ 32" "b < 2 ^ 32"
  shows "(if b \<le> a then a - b else 2 ^ 64 + a - b) div 2 ^ 63 = (of_bool (a < b) :: nat)"
    "(if b \<le> a then a - b else 2 ^ 64 + a - b) mod 2 ^ 32 = (2 ^ 32 + a - b) mod (2 ^ 32 :: nat)"
proof -
  show "(if b \<le> a then a - b else 2 ^ 64 + a - b) div 2 ^ 63 = (of_bool (a < b) :: nat)"
    using assms by (intro div_nat_eqI) auto
  have "(a - b) mod 2 ^ 32 = (2 ^ 32 + a - b) mod 2 ^ 32" if "b \<le> a"
    using that mod_add_self1 [of "2 ^ 32" "a - b"] by simp
  moreover have "(2 ^ 64 + a - b) mod 2 ^ 32 = (2 ^ 32 + a - b) mod 2 ^ 32"
    using assms mod_mult_self2 [of "2 ^ 32 + a - b" "2 ^ 32" "2 ^ 32 - 1"] by simp
  ultimately show "(if b \<le> a then a - b else 2 ^ 64 + a - b) mod 2 ^ 32 = (2 ^ 32 + a - b) mod (2 ^ 32 :: nat)"
    by simp
qed

lemma u32_difference:
  assumes "val a < 2 ^ 32" "val b < 2 ^ 32"
  shows "new_unchecked (drop_bit 63 (as_canonical_u64 a - as_canonical_u64 b)) = of_bool (val a < val b)"
    "new_unchecked ((as_canonical_u64 a - as_canonical_u64 b) AND U32_MAX) = of_nat ((2 ^ 32 + val a - val b) mod 2 ^ 32)"
proof -
  let ?d = "as_canonical_u64 a - as_canonical_u64 b"
  have d: "unat ?d = (if val b \<le> val a then val a - val b else 2 ^ 64 + val a - val b)"
    by (auto simp: unat_sub_if')
  have "unat (drop_bit 63 ?d) = unat ?d div 2 ^ 63"
    by (simp add: drop_bit_eq_div unat_div)
  then show "new_unchecked (drop_bit 63 ?d) = of_bool (val a < val b)"
    unfolding new_unchecked_def d borrow_bit(1) [OF assms] by simp
  have mask: "U32_MAX = mask 32"
    by (simp add: U32_MAX_def mask_eq_exp_minus_1)
  have "unat (?d AND U32_MAX) = unat ?d mod 2 ^ 32"
    unfolding mask take_bit_eq_mask [symmetric] take_bit_eq_mod by (simp add: unat_mod)
  then show "new_unchecked (?d AND U32_MAX) = of_nat ((2 ^ 32 + val a - val b) mod 2 ^ 32)"
    unfolding new_unchecked_def d borrow_bit(2) [OF assms] by simp
qed

lemma not_u32_Nil: "not_u32 xs = [] \<longleftrightarrow> (\<forall>x \<in> set xs. val x < 2 ^ 32)"
  by (auto simp: not_u32_def filter_empty_conv not_le)

lemmas u32_ops = follows_def require_u32_operands2_def require_u32_operands3_def not_u32_eq Let_def on_u32_def
  op_u32add_def op_u32mul_def op_u32sub_def op_u32div_def op_u32add3_def op_u32madd_def op_u32and_def op_u32xor_def
  op_u32assert2_def op_u32split_def halves_def bitwise_values

lemma u32_effects:
  assumes "16 \<le> length (stk v)"
  shows "follows E v U32add" "follows E v U32sub" "follows E v U32mul" "follows E v U32and" "follows E v U32xor"
proof -
  obtain b a r where s: "stk v = b # a # r" "14 \<le> length r"
    using elements_on_top(1) [OF assms] by blast
  have bounds: "val b < 2 ^ 32" "val a < 2 ^ 32" if "not_u32 [b, a] = []"
    using that by (simp_all add: not_u32_Nil)
  show "follows E v U32add" "follows E v U32mul"
    using s by (auto simp: u32_ops u32_arith(1,3,5,7) [OF bounds(1,2,2)])
  show "follows E v U32and" "follows E v U32xor"
    using s by (auto simp: u32_ops pad16_def)
  show "follows E v U32sub" 
    using s by (auto simp: u32_ops u32_difference [OF bounds(2,1)])
qed

lemma as_canonical_0 [simp]: "as_canonical_u64 b = 0 \<longleftrightarrow> b = 0"
  by (simp add: word_unat_eq_iff)

lemma u32_division:
  fixes a b :: felt
  defines "x \<equiv> as_canonical_u64 a" and "y \<equiv> as_canonical_u64 b"
  assumes "b \<noteq> 0"
  shows "mul_u64 (x div y) y = Ok (x div y * y)" "sub_u64 x (x div y * y) = Ok (x - x div y * y)"
    "sub_u64 y (x - x div y * y) = Ok (y - (x - x div y * y))"
    "sub_u64 (y - (x - x div y * y)) 1 = Ok (y - (x - x div y * y) - 1)"
    "new_unchecked (x div y) = of_nat (val a div val b)" "new_unchecked (x - x div y * y) = of_nat (val a mod val b)"
proof -
  have u: "unat x = val a" "unat y = val b" "unat (x div y) = val a div val b"
    by (simp_all add: x_def y_def unat_div)
  have less: "val a mod val b < val b"
    using assms by (intro val_mod_less)
  have m: "unat (x div y * y) = val a div val b * val b"
    using div_mult_u64 [of a b] u by (simp add: unat_word_ariths(2))
  have le: "val a div val b * val b \<le> val a"
    by simp
  then have r: "unat (x - x div y * y) = val a mod val b"
    using u by (simp add: minus_div_mult_eq_mod unat_mod)
  have d: "unat (y - (x - x div y * y)) = val b - val a mod val b"
    using less u r by (simp add: unat_sub word_le_nat_alt)
  show "mul_u64 (x div y) y = Ok (x div y * y)" "sub_u64 x (x div y * y) = Ok (x - x div y * y)"
    "sub_u64 y (x - x div y * y) = Ok (y - (x - x div y * y))"
    "sub_u64 (y - (x - x div y * y)) 1 = Ok (y - (x - x div y * y) - 1)"
    using div_mult_u64 [of a b] u m r d le less by (simp_all add: mul_u64_def sub_u64_def)
  show "new_unchecked (x div y) = of_nat (val a div val b)" "new_unchecked (x - x div y * y) = of_nat (val a mod val b)"
    by (simp_all only: new_unchecked_def u r)
qed

lemma u32_check_effects:
  assumes "16 \<le> length (stk v)"
  shows "follows E v U32div" "follows E v (U32assert2 e)"
proof -
  obtain b a r where s: "stk v = b # a # r" "14 \<le> length r"
    using elements_on_top(1) [OF assms] by blast
  show "follows E v U32div" 
    using s by (auto simp: u32_ops u32_division)
  have "(if \<not> is_u32 b then [b] else []) @ (if \<not> is_u32 a then [a] else []) = not_u32 [b, a]"
    by (simp add: not_u32_def is_u32_iff)
  moreover have "\<not> is_u32 b \<or> \<not> is_u32 a \<longleftrightarrow> not_u32 [b, a] \<noteq> []"
    by (simp add: not_u32_Nil is_u32_iff)
  ultimately show "follows E v (U32assert2 e)"
    using s by (auto simp: u32_ops)
qed

lemma u32_three_effects:
  assumes "16 \<le> length (stk v)"
  shows "follows E v U32add3" "follows E v U32madd"
proof -
  obtain a b c r where s: "stk v = a # b # c # r" "13 \<le> length r"
    using elements_on_top(2) [OF assms] by blast
  have bounds: "val a < 2 ^ 32" "val b < 2 ^ 32" "val c < 2 ^ 32" if "not_u32 [a, b, c] = []"
    using that by (simp_all add: not_u32_Nil)
  show "follows E v U32add3" "follows E v U32madd"
    using s by (auto simp: u32_ops u32_arith [OF bounds] pad16_def)
qed

lemma stack_effects:
  assumes "16 \<le> length (stk v)"
  shows "follows E v Noop" "follows E v (Assert e)" "follows E v Caller" "follows E v Drop" "follows E v Swap"
    "follows E v SwapW" "follows E v SwapW2" "follows E v SwapW3"
    "follows E v MovUp2" "follows E v MovUp3" "follows E v MovUp4" "follows E v MovUp5" "follows E v MovUp6"
    "follows E v MovUp7" "follows E v MovUp8"
    "follows E v MovDn2" "follows E v MovDn3" "follows E v MovDn4" "follows E v MovDn5" "follows E v MovDn6"
    "follows E v MovDn7" "follows E v MovDn8"
proof -
  obtain b a r where s: "stk v = b # a # r" "14 \<le> length r"
    using elements_on_top(1) [OF assms] by blast
  then show "follows E v (Assert e)" "follows E v Swap"
    by (simp_all add: follows_def op_assert_def op_swap_def)
  show "follows E v Noop" "follows E v Caller" "follows E v Drop"
    using assms by (simp_all add: follows_def op_caller_def overlay_def)
  show "follows E v SwapW" "follows E v SwapW2" "follows E v SwapW3"
    using assms by (simp_all add: follows_def vm_swapw_nth_def slice_def)
  show "follows E v MovUp2" "follows E v MovUp3" "follows E v MovUp4" "follows E v MovUp5" "follows E v MovUp6"
    "follows E v MovUp7" "follows E v MovUp8"
    using assms by (simp_all add: follows_def vm_rotate_left_def)
  show "follows E v MovDn2" "follows E v MovDn3" "follows E v MovDn4" "follows E v MovDn5" "follows E v MovDn6"
    "follows E v MovDn7" "follows E v MovDn8"
    using assms by (simp_all add: follows_def vm_rotate_right_def)
qed

lemma sixteen_on_top:
  "16 \<le> length s \<Longrightarrow> \<exists>x0 x1 x2 x3 x4 x5 x6 x7 x8 x9 x10 x11 x12 x13 x14 x15 r.
    s = x0 # x1 # x2 # x3 # x4 # x5 # x6 # x7 # x8 # x9 # x10 # x11 # x12 # x13 # x14 # x15 # r"
  by (auto simp: numeral_eq_Suc Suc_le_length_iff)

lemma block_swap_effects:
  assumes "16 \<le> length (stk v)"
  shows "follows E v SwapDW" "follows E v CSwap" "follows E v CSwapW"
proof -
  obtain x0 x1 x2 x3 x4 x5 x6 x7 x8 x9 x10 x11 x12 x13 x14 x15 r where s: "stk v = x0 # x1 # x2 # x3 # x4 # x5 #
      x6 # x7 # x8 # x9 # x10 # x11 # x12 # x13 # x14 # x15 # r"
    using sixteen_on_top [OF assms] by blast
  have bit: "(as_canonical_u64 x0 = 1) = (x0 = 1)"
    using as_canonical_inject [of x0 1] by (simp add: as_canonical_u64_def)
  show "follows E v SwapDW"
    using s by (simp add: follows_def op_swap_double_word_def slice_def)
  show "follows E v CSwap" "follows E v CSwapW"
    using s bit by (auto simp: follows_def op_cswap_def op_cswapw_def on_bits_def slice_def pad16_def)
qed

text \<open>A push succeeds unless the depth over all contexts is at its limit.\<close>

lemma outcome_of_push:
  assumes "16 \<le> length (stk v)" "length s = Suc (length (stk v))"
    and "f (v\<lparr>stk := 0 # stk v\<rparr>) = Ok (h, v\<lparr>stk := s\<rparr>)"
  shows "outcome_of (Becomes s) v (bindO (vm_increment_size v) f)"
  using assms by (auto simp: outcome_of_def vm_push)

lemma pushing_effects:
  assumes "16 \<le> length (stk v)"
  shows "follows E v (Push x)" "follows E v Pad" "follows E v Clk"
    "follows E v Dup0" "follows E v Dup1" "follows E v Dup2" "follows E v Dup3" "follows E v Dup4" "follows E v Dup5"
    "follows E v Dup6" "follows E v Dup7" "follows E v Dup9" "follows E v Dup11" "follows E v Dup13" "follows E v Dup15"
  using assms by (auto simp: follows_def op_push_def op_pad_def op_clk_def dup_nth_def Let_def from_u32_def new_unchecked_def
    intro!: outcome_of_push)

lemma depth_effects:
  assumes "16 \<le> length (stk v)" "length (stk v) < 2 ^ 32"
  shows "follows E v SDepth" "follows E v U32split"
proof -
  have "from_u32 (word_of_nat (length (stk v))) = of_nat (length (stk v))"
    using assms(2) by (simp add: from_u32_def new_unchecked_def unat_of_nat)
  then show "follows E v SDepth"
    using assms(1) by (auto simp: follows_def op_sdepth_def vm_depth_def intro!: outcome_of_push)
  obtain a r where s: "stk v = a # r" "15 \<le> length r"
    using elements_on_top(1) [OF assms(1)] by auto
  then show "follows E v U32split"
    by (auto simp: follows_def op_u32split_def split_element_eq Let_def halves_def intro!: outcome_of_push)
qed

lemma other_effects:
  "follows E v Emit" "follows E v AdvPop" "follows E v AdvPopW" "follows E v MLoadW" "follows E v MStoreW"
  "follows E v MLoad" "follows E v MStore" "follows E v MStream" "follows E v Pipe" "follows E v CryptoStream"
  "follows E v HPerm" "follows E v (MpVerify e)" "follows E v MrUpdate" "follows E v FriE2F4" "follows E v HornerBase"
  "follows E v HornerExt" "follows E v EvalCircuit" "follows E v LogDeferred"
  by (simp_all add: follows_def del: execute_op.simps)

text \<open>Every operation that only touches the stack does what its effect says.\<close>

lemma all_follow:
  assumes "16 \<le> length (stk v)" "length (stk v) < 2 ^ 32"
  shows "follows E v op"
  by (cases op) (simp_all only: field_effects [OF assms(1)] power_effects [OF assms(1)] u32_effects [OF assms(1)]
    u32_check_effects [OF assms(1)] u32_three_effects [OF assms(1)] stack_effects [OF assms(1)]
    block_swap_effects [OF assms(1)] pushing_effects [OF assms(1)] depth_effects [OF assms] other_effects)

section \<open>The depth of the stack\<close>

text \<open>The depth after an operation, from the two classifications of the instruction set.\<close>

definition depth_after :: "operation \<Rightarrow> nat \<Rightarrow> nat" where
  "depth_after op d =
    (if increments_stack_size op then d + 1 else if decrements_stack_size op then max 16 (d - 1) else d)"

lemma length_pad16: "length (pad16 s) = max 16 (length s)"
  by (simp add: pad16_def)

lemma effect_length:
  assumes "stack_effect op k h s = Becomes s'" "16 \<le> length s"
  shows "max 16 (length s') = depth_after op (length s)"
  using assms
  by (cases op) (auto simp: depth_after_def increments_stack_size_def decrements_stack_size_def on_bits_def on_u32_def
      halves_def Let_def split: list.splits if_splits)

lemma vm_set_word_16 [simp]:
  "16 \<le> length (stk v) \<Longrightarrow> i \<le> 12 \<Longrightarrow> vm_set_word v i w = Ok (v\<lparr>stk := overlay (stk v) i (into_elements w)\<rparr>)"
  by simp

lemma vm_get_double_word [simp]:
  "16 \<le> length (stk v) \<Longrightarrow> stk_get_double_word (stack (ref E)) v 0 =
    Ok (QWord (stk v ! 0) (stk v ! 1) (stk v ! 2) (stk v ! 3), QWord (stk v ! 4) (stk v ! 5) (stk v ! 6) (stk v ! 7))"
  by (simp add: stk_get_double_word_def numeral_2_eq_2)

lemma with_advice_Ok [simp]: "with_advice p r = Ok (x, p') \<longleftrightarrow> (\<exists>a. r = Ok (x, a) \<and> p' = p\<lparr>advice_st := a\<rparr>)"
  by (auto simp: with_advice_def outcome_simps)

lemma ref_advice:
  "adv_pop_stack (advice_provider (ref E)) v = with_advice v (pop_stack (advice_st v))"
  "adv_pop_stack_word (advice_provider (ref E)) v = with_advice v (pop_stack_word (advice_st v))"
  "adv_pop_stack_dword (advice_provider (ref E)) v = with_advice v (pop_stack_dword (advice_st v))"
  "adv_get_merkle_path (advice_provider (ref E)) v root d i =
    bindO (map_err AdviceErr (get_merkle_path (advice_st v) root d i)) (\<lambda>path. Ok (Some path))"
  "adv_update_merkle_node (advice_provider (ref E)) v root d i w =
    bindO (with_advice v (update_merkle_node (env_perm E) (advice_st v) root d i w)) (\<lambda>((path, _), v). Ok (Some path, v))"
  by (simp_all add: processor_sel)

lemma ref_log_deferred [simp]:
  "sys_log_deferred_statement (system (ref E)) v s r = Ok v' \<longleftrightarrow>
    (\<exists>d. env_log_verified_statement E (deferred_state v) s r = Inr d \<and> v' = v\<lparr>deferred_state := d\<rparr>)"
  by (auto simp: processor_sel log_deferred_statement_def split: sum.split)

lemma ref_hasher:
  "hsh_permute (hasher (ref E)) v st = Ok (0, env_perm E st)"
  "hsh_verify_merkle_root (hasher (ref E)) v root u path i e = verify_merkle_root E root u path i e"
  "hsh_update_merkle_root (hasher (ref E)) v root u w path i e = update_merkle_root E root u w path i e"
  by (simp_all add: processor_sel hasher_permute_def)

lemma ref_memory_Ok [simp]:
  "mem_write_element (memory (ref E)) v c a x = Ok v' \<longleftrightarrow>
    (\<exists>m. write_element (memory_st v) c a x = Ok m \<and> v' = v\<lparr>memory_st := m\<rparr>)"
  "mem_write_word (memory (ref E)) v c a k w = Ok v' \<longleftrightarrow>
    (\<exists>m. write_word (memory_st v) c a w = Ok m \<and> v' = v\<lparr>memory_st := m\<rparr>)"
  by (auto simp: processor_sel outcome_simps)

lemma io_depths:
  assumes "16 \<le> length (stk v)"
  shows "op_advpop (ref E) v = Ok (h, v') \<Longrightarrow> length (stk v') = length (stk v) + 1"
    "op_advpopw (ref E) v = Ok (h, v') \<Longrightarrow> length (stk v') = length (stk v)"
    "op_mloadw (ref E) v = Ok (h, v') \<Longrightarrow> length (stk v') = max 16 (length (stk v) - 1)"
    "op_mstorew (ref E) v = Ok (h, v') \<Longrightarrow> length (stk v') = max 16 (length (stk v) - 1)"
    "op_mload (ref E) v = Ok (h, v') \<Longrightarrow> length (stk v') = length (stk v)"
    "op_mstore (ref E) v = Ok (h, v') \<Longrightarrow> length (stk v') = max 16 (length (stk v) - 1)"
    "op_mstream (ref E) v = Ok (h, v') \<Longrightarrow> length (stk v') = length (stk v)"
    "op_pipe (ref E) v = Ok (h, v') \<Longrightarrow> length (stk v') = length (stk v)"
  using assms
  by (auto simp: op_advpop_def op_advpopw_def op_mloadw_def op_mstorew_def op_mload_def op_mstore_def op_mstream_def
      op_pipe_def bindO_eq_Ok Let_def vm_push ref_advice length_pad16 split: if_splits)

lemma crypto_depths:
  assumes "16 \<le> length (stk v)"
  shows "op_hperm (ref E) v = Ok (h, v') \<Longrightarrow> length (stk v') = length (stk v)"
    "op_mpverify (ref E) v e = Ok (h, v') \<Longrightarrow> length (stk v') = length (stk v)"
    "op_mrupdate (ref E) v = Ok (h, v') \<Longrightarrow> length (stk v') = length (stk v)"
    "op_horner_eval_base (ref E) v = Ok (h, v') \<Longrightarrow> length (stk v') = length (stk v)"
    "op_horner_eval_ext (ref E) v = Ok (h, v') \<Longrightarrow> length (stk v') = length (stk v)"
    "op_eval_circuit (ref E) v = Ok (h, v') \<Longrightarrow> length (stk v') = length (stk v)"
    "op_crypto_stream (ref E) v = Ok (h, v') \<Longrightarrow> length (stk v') = length (stk v)"
    "op_log_deferred (ref E) v = Ok (h, v') \<Longrightarrow> length (stk v') = length (stk v)"
    "op_fri_ext2fold4 (ref E) v = Ok (h, v') \<Longrightarrow> length (stk v') = max 16 (length (stk v) - 1)"
  subgoal using assms by (auto simp: op_hperm_def bindO_eq_Ok)
  subgoal using assms by (auto simp: op_mpverify_def bindO_eq_Ok)
  subgoal using assms by (auto simp: op_mrupdate_def bindO_eq_Ok ref_advice)
  subgoal using assms by (auto simp: op_horner_eval_base_def bindO_eq_Ok Let_def)
  subgoal using assms by (auto simp: op_horner_eval_ext_def bindO_eq_Ok Let_def)
  subgoal using assms by (auto simp: op_eval_circuit_def bindO_eq_Ok Let_def)
  subgoal using assms by (auto simp: op_crypto_stream_def bindO_eq_Ok Let_def)
  subgoal using assms by (auto simp: op_log_deferred_def bindO_eq_Ok Let_def)
  subgoal using assms by (auto simp: op_fri_ext2fold4_def compute_evaluation_points_def bindO_eq_Ok Let_def length_pad16
        split: if_splits)
  done

lemma elsewhere_ops:
  assumes "stack_effect op k h s = Elsewhere" "16 \<le> length s"
  shows "op \<in> {Emit, AdvPop, AdvPopW, MLoadW, MStoreW, MLoad, MStore, MStream, Pipe, CryptoStream, HPerm, MrUpdate,
      FriE2F4, HornerBase, HornerExt, EvalCircuit, LogDeferred} \<or> (\<exists>e. op = MpVerify e)"
  using assms by (cases op) (auto simp: on_bits_def on_u32_def Let_def split: list.splits if_splits)

lemma elsewhere_depth:
  assumes "16 \<le> length (stk v)" "execute_op (ref E) op v = Ok (h, v')" "stack_effect op k c (stk v) = Elsewhere"
  shows "length (stk v') = depth_after op (length (stk v))"
proof -
  note io = io_depths [OF assms(1)] and crypto = crypto_depths [OF assms(1)]
  have "depth_after op d =
      (if op = AdvPop then d + 1 else if op \<in> {MLoadW, MStoreW, MStore, FriE2F4} then max 16 (d - 1) else d)" for d
    using elsewhere_ops [OF assms(3,1)]
    by (auto simp: depth_after_def increments_stack_size_def decrements_stack_size_def)
  then show ?thesis
    using elsewhere_ops [OF assms(3,1)] assms(2)
    by (elim disjE insertE emptyE exE; simp only: execute_op.simps; simp add: io crypto)
qed

text \<open>Every operation changes the depth as the instruction set says.\<close>

lemma execute_op_depth:
  assumes "16 \<le> length (stk v)" "length (stk v) < 2 ^ 32" "execute_op (ref E) op v = Ok (h, v')"
  shows "length (stk v') = depth_after op (length (stk v))"
proof (cases "stack_effect op (clk v) (caller_hash v) (stk v)")
  case (Becomes s)
  then show ?thesis
    using all_follow [OF assms(1,2), of E op] effect_length [OF Becomes assms(1)] assms(3)
    by (auto simp: follows_def outcome_of_def length_pad16 split: if_splits)
next
  case (Fails e)
  then show ?thesis
    using all_follow [OF assms(1,2), of E op] assms(3) by (simp add: follows_def)
next
  case Elsewhere
  with assms(1,3) show ?thesis by (rule elsewhere_depth)
qed

end
