(* ===== verification/Ops_Spec.thy ===== *)
theory Ops_Spec
  imports Isa_Spec
begin

text \<open>
  What the operations that reach beyond the stack compute: the folding step of FRI, the Horner steps, the
  Merkle operations and the stream cipher, on the reference machine. The theorems at the end of the
  development carry them over to the fast processor.
\<close>

section \<open>FRI folding\<close>

text \<open>A polynomial of degree three over the extension field.\<close>

definition cubic :: "quad \<Rightarrow> quad \<Rightarrow> quad \<Rightarrow> quad \<Rightarrow> quad \<Rightarrow> quad" where
  "cubic a0 a1 a2 a3 y = a0 + a1 * y + a2 * y ^ 2 + a3 * y ^ 3"

lemma fri_constants: "TWO_INV * 2 = 1" "TAU_INV * TAU_INV = - 1" "TAU2_INV = - 1" "TAU3_INV = - TAU_INV"
  by (simp_all add: TWO_INV_def TAU_INV_def TAU2_INV_def TAU3_INV_def eq_neg_iff_add_eq_0)

lemma fold2_sum: "fold2 (u + v) (u - v) e = u + v * e"
proof -
  have two: "quad_of TWO_INV * 2 = 1"
    using arg_cong [OF fri_constants(1), of quad_of] by simp
  have "fold2 (u + v) (u - v) e = (u + v * e) * (quad_of TWO_INV * 2)"
    by (simp add: fold2_def quad_scale_eq algebra_simps)
  then show ?thesis by (simp add: two)
qed

lemma fold2_cubic:
  assumes "x \<noteq> 0"
  shows "fold2 (cubic a0 a1 a2 a3 (quad_of x)) (cubic a0 a1 a2 a3 (- quad_of x)) (alpha * quad_of (inverse x)) =
    (a0 + a1 * alpha) + (a2 + a3 * alpha) * quad_of (x ^ 2)"
proof -
  have inv: "quad_of x * quad_of (inverse x) = 1"
    using assms by (simp flip: quad_of_hom(4))
  let ?u = "a0 + a2 * quad_of x ^ 2" and ?v = "a1 * quad_of x + a3 * quad_of x ^ 3"
  have "cubic a0 a1 a2 a3 (quad_of x) = ?u + ?v" "cubic a0 a1 a2 a3 (- quad_of x) = ?u - ?v"
    by (simp_all add: cubic_def algebra_simps)
  then have "fold2 (cubic a0 a1 a2 a3 (quad_of x)) (cubic a0 a1 a2 a3 (- quad_of x)) (alpha * quad_of (inverse x)) =
      ?u + ?v * (alpha * quad_of (inverse x))"
    by (simp only: fold2_sum)
  also have "?v * (alpha * quad_of (inverse x)) = (a1 + a3 * quad_of x ^ 2) * alpha * (quad_of x * quad_of (inverse x))"
    by (simp add: algebra_simps power2_eq_square power3_eq_cube)
  finally show ?thesis
    by (simp add: inv algebra_simps)
qed

definition TAU :: felt where
  "TAU = - TAU_INV"

lemma fold4_cubic:
  assumes "x \<noteq> 0" "f = cubic a0 a1 a2 a3" "e = alpha * quad_of (inverse x)"
  shows "fst (fold4 (f (quad_of x), f (quad_of (TAU * x)), f (quad_of (- x)), f (quad_of (- (TAU * x)))) e (e * e)) =
    f alpha"
proof -
  have tau: "TAU \<noteq> 0" "TAU * TAU_INV = 1" "TAU * TAU = - 1"
    using fri_constants(2) by (auto simp: TAU_def)
  then have itau: "inverse TAU = TAU_INV"
    by (metis inverse_unique)
  let ?a = "a0 + a1 * alpha" and ?b = "a2 + a3 * alpha" and ?q = "quad_of x * quad_of x"
  have t0: "fold2 (f (quad_of x)) (f (quad_of (- x))) e = ?a + ?b * ?q"
    using fold2_cubic [OF assms(1)] by (simp add: assms(2,3) power2_eq_square)
  have "quad_scale e TAU_INV = alpha * quad_of (inverse (TAU * x))"
    by (simp add: assms(3) quad_scale_eq itau algebra_simps)
  moreover have "(TAU * x) ^ 2 = - (x ^ 2)"
    unfolding power_mult_distrib by (simp only: power2_eq_square tau(3) mult_minus_left mult_1_left)
  ultimately have t1: "fold2 (f (quad_of (TAU * x))) (f (quad_of (- (TAU * x)))) (quad_scale e TAU_INV) = ?a - ?b * ?q"
    using fold2_cubic [of "TAU * x" a0 a1 a2 a3 alpha] assms(1) tau(1)
    by (simp only: assms(2) mult_eq_0_iff quad_of_hom(3) quad_of_power power2_eq_square simp_thms) simp
  have inv: "quad_of x * quad_of (inverse x) = 1"
    using assms(1) by (simp flip: quad_of_hom(4))
  have "?q * (e * e) = (quad_of x * quad_of (inverse x)) * (quad_of x * quad_of (inverse x)) * (alpha * alpha)"
    by (simp only: assms(3) ac_simps)
  then have sq: "?q * (e * e) = alpha * alpha"
    by (simp only: inv mult_1_left)
  have "fst (fold4 (f (quad_of x), f (quad_of (TAU * x)), f (quad_of (- x)), f (quad_of (- (TAU * x)))) e (e * e)) =
      ?a + ?b * ?q * (e * e)"
    by (simp only: fold4.simps Let_def fst_conv t0 t1 fold2_sum)
  also have "\<dots> = ?a + ?b * (alpha * alpha)"
    by (metis mult.assoc sq)
  finally show ?thesis
    by (simp add: assms(2) cubic_def power2_eq_square power3_eq_cube algebra_simps)
qed

text \<open>The values of a polynomial on the coset of \<open>x\<close>, in the order in which a query lays them out.\<close>

definition query_of :: "(quad \<Rightarrow> quad) \<Rightarrow> felt \<Rightarrow> felt list" where
  "query_of f x = concat (map (\<lambda>y. [c0 (f (quad_of y)), c1 (f (quad_of y))]) [x, - x, TAU * x, - (TAU * x)])"

lemma tau_cosets:
  assumes "c < 4"
  shows "bit_reverse_coset c = Ok ([0, 2, 1, 3] ! c)" "\<exists>t. get_tau_factor c = Ok t \<and> TAU ^ c * x * t = x"
    "get_coset_flags c = Ok (of_bool (c = 0), of_bool (c = 1), of_bool (c = 2), of_bool (c = 3))"
    "TAU ^ c * x = [x, TAU * x, - x, - (TAU * x)] ! c"
proof -
  have tau: "TAU * TAU_INV = 1" "TAU * TAU = - 1" "TAU * (TAU * y) = - y" "TAU * (TAU_INV * y) = y" for y
    using fri_constants(2) by (auto simp: TAU_def simp flip: mult.assoc)
  then show "bit_reverse_coset c = Ok ([0, 2, 1, 3] ! c)" "\<exists>t. get_tau_factor c = Ok t \<and> TAU ^ c * x * t = x"
    "get_coset_flags c = Ok (of_bool (c = 0), of_bool (c = 1), of_bool (c = 2), of_bool (c = 3))"
    "TAU ^ c * x = [x, TAU * x, - x, - (TAU * x)] ! c"
    using assms by (auto simp: bit_reverse_coset_def get_tau_factor_def get_coset_flags_def less_4_cases fri_constants
        power2_eq_square power3_eq_cube mult.assoc mult.left_commute mult.commute)
qed

lemma fri_run:
  assumes s: "stk v = c0 v0 # c1 v0 # c0 v1 # c1 v1 # c0 v2 # c1 v2 # c0 v3 # c1 v3 # pos # cs # poe # c0 row # c1 row #
      c0 alpha # c1 alpha # ptr # rest"
    and coset: "unat (as_canonical_u64 cs) = c" "\<not> as_canonical_u64 cs > 3" and poe: "poe \<noteq> 0"
    and row: "bit_reverse_coset c = Ok i" "quad4_nth (v0, v1, v2, v3) i = Ok row"
    and tau: "get_tau_factor c = Ok t" "poe * t = x" and flags: "get_coset_flags c = Ok (f0, f1, f2, f3)"
    and e: "e = quad_scale alpha (inverse x)" and f: "fold4 (v0, v2, v1, v3) e (e * e) = (folded, t0, t1)"
  shows "execute_op (ref E) FriE2F4 v =
    Ok (HFriExt2Fold4 e (e * e) x (inverse x), v\<lparr>stk := pad16 ([c0 t0, c1 t0, c0 t1, c1 t1, f1, f2, f3,
      poe ^ 2, ptr + 8, ptr + 8, poe ^ 4, pos, c0 folded, c1 folded, ptr + 8] @ rest)\<rparr>)"
proof -
  have query: "get_query_values (ref E) v = Ok (v0, v1, v2, v3)"
    by (simp add: get_query_values_def s)
  have points: "compute_evaluation_points alpha (inverse x) = (e, e * e)"
    by (simp add: compute_evaluation_points_def Let_def e)
  have power: "poe * poe * (poe * poe) = poe ^ 4" "poe * poe = poe ^ 2"
    by (simp_all add: power2_eq_square power4_eq_xxxx mult.assoc)
  have get: "sget (ref E) v 9 = Ok cs" "sget (ref E) v 8 = Ok pos" "sget (ref E) v 10 = Ok poe"
    "sget (ref E) v 11 = Ok (c0 row)" "sget (ref E) v 12 = Ok (c1 row)" "sget (ref E) v 13 = Ok (c0 alpha)"
    "sget (ref E) v 14 = Ok (c1 alpha)" "sget (ref E) v 15 = Ok ptr"
    by (simp_all add: s)
  note steps = get query reorder_bitrev4.simps coset poe row tau points f flags power EIGHT_def quad.collapse
  show ?thesis
    by (cases rest; simp only: execute_op.simps op_fri_ext2fold4_def bindO.simps Let_def steps prod.case if_False if_True
        simp_thms; simp add: s pad16_def)
qed

text \<open>The operation replaces the values of a polynomial on a coset by its value at the challenge.\<close>

lemma fri_fold_ref:
  assumes s: "stk v = query_of f x @ [pos, of_nat c, TAU ^ c * x, c0 (f (quad_of (TAU ^ c * x))),
      c1 (f (quad_of (TAU ^ c * x))), c0 alpha, c1 alpha, ptr] @ rest"
    and f: "f = cubic a0 a1 a2 a3" and c: "c < 4" and x: "x \<noteq> 0"
  shows "\<exists>h t. length t = 4 \<and> execute_op (ref E) FriE2F4 v =
    Ok (h, v\<lparr>stk := pad16 (t @ [of_bool (c = 1), of_bool (c = 2), of_bool (c = 3), (TAU ^ c * x) ^ 2, ptr + 8, ptr + 8,
      (TAU ^ c * x) ^ 4, pos, c0 (f alpha), c1 (f alpha), ptr + 8] @ rest)\<rparr>)"
proof -
  obtain t where t: "get_tau_factor c = Ok t" "TAU ^ c * x * t = x"
    using tau_cosets(2) [OF c] by blast
  have row: "quad4_nth (f (quad_of x), f (quad_of (- x)), f (quad_of (TAU * x)), f (quad_of (- (TAU * x)))) ([0, 2, 1, 3] ! c) =
      Ok (f (quad_of (TAU ^ c * x)))"
    using c by (auto simp: tau_cosets(4) [OF c] less_4_cases fetch_def simp del: quad_of_hom)
  have poe: "TAU ^ c * x \<noteq> 0"
    using t(2) x by (metis mult_zero_left)
  have coset: "unat (as_canonical_u64 (of_nat c)) = c" "\<not> as_canonical_u64 (of_nat c) > 3"
    using c by (simp_all add: word_less_nat_alt)
  define e where "e = alpha * quad_of (inverse x)"
  then have eval: "e = quad_scale alpha (inverse x)"
    by (simp add: quad_scale_eq)
  obtain t0 t1 where fold: "fold4 (f (quad_of x), f (quad_of (TAU * x)), f (quad_of (- x)), f (quad_of (- (TAU * x)))) e (e * e) =
      (f alpha, t0, t1)"
    using fold4_cubic [OF x f e_def] by (metis prod.exhaust_sel)
  have "stk v = c0 (f (quad_of x)) # c1 (f (quad_of x)) # c0 (f (quad_of (- x))) # c1 (f (quad_of (- x))) #
      c0 (f (quad_of (TAU * x))) # c1 (f (quad_of (TAU * x))) # c0 (f (quad_of (- (TAU * x)))) # c1 (f (quad_of (- (TAU * x)))) #
      pos # of_nat c # TAU ^ c * x # c0 (f (quad_of (TAU ^ c * x))) # c1 (f (quad_of (TAU ^ c * x))) #
      c0 alpha # c1 alpha # ptr # rest"
    unfolding s query_of_def by (simp only: list.map concat.simps append.simps)
  from fri_run [OF this coset poe tau_cosets(1) [OF c] row t tau_cosets(3) [OF c] eval fold, of E]
  show ?thesis
    by (intro exI [of _ "HFriExt2Fold4 e (e * e) x (inverse x)"] exI [of _ "[c0 t0, c1 t0, c0 t1, c1 t1]"]) simp
qed

section \<open>Horner evaluation\<close>

text \<open>The value at \<open>alpha\<close> of the polynomial whose coefficients, the highest first, are \<open>ks\<close>, with the
  accumulated value above them.\<close>

definition poly_value :: "quad \<Rightarrow> quad \<Rightarrow> quad list \<Rightarrow> quad" where
  "poly_value alpha acc ks = acc * alpha ^ length ks + (\<Sum>i < length ks. ks ! i * alpha ^ (length ks - 1 - i))"

lemma poly_value_fold: "poly_value alpha acc ks = fold (\<lambda>k acc. acc * alpha + k) ks acc"
proof (induction ks rule: rev_induct)
  case (snoc k ks)
  have "(\<Sum>i < length ks. (ks @ [k]) ! i * alpha ^ (length ks - i)) =
      (\<Sum>i < length ks. ks ! i * alpha ^ (length ks - 1 - i)) * alpha"
    unfolding sum_distrib_right
  proof (intro sum.cong)
    fix i assume "i \<in> {..<length ks}"
    then have "length ks - i = Suc (length ks - 1 - i)" "i < length ks" by auto
    then show "(ks @ [k]) ! i * alpha ^ (length ks - i) = ks ! i * alpha ^ (length ks - 1 - i) * alpha"
      by (simp add: nth_append ac_simps)
  qed simp
  then show ?case
    using snoc [symmetric] by (simp add: poly_value_def distrib_right mult.assoc mult.commute [of alpha])
qed (simp add: poly_value_def)

lemma ref_read_word: "mem_read_word (memory (ref E)) v c a k = map_err MemoryErr (read_word (memory_st v) c a)"
  by (simp add: processor_sel)

text \<open>The coefficients the two operations take from the stack.\<close>

definition base_coefficients :: "felt list \<Rightarrow> quad list" where
  "base_coefficients s = map (\<lambda>i. quad_of (s ! i)) [0..<8]"

definition ext_coefficients :: "felt list \<Rightarrow> quad list" where
  "ext_coefficients s = map (\<lambda>i. Quad (s ! (2 * i)) (s ! (2 * i + 1))) [0..<4]"

lemma coefficient_lists:
  "base_coefficients s = [quad_of (s ! 0), quad_of (s ! 1), quad_of (s ! 2), quad_of (s ! 3), quad_of (s ! 4),
    quad_of (s ! 5), quad_of (s ! 6), quad_of (s ! 7)]"
  "ext_coefficients s = [Quad (s ! 0) (s ! 1), Quad (s ! 2) (s ! 3), Quad (s ! 4) (s ! 5), Quad (s ! 6) (s ! 7)]"
  by (simp_all add: base_coefficients_def ext_coefficients_def upt_rec numeral_eq_Suc)

lemma horner_fold: "(\<lambda>coef acc. coef + alpha * acc) = (\<lambda>k acc. acc * alpha + (k :: quad))"
  by (simp add: fun_eq_iff ac_simps)

lemma horner_ref:
  assumes "16 \<le> length (stk v)" and word: "read_word (memory_st v) (ctx v) (stk v ! 13) = Ok (QWord a b c d)"
    and op: "(op, ks) \<in> {(HornerBase, base_coefficients (stk v)), (HornerExt, ext_coefficients (stk v))}"
    and r: "r = poly_value (Quad a b) (Quad (stk v ! 14) (stk v ! 15)) ks"
  shows "if c = 0 \<and> d = 0
    then \<exists>h. execute_op (ref E) op v = Ok (h, v\<lparr>stk := (stk v)[14 := c0 r, 15 := c1 r]\<rparr>)
    else execute_op (ref E) op v =
      Err (OperationErr (InvalidHornerEvaluationPointWord (ctx v) (as_canonical_u64 (stk v ! 13))))"
proof -
  have rd: "read_horner_eval_point (ref E) v (stk v ! 13) = (if c = 0 \<and> d = 0 then Ok (Quad a b)
      else Err (OperationErr (InvalidHornerEvaluationPointWord (ctx v) (as_canonical_u64 (stk v ! 13)))))"
    using word by (simp add: read_horner_eval_point_def ref_read_word)
  have swap: "(stk v)[15 := y, 14 := x] = (stk v)[14 := x, 15 := y]" for x y
    by (simp add: list_update_swap)
  show ?thesis
    using op assms(1) r rd
    by (cases "c = 0 \<and> d = 0") (auto simp: op_horner_eval_base_def op_horner_eval_ext_def Let_def horner_fold swap
        poly_value_fold coefficient_lists)
qed

section \<open>Merkle paths\<close>

text \<open>The word at a position of the stack.\<close>

definition word_at :: "felt list \<Rightarrow> nat \<Rightarrow> qword" where
  "word_at s i = QWord (s ! i) (s ! (i + 1)) (s ! (i + 2)) (s ! (i + 3))"

text \<open>A path that leads from a node at a position up to a root.\<close>

definition opens :: "'d env \<Rightarrow> merkle_path \<Rightarrow> felt \<Rightarrow> felt \<Rightarrow> qword \<Rightarrow> qword \<Rightarrow> bool" where
  "opens E path depth index node root \<longleftrightarrow>
    length path = val depth \<and> 1 \<le> val depth \<and> val depth \<le> 64 \<and> val index < 2 ^ val depth \<and>
    compute_root (env_perm E) path (as_canonical_u64 index) node = Ok root"

lemma validate_merkle_depth_Ok: "validate_merkle_depth d = Ok u \<longleftrightarrow> 1 \<le> val d \<and> val d \<le> 64"
  by (auto simp: validate_merkle_depth_def Let_def MAX_MERKLE_DEPTH_def Suc_le_eq simp flip: val_eq_0)

lemma validate_merkle_path_length_Ok:
  "validate_merkle_path_length (Some path) d = Ok u \<longleftrightarrow> length path = val d"
  by (simp add: validate_merkle_path_length_def validate_materialized_merkle_path_length_def)

lemma compute_root_bound:
  "compute_root perm path i node = Ok r \<Longrightarrow> unat i < 2 ^ length path"
  by (auto simp: compute_root_def path_depth_def bindO_eq_Ok node_index_new_Ok split: if_splits)

lemma opensI:
  "length path = val d \<Longrightarrow> 1 \<le> val d \<Longrightarrow> val d \<le> 64 \<Longrightarrow> compute_root (env_perm E) path (as_canonical_u64 i) node = Ok r \<Longrightarrow>
    opens E path d i node r"
  using compute_root_bound [of "env_perm E" path "as_canonical_u64 i" node r] by (simp add: opens_def)

lemma path_verify_Ok: "path_verify perm path i node root = Ok u \<longleftrightarrow> compute_root perm path i node = Ok root"
  by (auto simp: path_verify_def bindO_eq_Ok)

lemma mpverify_ref:
  assumes "16 \<le> length (stk v)" "execute_op (ref E) (MpVerify e) v = Ok (h, v')"
  shows "v' = v \<and> (\<exists>path. opens E path (stk v ! 4) (stk v ! 5) (word_at (stk v) 0) (word_at (stk v) 6))"
  using assms
  by (auto simp: op_mpverify_def bindO_eq_Ok ref_advice ref_hasher verify_merkle_root_def validate_merkle_depth_Ok
      validate_merkle_path_length_Ok path_verify_Ok word_at_def numeral_2_eq_2 numeral_3_eq_3 intro!: exI opensI split: outcome.splits)

lemma mrupdate_ref:
  assumes "16 \<le> length (stk v)" "execute_op (ref E) MrUpdate v = Ok (h, v')"
  shows "\<exists>path root. opens E path (stk v ! 4) (stk v ! 5) (word_at (stk v) 0) (word_at (stk v) 6) \<and>
    opens E path (stk v ! 4) (stk v ! 5) (word_at (stk v) 10) root \<and>
    v' = v\<lparr>stk := into_elements root @ drop 4 (stk v), advice_st := advice_st v'\<rparr>"
proof -
  obtain path root a where "1 \<le> val (stk v ! 4)" "val (stk v ! 4) \<le> 64" "length path = val (stk v ! 4)"
    "compute_root (env_perm E) path (as_canonical_u64 (stk v ! 5)) (word_at (stk v) 0) = Ok (word_at (stk v) 6)"
    "compute_root (env_perm E) path (as_canonical_u64 (stk v ! 5)) (word_at (stk v) 10) = Ok root"
    and v': "v' = v\<lparr>advice_st := a, stk := overlay (stk v) 0 (into_elements root)\<rparr>"
    using assms
    by (auto simp: op_mrupdate_def bindO_eq_Ok ref_advice ref_hasher update_merkle_root_def validate_merkle_depth_Ok
      validate_merkle_path_length_Ok path_verify_Ok word_at_def numeral_2_eq_2 numeral_3_eq_3 split: outcome.splits)
  moreover have "v' = v\<lparr>stk := into_elements root @ drop 4 (stk v), advice_st := advice_st v'\<rparr>"
    using v' by (simp add: overlay_def)
  ultimately show ?thesis
    using opensI by blast
qed

lemma mpverify_root_ref:
  assumes "16 \<le> length (stk v)" "stk v ! 4 = 0"
  shows "execute_op (ref E) (MpVerify e) v = Err (OperationErr (MerkleDepthOutOfRange 0))"
  using assms by (simp add: op_mpverify_def validate_merkle_depth_def Let_def as_canonical_0 [THEN iffD2])

text \<open>A node that the store holds at a position verifies.\<close>

lemma mpverify_complete_ref:
  assumes "16 \<le> length (stk v)" "wf_store (env_perm E) (adv_store (advice_st v))"
    and idx: "node_index_from_elements (stk v ! 4) (stk v ! 5) = Ok idx" and "stk v ! 4 \<noteq> 0"
    and node: "get_path (adv_store (advice_st v)) (word_at (stk v) 6) idx = Ok (word_at (stk v) 0, path)"
  shows "execute_op (ref E) (MpVerify e) v = Ok (HMerklePath 0, v)"
proof -
  have new: "node_index_new (val (stk v ! 4)) (as_canonical_u64 (stk v ! 5)) = Ok idx"
    using idx by (simp add: node_index_from_elements_def Let_def split: if_splits)
  have depth: "ni_depth idx = val (stk v ! 4)" "val (stk v ! 4) \<le> 64"
    using new by (auto simp: node_index_new_Ok)
  have path: "get_merkle_path (advice_st v) (word_at (stk v) 6) (stk v ! 4) (stk v ! 5) = Ok path"
    using idx node by (simp add: get_merkle_path_def to_node_index_def)
  have len: "length path = val (stk v ! 4)"
    using get_path_length [OF node] depth by simp
  then have "path_verify (env_perm E) path (as_canonical_u64 (stk v ! 5)) (word_at (stk v) 0) (word_at (stk v) 6) = Ok ()"
    using get_path_authentic [OF assms(2) node] compute_root_valid [of path _ idx] new
    by (simp add: path_verify_def)
  moreover have "validate_merkle_depth (stk v ! 4) = Ok ()" "validate_merkle_path_length (Some path) (stk v ! 4) = Ok ()"
    using depth(2) len assms(4) validate_merkle_depth_Ok validate_merkle_path_length_Ok
    by (simp_all add: Suc_le_eq flip: val_eq_0)
  ultimately show ?thesis
    using assms(1) path
    by (simp add: op_mpverify_def ref_advice ref_hasher verify_merkle_root_def word_at_def numeral_2_eq_2 numeral_3_eq_3)
qed

section \<open>The stream cipher\<close>

lemma from_u32_add:
  assumes "unat a + n < 2 ^ 32"
  shows "from_u32 a + of_nat n = from_u32 (a + word_of_nat n)" "unat (a + word_of_nat n) = unat a + n"
proof -
  show u: "unat (a + word_of_nat n) = unat a + n"
    using assms by (simp add: unat_word_ariths unat_of_nat)
  show "from_u32 a + of_nat n = from_u32 (a + word_of_nat n)"
    using assms by (simp flip: val_inject add: val_add u)
qed

lemma addr_u32_felt: "addr_u32 (as_canonical_u64 x) = Ok a \<Longrightarrow> x = from_u32 a"
  using addr_u32_Ok [of "as_canonical_u64 x" a] by (simp flip: val_inject)

lemma validate_streams_Ok:
  assumes "validate_dual_word_stream_addrs src dst c k = Ok u"
  obtains a b where "src = from_u32 a" "dst = from_u32 b" "unat a + 8 \<le> 2 ^ 32" "unat b + 8 \<le> 2 ^ 32"
    "unat a + 8 \<le> unat b \<or> unat b + 8 \<le> unat a"
proof -
  obtain a b where ab: "addr_u32 (as_canonical_u64 src) = Ok a" "addr_u32 (as_canonical_u64 dst) = Ok b"
    and w: "\<not> MEMORY_SIZE < as_canonical_u64 src + 8" "\<not> MEMORY_SIZE < as_canonical_u64 dst + 8"
      "\<not> (as_canonical_u64 src < as_canonical_u64 dst + 8 \<and> as_canonical_u64 dst < as_canonical_u64 src + 8)"
    using assms by (auto simp: validate_dual_word_stream_addrs_def bindO_eq_Ok Let_def add_u64_def split: if_splits)
  have a: "src = from_u32 a" "dst = from_u32 b"
    using ab addr_u32_felt by auto
  have "unat (as_canonical_u64 (from_u32 x) + 8) = unat x + 8" for x
    using unat_u32_less [of x] by (simp add: unat_word_ariths)
  with w have "unat a + 8 \<le> 2 ^ 32" "unat b + 8 \<le> 2 ^ 32" "unat a + 8 \<le> unat b \<or> unat b + 8 \<le> unat a"
    unfolding a by (auto simp: MEMORY_SIZE_def word_less_nat_alt)
  with a that show ?thesis by blast
qed

text \<open>Eight elements at two consecutive words.\<close>

definition peek8 :: "memory \<Rightarrow> context_id \<Rightarrow> u32 \<Rightarrow> felt list" where
  "peek8 m c a = map (\<lambda>i. peek m c (a + word_of_nat i)) [0..<8]"

lemma read_two_words:
  assumes "unat a + 8 \<le> 2 ^ 32" "read_word m c (from_u32 a) = Ok u" "read_word m c (from_u32 a + 4) = Ok w"
  shows "aligned a" "into_elements u @ into_elements w = peek8 m c a"
proof -
  have four: "from_u32 a + 4 = from_u32 (a + 4)"
    using from_u32_add(1) [of a 4] assms(1) by simp
  show al: "aligned a"
    using assms(2) mem.unaligned [of a m c] by auto
  have al4: "aligned (a + 4)"
    using assms(3) mem.unaligned [of "a + 4" m c] by (auto simp: four)
  have "u = QWord (peek m c a) (peek m c (a + 1)) (peek m c (a + 2)) (peek m c (a + 3))"
    "w = QWord (peek m c (a + 4)) (peek m c (a + 4 + 1)) (peek m c (a + 4 + 2)) (peek m c (a + 4 + 3))"
    using mem.rdw_spec [OF al, of m c] mem.rdw_spec [OF al4, of m c] assms(2,3) by (simp_all add: four)
  then show "into_elements u @ into_elements w = peek8 m c a"
    by (simp add: peek8_def upt_rec add.assoc)
qed

lemma split_addr_word:
  assumes "aligned b"
  shows "fst (split_addr x) = b \<longleftrightarrow> unat b \<le> unat x \<and> unat x < unat b + 4"
    "fst (split_addr x) = b \<Longrightarrow> unat (snd (split_addr x)) = unat x - unat b"
proof -
  have b: "unat b mod 4 = 0"
    using assms unat_mod_4 [of b] by (simp add: aligned_def)
  show "fst (split_addr x) = b \<longleftrightarrow> unat b \<le> unat x \<and> unat x < unat b + 4"
    using b unfolding word_unat_eq_iff unat_split_addr by presburger
  show "unat (snd (split_addr x)) = unat x - unat b" if "fst (split_addr x) = b"
    using that unfolding word_unat_eq_iff unat_split_addr by presburger
qed

lemma write_two_words:
  assumes "unat b + 8 \<le> 2 ^ 32" "write_word m c (from_u32 b) u = Ok m1" "write_word m1 c (from_u32 b + 4) w = Ok m2"
  shows "aligned b" "peek m2 d x = (if d = c \<and> unat b \<le> unat x \<and> unat x < unat b + 8
    then (into_elements u @ into_elements w) ! (unat x - unat b) else peek m d x)"
proof -
  have four: "from_u32 b + 4 = from_u32 (b + 4)" "unat (b + 4) = unat b + 4"
    using from_u32_add [of b 4] assms(1) by simp_all
  show al: "aligned b"
    using assms(2) mem.unaligned [of b m c u] by auto
  have al4: "aligned (b + 4)"
    using assms(3) mem.unaligned [of "b + 4" m1 c w] by (auto simp: four)
  note low = split_addr_word [OF al, of x] and high = split_addr_word [OF al4, of x]
  have "peek m2 d x = (if d = c \<and> fst (split_addr x) = b + 4 then word_get w (unat (snd (split_addr x)))
      else if d = c \<and> fst (split_addr x) = b then word_get u (unat (snd (split_addr x))) else peek m d x)"
    using mem.wrw_spec [OF assms(2), of d x] mem.wrw_spec [of m1 c "b + 4" w m2 d x] assms(3)
    unfolding four by auto
  moreover have "word_get w (unat x - (unat b + 4)) = into_elements w ! (unat x - unat b - 4)" if "fst (split_addr x) = b + 4"
    using that high by (subst word_get_eq_nth) (auto simp: four)
  moreover have "word_get u (unat x - unat b) = into_elements u ! (unat x - unat b)" if "fst (split_addr x) = b"
    using that low by (subst word_get_eq_nth) auto
  ultimately show "peek m2 d x = (if d = c \<and> unat b \<le> unat x \<and> unat x < unat b + 8
    then (into_elements u @ into_elements w) ! (unat x - unat b) else peek m d x)"
    using low high by (auto simp: four nth_append)
qed

text \<open>The plain text at the source, added to the rate, is the cipher text on the stack and at the destination.\<close>

lemma crypto_stream_ref:
  assumes "16 \<le> length (stk v)" "execute_op (ref E) CryptoStream v = Ok (h, v')"
  shows "\<exists>a b cipher m. stk v ! 12 = from_u32 a \<and> stk v ! 13 = from_u32 b \<and>
    unat a + 8 \<le> 2 ^ 32 \<and> unat b + 8 \<le> 2 ^ 32 \<and> (unat a + 8 \<le> unat b \<or> unat b + 8 \<le> unat a) \<and>
    cipher = map2 (+) (peek8 (memory_st v) (ctx v) a) (take 8 (stk v)) \<and>
    v' = v\<lparr>memory_st := m, stk := cipher @ drop 8 ((stk v)[12 := stk v ! 12 + 8, 13 := stk v ! 13 + 8])\<rparr> \<and>
    (\<forall>d x. peek m d x = (if d = ctx v \<and> unat b \<le> unat x \<and> unat x < unat b + 8 then cipher ! (unat x - unat b)
      else peek (memory_st v) d x))"
proof -
  obtain p1 p2 m1 m2 u where val: "validate_dual_word_stream_addrs (stk v ! 12) (stk v ! 13) (ctx v) (clk v) = Ok u"
    and rd: "read_word (memory_st v) (ctx v) (stk v ! 12) = Ok p1" "read_word (memory_st v) (ctx v) (stk v ! 12 + 4) = Ok p2"
    and wr: "write_word (memory_st v) (ctx v) (stk v ! 13) (QWord (word_a p1 + stk v ! 0) (word_b p1 + stk v ! 1)
        (word_c p1 + stk v ! 2) (word_d p1 + stk v ! 3)) = Ok m1"
      "write_word m1 (ctx v) (stk v ! 13 + 4) (QWord (word_a p2 + stk v ! 4) (word_b p2 + stk v ! 5)
        (word_c p2 + stk v ! 6) (word_d p2 + stk v ! 7)) = Ok m2"
    and v': "v' = v\<lparr>memory_st := m2, stk := (overlay (overlay (stk v) 0 [word_a p1 + stk v ! 0, word_b p1 + stk v ! 1,
        word_c p1 + stk v ! 2, word_d p1 + stk v ! 3]) 4 [word_a p2 + stk v ! 4, word_b p2 + stk v ! 5,
        word_c p2 + stk v ! 6, word_d p2 + stk v ! 7])[12 := stk v ! 12 + 8, 13 := stk v ! 13 + 8]\<rparr>"
    using assms
    by (auto simp: op_crypto_stream_def bindO_eq_Ok Let_def ref_read_word WORD_SIZE_FELT_def DOUBLE_WORD_SIZE_def)
  obtain a b where ab: "stk v ! 12 = from_u32 a" "stk v ! 13 = from_u32 b" "unat a + 8 \<le> 2 ^ 32" "unat b + 8 \<le> 2 ^ 32"
    "unat a + 8 \<le> unat b \<or> unat b + 8 \<le> unat a"
    using validate_streams_Ok [OF val] by blast
  let ?cipher = "map2 (+) (peek8 (memory_st v) (ctx v) a) (take 8 (stk v))"
  have plain: "into_elements p1 @ into_elements p2 = peek8 (memory_st v) (ctx v) a"
    using read_two_words(2) [OF ab(3)] rd by (simp add: ab)
  have top: "take 8 (stk v) = [stk v ! 0, stk v ! 1, stk v ! 2, stk v ! 3, stk v ! 4, stk v ! 5, stk v ! 6, stk v ! 7]"
    using assms(1) by (intro nth_equalityI) (auto simp: nth_Cons' numeral_eq_Suc less_Suc_eq)
  have cipher: "?cipher = [word_a p1 + stk v ! 0, word_b p1 + stk v ! 1, word_c p1 + stk v ! 2, word_d p1 + stk v ! 3,
      word_a p2 + stk v ! 4, word_b p2 + stk v ! 5, word_c p2 + stk v ! 6, word_d p2 + stk v ! 7]"
    unfolding top plain [symmetric] by (simp add: into_elements_def)
  have "v' = v\<lparr>memory_st := m2, stk := ?cipher @ drop 8 ((stk v)[12 := stk v ! 12 + 8, 13 := stk v ! 13 + 8])\<rparr>"
    using assms(1) unfolding v' cipher by (simp add: overlay_def list_update_append drop_update_swap)
  moreover have "peek m2 d x = (if d = ctx v \<and> unat b \<le> unat x \<and> unat x < unat b + 8 then ?cipher ! (unat x - unat b)
      else peek (memory_st v) d x)" for d x
    using write_two_words(2) [OF ab(4), of "memory_st v" "ctx v", of _ m1 _ m2 d x] wr unfolding cipher by (simp add: ab)
  ultimately show ?thesis
    using ab by blast
qed

end
