(* ===== verification/Ops_Correct.thy ===== *)
theory Ops_Correct
  imports Ops_Spec
begin

text \<open>
  The operations that reach beyond the stack, on the fast processor: FRI folding, Horner evaluation, Merkle path
  verification and update, the stream cipher, the arithmetic circuit, and the change of the depth by every operation.
\<close>

section \<open>The fast processor\<close>

lemma good_depth:
  assumes "good p"
  shows "16 \<le> length (stk (abs_vm p))" "length (stk (abs_vm p)) < 2 ^ 32"
  using assms wf_fastD(6-8) [of p] by (auto simp: related_def)

text \<open>A processor with given inputs, memory and advice, for the examples.\<close>

lemma state_with:
  assumes "length xs \<le> 16" "wf_memory m" "wf_advice a"
  shows "\<exists>p :: unit fast_processor. good p \<and> stk (abs_vm p) = xs @ replicate (16 - length xs) 0 \<and>
    memory_st p = m \<and> advice_st p = a \<and> options p = default_options \<and> ctx p = 0"
proof -
  obtain p :: "unit fast_processor" where p: "good p" "stk (abs_vm p) = xs @ replicate (16 - length xs) 0"
      "options p = default_options"
    using start_exists [OF assms(1)] by metis
  define q where "q = p\<lparr>memory_st := m, advice_st := a, ctx := 0\<rparr>"
  have "wf_fast q = wf_fast p" "live q = live p"
    by (simp_all add: q_def wf_fast_def live_def)
  then show ?thesis
    using p assms by (intro exI [of _ q]) (auto simp: q_def related_def)
qed

text \<open>An environment for the examples: the permutation that does nothing, and no deferred state.\<close>

definition example_env :: "unit env" where
  "example_env = \<lparr>env_perm = (\<lambda>s. s), env_deferred_root = (\<lambda>_. EMPTY_WORD),
    env_log_verified_statement = (\<lambda>_ _ _. Inr ())\<rparr>"

text \<open>An advice provider with one inner node, and a memory with one word.\<close>

definition example_advice :: advice where
  "example_advice =
    \<lparr>adv_stack = [], adv_map = fmempty,
     adv_store = store_insert fmempty \<lparr>in_value = QWord 1 2 3 4, in_left = QWord 1 2 3 4, in_right = QWord 5 6 7 8\<rparr>,
     merkle_store_node_count = 1, advice_size_bytes = 96, max_advice_size_bytes = 960\<rparr>"

definition example_memory :: "qword \<Rightarrow> memory" where
  "example_memory w = \<lparr>mem_map = fmupd (0, 0) w fmempty, max_entries = 8\<rparr>"

lemma example_wf: "wf_memory (example_memory w)" "wf_advice example_advice"
proof -
  show "wf_memory (example_memory w)"
    by (simp add: wf_memory_def example_memory_def fcard.rep_eq)
  have "held_bytes example_advice = 96"
    by (simp add: held_bytes_def example_advice_def byte_sizes store_insert_def fcard.rep_eq map_bytes_def)
  then show "wf_advice example_advice"
    by (simp add: wf_advice_def) (simp add: example_advice_def usize_max_def store_insert_def fcard.rep_eq)
qed

lemma example_state:
  obtains p :: "unit fast_processor" where "good p" "stk (abs_vm p) = take 16 (xs @ replicate 16 0)"
    "memory_st p = example_memory w" "advice_st p = example_advice" "ctx p = 0" "options p = default_options"
  using state_with [of "take 16 xs", OF _ example_wf(1) [of w] example_wf(2)] by auto

text \<open>Looking up and verifying the node of the example.\<close>

lemma example_store:
  "wf_store (env_perm example_env) (adv_store example_advice)"
  "get_path (adv_store example_advice) (QWord 1 2 3 4) \<lparr>ni_depth = 1, ni_position = 0\<rparr> = Ok (QWord 1 2 3 4, [QWord 5 6 7 8])"
  "node_index_from_elements 1 0 = Ok \<lparr>ni_depth = 1, ni_position = 0\<rparr>"
  by (simp_all add: wf_store_def example_advice_def store_insert_def merge_def digest_of_def example_env_def
      get_path_def is_nth_bit_odd_def Let_def node_index_from_elements_def node_index_new_def bit_length.simps)

lemma example_mpverify:
  assumes "stk v = [1, 2, 3, 4, 1, 0, 1, 2, 3, 4, 0, 0, 0, 0, 0, 0]" "advice_st v = example_advice"
  shows "execute_op (ref example_env) (MpVerify 0) v = Ok (HMerklePath 0, v)"
  using assms example_store by (intro mpverify_complete_ref) (simp_all add: word_at_def)

lemma example_root: "compute_root (env_perm example_env) [w] (as_canonical_u64 0) node = Ok node"
  using compute_root_valid [of "[w]" 0 "\<lparr>ni_depth = 1, ni_position = 0\<rparr>"]
  by (simp add: node_index_new_def bit_length.simps build_node_def is_position_odd_def merge_def digest_of_def example_env_def
      as_canonical_0 [THEN iffD2])

lemma example_update:
  "\<exists>r a. update_merkle_node (env_perm example_env) example_advice (QWord 1 2 3 4) 1 0 (QWord 9 8 7 6) =
    Ok (([QWord 5 6 7 8], r), a)"
proof -
  let ?i = "\<lparr>ni_depth = 1, ni_position = 0\<rparr> :: node_index"
  have idx: "node_index_new (length [QWord 5 6 7 8]) 0 = Ok ?i"
    by (simp add: node_index_new_def bit_length.simps)
  have "\<exists>n. new_path_node_count (env_perm example_env) (adv_store example_advice) 0 (QWord 9 8 7 6) [QWord 5 6 7 8] = Ok n \<and> n \<le> 1"
    using authenticated_nodes_valid [OF idx, of "env_perm example_env" "QWord 9 8 7 6"]
    by (simp add: new_path_node_count_def new_internal_node_count_def Let_def)
  then obtain n where n: "n \<le> 1" "new_path_node_count (env_perm example_env) (adv_store example_advice) 0 (QWord 9 8 7 6) [QWord 5 6 7 8] = Ok n"
    by blast
  have "check_merkle_store_node_addition example_advice n = Ok ()" "merkle_node_bytes n = Ok (96 * n)"
    using n(1) by (simp_all add: budget_Ok usize_max_def) (simp add: example_advice_def)
  then show ?thesis
    using n(2) add_merkle_path_valid [OF idx, of "env_perm example_env" "adv_store example_advice" "QWord 9 8 7 6"]
      example_store(2,3)
    by (simp add: update_merkle_node_def to_node_index_def)
qed

lemma example_mrupdate:
  assumes s: "stk v = [1, 2, 3, 4, 1, 0, 1, 2, 3, 4, 9, 8, 7, 6, 0, 0]" and "advice_st v = example_advice"
  shows "\<exists>h v'. execute_op (ref example_env) MrUpdate v = Ok (h, v')"
proof -
  obtain r a where "update_merkle_node (env_perm example_env) (advice_st v) (QWord 1 2 3 4) 1 0 (QWord 9 8 7 6) =
    Ok (([QWord 5 6 7 8], r), a)"
    using example_update assms(2) by auto
  moreover have "path_verify (env_perm example_env) [QWord 5 6 7 8] (as_canonical_u64 0) (QWord 1 2 3 4) (QWord 1 2 3 4) = Ok ()"
    by (simp add: path_verify_Ok example_root)
  ultimately show ?thesis
    using s by (simp add: op_mrupdate_def validate_merkle_depth_def Let_def MAX_MERKLE_DEPTH_def ref_advice ref_hasher
        with_advice_def validate_merkle_path_length_def validate_materialized_merkle_path_length_def
        update_merkle_root_def example_root)
qed

lemma ref_write_word:
  "mem_write_word (memory (ref E)) v c a k w =
    bindO (map_err MemoryErr (write_word (memory_st v) c a w)) (\<lambda>m. Ok (v\<lparr>memory_st := m\<rparr>))"
  by (simp add: processor_sel)

lemma example_crypto_stream:
  assumes "stk v = [1, 2, 3, 4, 5, 6, 7, 8, 0, 0, 0, 0, 0, 8, 0, 0]" "memory_st v = example_memory w" "ctx v = 0"
  shows "\<exists>h v'. execute_op (ref example_env) CryptoStream v = Ok (h, v')"
proof -
  have a: "clean_addr 0 = Ok 0" "clean_addr 4 = Ok 4" "clean_addr 8 = Ok 8" "clean_addr 12 = Ok 12"
    by (simp_all add: clean_addr_def Let_def word_unat_eq_iff unsigned_ucast_eq take_bit_eq_mod)
  have u: "as_canonical_u64 0 = 0" "as_canonical_u64 8 = 8"
    by (simp_all add: word_unat_eq_iff)
  show ?thesis
    using assms
    by (simp add: op_crypto_stream_def validate_dual_word_stream_addrs_def Let_def addr_u32_def add_u64_def u
      MEMORY_SIZE_def U32_MAX_def WORD_SIZE_FELT_def ref_read_word read_word_def a read_word_impl_def enforce_word_aligned_addr_def
      write_word_def example_memory_def would_exceed_def fcard.rep_eq ref_write_word)
qed

section \<open>Correctness\<close>



text \<open>C14: The two Horner operations evaluate a polynomial: \<open>HornerBase\<close> with eight coefficients of the base field and
  \<open>HornerExt\<close> with four coefficients of the extension field take the point from the first two elements of the word at
  the address on the stack, and replace the accumulator by the value at that point of the polynomial with these
  coefficients continued by the accumulator; a word whose last two elements are not zero is refused. The coefficient on
  top of the stack has the highest degree, and of every element of the extension field the low coefficient stands above
  the high one.\<close>

theorem horner_evaluates:
  assumes "good p" "s = stk (abs_vm p)" "read_word (memory_st p) (ctx p) (s ! 13) = Ok (QWord a b c d)"
    "(op, ks) \<in> {(HornerBase, base_coefficients s), (HornerExt, ext_coefficients s)}"
    "r = poly_value (Quad a b) (Quad (s ! 14) (s ! 15)) ks"
  shows "if c = 0 \<and> d = 0
    then \<exists>h p'. execute_op (fast E) op p = Ok (h, p') \<and> good p' \<and> abs_vm p' = (abs_vm p)\<lparr>stk := s[14 := c0 r, 15 := c1 r]\<rparr>
    else execute_op (fast E) op p =
      Err (OperationErr (InvalidHornerEvaluationPointWord (ctx p) (as_canonical_u64 (s ! 13))))"
proof -
  note ref = horner_ref [OF good_depth(1) [OF assms(1)], of a b c d op ks r E]
  show ?thesis
  proof (cases "c = 0 \<and> d = 0")
    case True
    then obtain h where "execute_op (ref E) op (abs_vm p) = Ok (h, (abs_vm p)\<lparr>stk := s[14 := c0 r, 15 := c1 r]\<rparr>)"
      using ref assms(2-5) by auto
    from execute_op_ref [OF assms(1) this] show ?thesis
      using True by auto
  next
    case False
    then show ?thesis
      using ref assms(2-5) by (auto intro!: execute_op_ref_err [OF assms(1)] simp del: abs_vm_sel(9) execute_op.simps)
  qed
qed

theorem horner_evaluates_witness:
  "\<exists>p h p'. good p \<and> execute_op (fast example_env) HornerBase p = Ok (h, p') \<and>
    drop 14 (take 16 (stk (abs_vm p'))) = [263, 0]"
proof -
  obtain p :: "unit fast_processor" where p: "good p" "stk (abs_vm p) = [0, 0, 0, 0, 0, 0, 1, 5, 0, 0, 0, 0, 0, 0, 1, 0]"
      "memory_st p = example_memory (QWord 2 0 0 0)" "ctx p = 0"
    using example_state [of "[0, 0, 0, 0, 0, 0, 1, 5, 0, 0, 0, 0, 0, 0, 1, 0]" "QWord 2 0 0 0"] by auto
  have "read_word (memory_st p) (ctx p) (from_u32 0) = Ok (QWord 2 0 0 0)"
    by (simp add: p read_word_def read_word_impl_def enforce_word_aligned_addr_def example_memory_def)
  then have rd: "read_word (memory_st p) (ctx p) (stk (abs_vm p) ! 13) = Ok (QWord 2 0 0 0)"
    by (simp add: p(2) from_u32_def new_unchecked_def del: abs_vm_sel)
  show ?thesis
    using horner_evaluates [OF p(1) refl rd, where op = HornerBase and E = example_env, OF _ refl, OF insertI1] p(1,2)
    by (auto simp: coefficient_lists poly_value_fold simp del: abs_vm_sel execute_op.simps)
qed

text \<open>C10: \<open>MpVerify\<close> is sound: when it succeeds it has changed nothing, and there is a path of the length of the
  depth on the stack, between 1 and 64, that leads from the node on the stack at the index on the stack to the root on
  the stack.\<close>

theorem mpverify_sound:
  assumes "good p" "execute_op (fast E) (MpVerify e) p = Ok (h, p')"
  shows "abs_vm p' = abs_vm p \<and> (\<exists>path. opens E path (stk (abs_vm p) ! 4) (stk (abs_vm p) ! 5)
    (word_at (stk (abs_vm p)) 0) (word_at (stk (abs_vm p)) 6))"
  using execute_op_fast [OF assms] mpverify_ref [OF good_depth(1) [OF assms(1)]] by metis

theorem mpverify_sound_witness:
  "\<exists>p p'. good p \<and> execute_op (fast example_env) (MpVerify 0) p = Ok (HMerklePath 0, p') \<and> abs_vm p' = abs_vm p"
proof -
  obtain p :: "unit fast_processor" where p: "good p" "stk (abs_vm p) = [1, 2, 3, 4, 1, 0, 1, 2, 3, 4, 0, 0, 0, 0, 0, 0]"
      "advice_st p = example_advice"
    using example_state [of "[1, 2, 3, 4, 1, 0, 1, 2, 3, 4, 0, 0, 0, 0, 0, 0]" EMPTY_WORD] by auto
  obtain p' where "execute_op (fast example_env) (MpVerify 0) p = Ok (HMerklePath 0, p')"
    using execute_op_ref [OF p(1) example_mpverify [of "abs_vm p"]] p(2,3) by (auto simp del: execute_op.simps)
  then show ?thesis
    using mpverify_sound [OF p(1)] p(1) by blast
qed

text \<open>C11: \<open>MpVerify\<close> is complete: when every entry of the advice provider's Merkle store is the hash of its children
  and the store holds the node of the stack at the index and depth of the stack under the root of the stack, the
  operation succeeds and changes nothing. The one exception is depth zero, the root itself, which is refused with
  \<open>MerkleDepthOutOfRange\<close>.\<close>

theorem mpverify_complete:
  assumes "good p" "s = stk (abs_vm p)" "wf_store (env_perm E) (adv_store (advice_st p))"
    "node_index_from_elements (s ! 4) (s ! 5) = Ok idx"
    "get_path (adv_store (advice_st p)) (word_at s 6) idx = Ok (word_at s 0, path)"
  shows "if s ! 4 = 0 then execute_op (fast E) (MpVerify e) p = Err (OperationErr (MerkleDepthOutOfRange 0))
    else \<exists>p'. execute_op (fast E) (MpVerify e) p = Ok (HMerklePath 0, p') \<and> good p' \<and> abs_vm p' = abs_vm p"
proof (cases "s ! 4 = 0")
  case True
  then have "stk (abs_vm p) ! 4 = 0" using assms(2) by simp
  from execute_op_ref_err [OF assms(1) mpverify_root_ref [OF good_depth(1) [OF assms(1)] this]] show ?thesis
    using True by simp
next
  case False
  then have "execute_op (ref E) (MpVerify e) (abs_vm p) = Ok (HMerklePath 0, abs_vm p)"
    using assms by (intro mpverify_complete_ref [OF good_depth(1) [OF assms(1)]]) (simp_all del: abs_vm_sel(9))
  from execute_op_ref [OF assms(1) this] show ?thesis
    using False by auto
qed

theorem mpverify_complete_witness:
  "\<exists>p p'. good p \<and> execute_op (fast example_env) (MpVerify 7) p = Ok (HMerklePath 0, p') \<and> good p'"
proof -
  obtain p :: "unit fast_processor" where p: "good p" "stk (abs_vm p) = [1, 2, 3, 4, 1, 0, 1, 2, 3, 4, 0, 0, 0, 0, 0, 0]"
      "advice_st p = example_advice"
    using example_state [of "[1, 2, 3, 4, 1, 0, 1, 2, 3, 4, 0, 0, 0, 0, 0, 0]" EMPTY_WORD] by auto
  show ?thesis
    using mpverify_complete [OF p(1) refl, of example_env "\<lparr>ni_depth = 1, ni_position = 0\<rparr>" "[QWord 5 6 7 8]" 7]
      example_store p by (auto simp: word_at_def simp del: abs_vm_sel(9) execute_op.simps)
qed

text \<open>C12: \<open>MrUpdate\<close> is sound: when it succeeds there is one path that leads from the old value on the stack to the old
  root on the stack and from the new value to the root it leaves on the stack; the rest of the stack, and everything
  but the advice provider, is unchanged.\<close>

theorem mrupdate_sound:
  assumes "good p" "execute_op (fast E) MrUpdate p = Ok (h, p')" "s = stk (abs_vm p)"
  shows "\<exists>path root. opens E path (s ! 4) (s ! 5) (word_at s 0) (word_at s 6) \<and>
    opens E path (s ! 4) (s ! 5) (word_at s 10) root \<and>
    abs_vm p' = (abs_vm p)\<lparr>stk := into_elements root @ drop 4 s, advice_st := advice_st p'\<rparr>"
  using execute_op_fast [OF assms(1,2)] mrupdate_ref [OF good_depth(1) [OF assms(1)]] assms(3)
  by (metis abs_vm_sel(4))

theorem mrupdate_sound_witness:
  "\<exists>p h p'. good p \<and> execute_op (fast example_env) MrUpdate p = Ok (h, p') \<and> take 4 (stk (abs_vm p')) = [9, 8, 7, 6]"
proof -
  obtain p :: "unit fast_processor" where p: "good p" "stk (abs_vm p) = [1, 2, 3, 4, 1, 0, 1, 2, 3, 4, 9, 8, 7, 6, 0, 0]"
      "advice_st p = example_advice"
    using example_state [of "[1, 2, 3, 4, 1, 0, 1, 2, 3, 4, 9, 8, 7, 6, 0, 0]" EMPTY_WORD] by auto
  obtain h p' where r: "execute_op (fast example_env) MrUpdate p = Ok (h, p')"
    using execute_op_ref [OF p(1)] example_mrupdate [of "abs_vm p"] p(2,3) by (metis abs_vm_sel(4))
  obtain path root where o: "opens example_env path 1 0 (QWord 9 8 7 6) root"
    and v': "abs_vm p' = (abs_vm p)\<lparr>stk := into_elements root @ drop 4 (stk (abs_vm p)), advice_st := advice_st p'\<rparr>"
    using mrupdate_sound [OF p(1) r refl] p(2) by (auto simp: word_at_def simp del: abs_vm_sel(9))
  have "root = QWord 9 8 7 6"
    using o example_root by (auto simp: opens_def length_Suc_conv)
  then have "take 4 (stk (abs_vm p')) = [9, 8, 7, 6]"
    unfolding v' by simp
  then show ?thesis
    using p(1) r by blast
qed

text \<open>C15: \<open>CryptoStream\<close> adds the eight elements at the source address to the eight elements on top of the stack, and
  leaves the sums both there and at the destination address; the two addresses move on by eight. It only succeeds on
  two regions inside the memory that do not overlap, and changes no other address and no other context.\<close>

theorem crypto_stream_encrypts:
  assumes "good p" "execute_op (fast E) CryptoStream p = Ok (h, p')" "s = stk (abs_vm p)"
  shows "\<exists>a b cipher. s ! 12 = from_u32 a \<and> s ! 13 = from_u32 b \<and>
    unat a + 8 \<le> 2 ^ 32 \<and> unat b + 8 \<le> 2 ^ 32 \<and> (unat a + 8 \<le> unat b \<or> unat b + 8 \<le> unat a) \<and>
    cipher = map2 (+) (peek8 (memory_st p) (ctx p) a) (take 8 s) \<and>
    abs_vm p' = (abs_vm p)\<lparr>memory_st := memory_st p', stk := cipher @ drop 8 (s[12 := s ! 12 + 8, 13 := s ! 13 + 8])\<rparr> \<and>
    (\<forall>d x. peek (memory_st p') d x = (if d = ctx p \<and> unat b \<le> unat x \<and> unat x < unat b + 8
      then cipher ! (unat x - unat b) else peek (memory_st p) d x))"
proof -
  obtain a b cipher m where "s ! 12 = from_u32 a" "s ! 13 = from_u32 b"
    "unat a + 8 \<le> 2 ^ 32" "unat b + 8 \<le> 2 ^ 32" "unat a + 8 \<le> unat b \<or> unat b + 8 \<le> unat a"
    "cipher = map2 (+) (peek8 (memory_st p) (ctx p) a) (take 8 s)"
    and v': "abs_vm p' = (abs_vm p)\<lparr>memory_st := m, stk := cipher @ drop 8 (s[12 := s ! 12 + 8, 13 := s ! 13 + 8])\<rparr>"
    and "\<forall>d x. peek m d x = (if d = ctx p \<and> unat b \<le> unat x \<and> unat x < unat b + 8
      then cipher ! (unat x - unat b) else peek (memory_st p) d x)"
    using crypto_stream_ref [OF good_depth(1) [OF assms(1)], of E h "abs_vm p'"] execute_op_fast [OF assms(1,2)] assms(3)
    unfolding abs_vm_sel(2,5) by blast
  moreover have "memory_st p' = m"
    using arg_cong [OF v', of memory_st] by simp
  ultimately show ?thesis by blast
qed

theorem crypto_stream_encrypts_witness:
  "\<exists>p h p'. good p \<and> execute_op (fast example_env) CryptoStream p = Ok (h, p') \<and> peek (memory_st p') 0 9 = 32"
proof -
  obtain p :: "unit fast_processor" where p: "good p" "stk (abs_vm p) = [1, 2, 3, 4, 5, 6, 7, 8, 0, 0, 0, 0, 0, 8, 0, 0]"
      "memory_st p = example_memory (QWord 20 30 40 50)" "ctx p = 0"
    using example_state [of "[1, 2, 3, 4, 5, 6, 7, 8, 0, 0, 0, 0, 0, 8, 0, 0]" "QWord 20 30 40 50"] by auto
  obtain h p' where r: "execute_op (fast example_env) CryptoStream p = Ok (h, p')"
    using execute_op_ref [OF p(1)] example_crypto_stream [of "abs_vm p"] p(2-4) by (metis abs_vm_sel(2,5))
  obtain a b cipher where ab: "from_u32 a = 0" "from_u32 b = 8"
    and cipher: "cipher = map2 (+) (peek8 (memory_st p) (ctx p) a) (take 8 (stk (abs_vm p)))"
    and mem: "\<forall>d x. peek (memory_st p') d x = (if d = ctx p \<and> unat b \<le> unat x \<and> unat x < unat b + 8
      then cipher ! (unat x - unat b) else peek (memory_st p) d x)"
    using crypto_stream_encrypts [OF p(1) r refl] unfolding p(2) by auto
  have u: "unat a = 0" "unat b = 8"
    using arg_cong [OF ab(1), of val] arg_cong [OF ab(2), of val] by simp_all
  then have "a = 0" by (simp add: word_unat_eq_iff)
  then have "cipher ! 1 = 32"
    by (simp add: cipher p peek8_def upt_rec peek_def example_memory_def split_addr_def Let_def del: abs_vm_sel)
  then have "peek (memory_st p') 0 9 = 32"
    using mem p(4) u by simp
  with p(1) r show ?thesis by blast
qed

text \<open>C8: Every operation changes the depth of the stack as the instruction set classifies it: by one more for the
  operations of \<open>increments_stack_size\<close>, by one less but not below sixteen for those of \<open>decrements_stack_size\<close>, and not
  at all for the others.\<close>

theorem execute_op_depth_change:
  assumes "good p" "execute_op (fast E) op p = Ok (h, p')"
  shows "length (stk (abs_vm p')) = depth_after op (length (stk (abs_vm p))) \<and> 16 \<le> length (stk (abs_vm p')) \<and>
    length (stk (abs_vm p')) + total_saved (abs_vm p') \<le> max_stack_depth (options p')"
  using execute_op_fast [OF assms] execute_op_depth [OF good_depth [OF assms(1)], of E op h "abs_vm p'"]
    good_depth(1) [of p'] wf_fastD(6) [of p'] total_saved_abs [of p']
  by (auto simp: related_def)

theorem execute_op_depth_change_witness:
  "\<exists>p h p'. good p \<and> execute_op (fast example_env) Pad p = Ok (h, p') \<and> length (stk (abs_vm p')) = 17"
proof -
  obtain p :: "unit fast_processor" where p: "good p" "stk (abs_vm p) = replicate 16 0" "options p = default_options"
      "saved (abs_vm p) = []"
    using start_exists [of "[]" "()"] by (metis append_Nil diff_zero list.size(3) zero_le)
  have "\<exists>h v. execute_op (ref example_env) Pad (abs_vm p) = Ok (h, v)"
    using p by (simp add: op_pad_def vm_push total_saved_def default_options_def)
  then obtain h p' where r: "execute_op (fast example_env) Pad p = Ok (h, p')"
    using execute_op_ref [OF p(1)] by blast
  then show ?thesis
    using execute_op_depth_change [OF p(1) r] p(1,2) by (auto simp: depth_after_def increments_stack_size_def simp del: abs_vm_sel(9))
qed

end
