(* ===== verification/Program_Correct.thy ===== *)
theory Program_Correct
  imports Context_Run Ops_Correct
begin

text \<open>
  What running a program on the fast processor promises: it ends, it does what the machine on lists does, it can be
  stopped after any clock cycle, it returns from its calls, and the operations of its blocks leave the registers of the
  control flow alone.
\<close>

section \<open>A program to run\<close>

text \<open>The block \<open>[Add, Noop]\<close> as the builder packs it, and a host that knows no procedure and no event.\<close>

definition example_batch :: op_batch where
  "example_batch =
    \<lparr>ob_ops = [Add, Noop], ob_indptr = [0, 2, 2, 2, 2, 2, 2, 2, 2], ob_padding = replicate 8 False,
     ob_groups = replicate 8 0, ob_num_groups = 1\<rparr>"

definition example_node :: mast_node where
  "example_node = Block \<lparr>op_batches = [example_batch], bb_digest = EMPTY_WORD\<rparr>"

definition example_forest :: mast_forest where
  "example_forest = \<lparr>mf_nodes = [example_node], mf_roots = [0], mf_advice_map = fmempty\<rparr>"

definition example_program :: program where
  "example_program = \<lparr>pr_forest = example_forest, pr_entrypoint = 0, pr_kernel = []\<rparr>"

text \<open>The same block behind a system call.\<close>

definition example_call_forest :: mast_forest where
  "example_call_forest =
    \<lparr>mf_nodes = [example_node, Call \<lparr>callee = 0, is_syscall = True, cn_digest = EMPTY_WORD\<rparr>], mf_roots = [0, 1], mf_advice_map = fmempty\<rparr>"

definition example_call :: program where
  "example_call = \<lparr>pr_forest = example_call_forest, pr_entrypoint = 1, pr_kernel = [EMPTY_WORD]\<rparr>"

definition example_host :: "(unit, unit) host" where
  "example_host =
    \<lparr>get_mast_forest = (\<lambda>h _. (h, None)), on_event = (\<lambda>h _. (h, None)), on_trace = (\<lambda>h _. (h, Some ())),
     deferred_event = (\<lambda>_ _. Inl DeferredErr)\<rparr>"

lemma example_ok:
  "host_ok example_host" "wf_forest (pr_forest example_program)"
  "pr_entrypoint example_program < length (mf_nodes (pr_forest example_program))"
  "wf_forest (pr_forest example_call)" "pr_entrypoint example_call < length (mf_nodes (pr_forest example_call))"
  by (simp_all add: host_ok_def example_host_def example_program_def example_forest_def example_call_def example_call_forest_def
      wf_forest_def wf_node_def node_children_def example_node_def)

lemma example_ops:
  fixes v :: "unit vm"
  assumes "stk v = 3 # 4 # replicate 14 0"
  shows "\<exists>h. execute_op (ref example_env) Add v = Ok (h, v\<lparr>stk := 7 # replicate 15 0\<rparr>)"
proof -
  have "pad16 (7 # replicate 14 0) = (7 :: felt) # replicate 15 0"
    using replicate_add [of 14 1 "0 :: felt"] by (simp add: pad16_def)
  then show ?thesis
    using all_follow [of v example_env Add] assms by (simp add: follows_def outcome_of_def)
qed

lemma example_noop:
  fixes v :: "unit vm"
  assumes "stk v = 7 # replicate 15 0"
  shows "\<exists>h. execute_op (ref example_env) Noop v = Ok (h, v)"
  using all_follow [of v example_env Noop] assms by (simp add: follows_def outcome_of_def)

lemma example_context:
  fixes v :: "unit vm"
  assumes "wf_advice (advice_st v)" "mf_advice_map (pr_forest prog) = fmempty"
  shows "get_initial_resume_context prog v =
    Ok \<lparr>proc = v, conts = [StartNode (pr_entrypoint prog)], current_forest = pr_forest prog\<rparr>"
  using assms
  by (simp add: get_initial_resume_context_def set_advice_def extend_map_def map_entries_def
      sorted_list_of_fset.rep_eq check_advice_size_addition_def checked_add_def map_merge_def merge_new_def wf_advice_def)

lemma example_cycle:
  fixes v :: "unit vm"
  assumes "clk v < 1000" "options v = default_options" "length cs \<le> 3"
  shows "finalize_clock_cycle_with_continuation (ref example_env) never_stopper c \<lparr>proc = v, conts = cs, current_forest = f\<rparr> =
    Ok (Continue \<lparr>proc = v\<lparr>clk := clk v + 1\<rparr>, conts = cs, current_forest = f\<rparr>)"
proof -
  have "clk v + 1 \<le> 1000" using assms(1) by (simp add: inc_le)
  also have "1000 \<le> MAX_CYCLES" by (simp add: MAX_CYCLES_def)
  finally show ?thesis
    using assms(2,3)
    by (simp add: finalize_clock_cycle_with_continuation_def never_stopper_def processor_sel increment_clock_def Let_def
        check_if_max_cycles_exceeded_def check_if_continuation_stack_too_large_def default_options_def not_less)
qed

lemma example_block:
  fixes v :: "unit vm"
  assumes "stk v = 3 # 4 # replicate 14 0" "options v = default_options" "clk v = 0 \<or> clk v = 1" "length cs \<le> 3"
    "get_node_by_id f 0 = Some example_node"
  shows "execute_continuation (ref example_env) never_stopper K (StartNode 0) \<lparr>proc = v, conts = cs, current_forest = f\<rparr> =
    Ok (Continue \<lparr>proc = v\<lparr>stk := 7 # replicate 15 0, clk := clk v + 4\<rparr>, conts = cs, current_forest = f\<rparr>)"
proof -
  let ?u = "v\<lparr>clk := clk v + 1\<rparr>"
  let ?w = "?u\<lparr>stk := 7 # replicate 15 0, clk := clk v + 2\<rparr>"
  obtain h where h: "execute_op (ref example_env) Add ?u = Ok (h, ?u\<lparr>stk := 7 # replicate 15 0\<rparr>)"
    using example_ops [of ?u] assms(1) by auto
  obtain g where g: "execute_op (ref example_env) Noop ?w = Ok (g, ?w)"
    using example_noop [of ?w] by auto
  have "clk v < 996" using assms(3) by auto
  then have small: "clk v < 1000" "clk v + 1 < 1000" "clk v + 2 < 1000" "clk v + 3 < 1000"
    using assms(3) by auto
  show ?thesis
    using assms(2,4,5) h g small
    by (simp add: execute_continuation_def start_node_def unwrap_node_def example_node_def example_batch_def
        execute_basic_block_node_from_start_def execute_basic_block_node_from_batch_def execute_op_batch_def
        example_cycle finish_basic_block_def bind_flow_def fetch_def get_continuation_after_executing_operation_def usub_def
        add.assoc del: execute_op.simps)
qed

section \<open>Programs\<close>

definition abs_exec :: "'d fast_processor exec_state \<Rightarrow> 'd vm exec_state" where
  "abs_exec s = \<lparr>proc = abs_vm (proc s), conts = conts s, current_forest = current_forest s\<rparr>"

definition runnable :: "program \<Rightarrow> 'd fast_processor \<Rightarrow> bool" where
  "runnable prog p \<longleftrightarrow>
    good p \<and> clk p \<le> max_cycles (options p) \<and> max_cycles (options p) < 0xFFFFFFFF \<and>
    wf_forest (pr_forest prog) \<and> pr_entrypoint prog < length (mf_nodes (pr_forest prog))"

lemma exec_rel_abs: "exec_rel related s t \<longleftrightarrow> good (proc s) \<and> wf_exec s \<and> t = abs_exec s"
  by (cases t) (auto simp: exec_rel_def related_def abs_exec_def)

lemma rounds_end:
  assumes "rounds E V H P never_stopper K n (h, s) = Inl (Ok (h', s', e))"
  shows "conts s' = [] \<and> (\<exists>out. e = Outputs out \<and> stack_outputs (stk (obs_view V (proc s'))) = Some out)"
  using assms
proof (induction n arbitrary: h s)
  case (Suc n)
  then show ?case
    using round_end [of E V H P K h s h' s' e] by (auto split: sum.splits)
qed simp

lemma initial_context:
  fixes p :: "'d fast_processor"
  assumes "runnable prog p"
  shows "sim (exec_rel (timed (unat (clk p)) (options p))) (get_initial_resume_context prog p)
    (get_initial_resume_context prog (abs_vm p))"
proof -
  have T: "timed (unat (clk p)) (options p) p (abs_vm p)"
    using assms by (auto simp: runnable_def framed_def timely_iff word_le_nat_alt word_less_nat_alt)
  note R = framed_related [OF T]
  have "keeps_advice (extend_map (advice_st p) (mf_advice_map (pr_forest prog)))"
    by (rule keeps_map [OF timed_run.advice_wf_law [OF T]])
  from timed_run.set_advice_sim [OF T this] show ?thesis
    unfolding get_initial_resume_context_def
    using assms by (elim sim_cases) (auto simp: exec_rel_def wf_exec_def runnable_def)
qed

lemma timed_related: "exec_rel (timed c opts) s t \<Longrightarrow> exec_rel related s t"
  by (simp add: exec_rel_def framed_def)

lemma run_sim_halts:
  fixes s :: "'d fast_processor exec_state"
  assumes "exec_rel (timed c opts) s t" "host_ok H"
  obtains n r r' where "rounds E fast_observer H (fast E) never_stopper K n (h, s) = Inl r"
    "run_impl E fast_observer H (fast E) never_stopper K h s = Some r"
    "run_impl E ref_observer H (ref E) never_stopper K h t = Some r'" "sim (end_rel related) r r'"
proof -
  obtain n r where n: "rounds E fast_observer H (fast E) never_stopper K n (h, s) = Inl r"
    using halts [OF assms] by blast
  with fast_run.rounds_sim [OF timed_related [OF assms(1)] assms(2), of E E K n h]
  obtain r' where r': "rounds E ref_observer H (ref E) never_stopper K n (h, t) = Inl r'" "sim (end_rel related) r r'"
    by (auto elim: rel_sum.cases)
  show ?thesis
    by (rule that [OF n run_impl_rounds(1) [OF n] run_impl_rounds(1) [OF r'(1)] r'(2)])
qed

lemma runs_agree:
  fixes p :: "'d fast_processor"
  assumes "runnable prog p" "host_ok H"
  obtains r r' where "execute_sync E fast_observer H (fast E) prog h p = Some r"
    "execute_sync E ref_observer H (ref E) prog h (abs_vm p) = Some r'" "sim (end_rel related) r r'"
  using initial_context [OF assms(1)]
proof (elim sim_cases)
  fix s t assume s: "get_initial_resume_context prog p = Ok s" "get_initial_resume_context prog (abs_vm p) = Ok t"
    and rel: "exec_rel (timed (unat (clk p)) (options p)) s t"
  obtain n r r' where "run_impl E fast_observer H (fast E) never_stopper (pr_kernel prog) h s = Some r"
      "run_impl E ref_observer H (ref E) never_stopper (pr_kernel prog) h t = Some r'" "sim (end_rel related) r r'"
    by (rule run_sim_halts [OF rel assms(2), where E = E])
  then show ?thesis
    using s by (intro that) (simp_all add: execute_sync_def)
next
  fix e assume "get_initial_resume_context prog p = Err e" "get_initial_resume_context prog (abs_vm p) = Err e"
  then show ?thesis
    by (intro that [of "Err e" "Err e"]) (simp_all add: execute_sync_def)
qed

text \<open>C1: A program runs on the fast processor as on the machine whose stack is a list: the run always returns, without a
  panic, either with the error of the other machine, or with the same outputs, the same state of the host and a state
  that stands for the final state of the other machine.\<close>

theorem program_refines:
  assumes "runnable prog p" "host_ok H"
  shows "case execute_sync E fast_observer H (fast E) prog h p of
      Some (Ok (h', s, e)) \<Rightarrow>
        good (proc s) \<and> execute_sync E ref_observer H (ref E) prog h (abs_vm p) = Some (Ok (h', abs_exec s, e))
    | Some (Err e) \<Rightarrow> execute_sync E ref_observer H (ref E) prog h (abs_vm p) = Some (Err e)
    | _ \<Rightarrow> False"
  by (rule runs_agree [OF assms, of E h]) (auto elim!: sim_cases simp: rel_prod_sel exec_rel_abs)

lemma example_run:
  fixes v :: "unit vm"
  assumes "stk v = 3 # 4 # replicate 14 0" "options v = default_options" "clk v = 0" "wf_advice (advice_st v)"
  shows "execute_sync example_env ref_observer example_host (ref example_env) example_program () v =
    Some (Ok ((), \<lparr>proc = v\<lparr>stk := 7 # replicate 15 0, clk := 4\<rparr>, conts = [], current_forest = example_forest\<rparr>,
      Outputs (7 # replicate 15 0)))"
proof -
  have "rounds example_env ref_observer example_host (ref example_env) never_stopper (pr_kernel example_program) (Suc (Suc 0))
      ((), \<lparr>proc = v, conts = [StartNode 0], current_forest = example_forest\<rparr>) =
    Inl (Ok ((), \<lparr>proc = v\<lparr>stk := 7 # replicate 15 0, clk := 4\<rparr>, conts = [], current_forest = example_forest\<rparr>,
      Outputs (7 # replicate 15 0)))"
    using example_block [OF assms(1,2), of "[]" example_forest "pr_kernel example_program"] assms(3)
    by (simp add: next_state_def after_break_def final_outputs_def ref_observer_def stack_outputs_def MIN_STACK_DEPTH_def Let_def
        example_forest_def get_node_by_id_def)
  from run_impl_rounds(1) [OF this] show ?thesis
    using example_context [OF assms(4), of example_program]
    by (simp add: execute_sync_def example_program_def example_forest_def)
qed

text \<open>A processor that starts with the inputs \<open>3\<close> and \<open>4\<close> can run the examples.\<close>

lemma example_start:
  obtains p :: "unit fast_processor" where "runnable example_program p" "runnable example_call p" "saved (abs_vm p) = []"
    "system_call_state_stack p = []" "stk (abs_vm p) = 3 # 4 # replicate 14 0" "options p = default_options" "clk p = 0"
    "wf_advice (advice_st p)"
    "execute_sync example_env ref_observer example_host (ref example_env) example_program () (abs_vm p) =
      Some (Ok ((), \<lparr>proc = (abs_vm p)\<lparr>stk := 7 # replicate 15 0, clk := 4\<rparr>, conts = [], current_forest = example_forest\<rparr>,
        Outputs (7 # replicate 15 0)))"
proof -
  obtain p :: "unit fast_processor" where p: "new_with_options () [] [3, 4] [] fmempty [] default_options = Ok p" "good p"
      "stk (abs_vm p) = [3, 4] @ replicate (16 - length [3 :: felt, 4]) 0" "saved (abs_vm p) = []" "options p = default_options"
    by (rule start_exists [of "[3, 4]" "()"]) simp_all
  have "clk p = 0" "system_call_state_stack p = []"
    using p(1) by (auto simp: new_with_options_def outcome_simps)
  moreover have "wf_advice (advice_st p)"
    using p(2) by (simp add: related_def)
  ultimately show ?thesis
    using p(2-5) example_ok example_run [of "abs_vm p"]
    by (intro that [of p]) (simp_all add: runnable_def default_options_def MAX_CYCLES_def)
qed

lemma example_fast_run:
  fixes p :: "unit fast_processor"
  assumes "runnable example_program p"
    "\<exists>s. execute_sync example_env ref_observer example_host (ref example_env) example_program () (abs_vm p) =
      Some (Ok ((), s, Outputs (7 # replicate 15 0)))"
  shows "\<exists>h s. execute_sync example_env fast_observer example_host (fast example_env) example_program () p =
      Some (Ok (h, s, Outputs (7 # replicate 15 0)))"
  by (rule runs_agree [OF assms(1) example_ok(1), of example_env "()"]) (use assms(2) in \<open>auto elim!: sim_cases\<close>)

theorem program_refines_witness:
  "\<exists>p h s. runnable example_program p \<and> good (proc s) \<and>
    execute_sync example_env fast_observer example_host (fast example_env) example_program () p =
      Some (Ok (h, s, Outputs (7 # replicate 15 0)))"
proof -
  obtain p :: "unit fast_processor" where p: "runnable example_program p"
    "\<exists>s. execute_sync example_env ref_observer example_host (ref example_env) example_program () (abs_vm p) =
      Some (Ok ((), s, Outputs (7 # replicate 15 0)))"
    by (rule example_start) blast
  then show ?thesis
    using program_refines [OF p(1) example_ok(1), of example_env "()"]
    by (auto split: option.splits outcome.splits prod.splits)
qed

text \<open>C2: Running a program ends: from a processor whose clock is within \<open>max_cycles\<close>, \<open>execute_sync\<close> returns for every
  well-formed program and every host, never panics, and when it succeeds nothing is left to do, the clock is still
  within \<open>max_cycles\<close>, and the outputs are the sixteen elements of the stack.\<close>

theorem program_halts:
  fixes p :: "'a fast_processor"
  assumes "runnable prog p" "host_ok H"
  shows "\<exists>r. execute_sync E fast_observer H (fast E) prog h p = Some r \<and> r \<noteq> Panic \<and>
    (\<forall>h' s e. r = Ok (h', s, e) \<longrightarrow>
      conts s = [] \<and> clk (proc s) \<le> max_cycles (options p) \<and> e = Outputs (stk (abs_vm (proc s))) \<and> length (stk (abs_vm (proc s))) = 16)"
  using initial_context [OF assms(1)]
proof (elim sim_cases)
  let ?T = "timed (unat (clk p)) (options p)"
  fix s and t :: "'a vm exec_state" assume s: "get_initial_resume_context prog p = Ok s"
    and rel: "exec_rel ?T s t"
  obtain n r r' where n: "rounds E fast_observer H (fast E) never_stopper (pr_kernel prog) n (h, s) = Inl r"
      "run_impl E fast_observer H (fast E) never_stopper (pr_kernel prog) h s = Some r" "sim (end_rel related) r r'"
    by (rule run_sim_halts [OF rel assms(2), where E = E])
  have "conts s' = [] \<and> clk (proc s') \<le> max_cycles (options p) \<and> e = Outputs (stk (abs_vm (proc s'))) \<and>
      length (stk (abs_vm (proc s'))) = 16" if r: "r = Ok (h', s', e)" for h' s' e
  proof -
    obtain out where out: "conts s' = []" "e = Outputs out" "stack_outputs (stk (abs_vm (proc s'))) = Some out"
      using rounds_end [OF n(1) [unfolded r]] by (auto simp: fast_observer_def)
    have "rel_sum (sim (end_rel ?T)) (rel_prod (=) (exec_rel ?T)) (Inl r)
        (rounds E ref_observer H (ref E) never_stopper (pr_kernel prog) n (h, t))"
      using timed_run.rounds_sim [OF rel assms(2), of E E "pr_kernel prog" n h] n(1) by simp
    then obtain t' :: "'a vm exec_state" where "?T (proc s') (proc t')"
      by (cases rule: rel_sum.cases) (auto simp: r exec_rel_def)
    then have "clk (proc s') \<le> max_cycles (options p)" "16 \<le> length (stk (abs_vm (proc s')))"
      by (auto simp: framed_def timely_iff related_def word_le_nat_alt wf_fast_def)
    then show ?thesis
      using out by (auto simp: stack_outputs_def MIN_STACK_DEPTH_def split: if_splits)
  qed
  then show ?thesis
    using n s by (intro exI [of _ r]) (auto simp: execute_sync_def elim: sim_cases)
qed (simp add: execute_sync_def)

theorem program_halts_witness:
  "\<exists>p r. runnable example_program p \<and> execute_sync example_env fast_observer example_host (fast example_env) example_program () p = Some r \<and>
    r \<noteq> Panic"
proof -
  obtain p :: "unit fast_processor" where p: "runnable example_program p"
    by (rule example_start)
  then show ?thesis
    using program_halts [OF p example_ok(1), of example_env "()"] by blast
qed

section \<open>Stepping\<close>

text \<open>The result of a run without the marker of its end.\<close>

definition run_outputs :: "('h \<times> 'p exec_state \<times> run_end) exec \<Rightarrow> ('h \<times> 'p exec_state \<times> felt list) exec" where
  "run_outputs r = bindO r (\<lambda>(h, s, e). case e of Outputs out \<Rightarrow> Ok (h, s, out) | StoppedAt _ \<Rightarrow> Panic)"

lemma resume_context_simps:
  "resume_context c s = resume_context None (with_cont c s)"
  "increments_clk j \<Longrightarrow> resume_context (Some j) s = push_cont j s"
  by (simp add: resume_context_def, cases j) (simp_all add: resume_context_def)

lemma steps_as_run:
  fixes s :: "'d fast_processor exec_state"
  assumes "exec_rel related s t" "host_ok H" "rounds E fast_observer H (fast E) never_stopper K n (h, s) = Inl r"
  shows "step_loop E fast_observer H (fast E) K h s = Some (run_outputs r)"
  using assms(1,3)
proof (induction n arbitrary: h s t rule: less_induct)
  case outer: (less n)
  show ?case
    using outer.prems
  proof (induction "case conts s of [] \<Rightarrow> 0 | k # _ \<Rightarrow> left_in_block (current_forest s) k" arbitrary: h s t rule: less_induct)
    case less
    let ?step = "next_state E fast_observer H (fast E) step_stopper K (h, s)"
    let ?never = "next_state E fast_observer H (fast E) never_stopper K"
    obtain m where m: "n = Suc m"
      using less.prems(2) by (cases n) simp_all
    note sim = fast_step.next_state_sim [OF less.prems(1) assms(2), of E E K h]
    have round: "case ?step of
        Inr x \<Rightarrow> ?never (h, s) = Inr x
      | Inl (Ok (h', s', StoppedAt c)) \<Rightarrow>
          ?never (h, s) = Inr (h', with_cont c s') \<or>
          (\<exists>k ks j. conts s = k # ks \<and> c = Some j \<and> increments_clk j \<and> h' = h \<and>
            left_in_block (current_forest s') j < left_in_block (current_forest s) k \<and> ?never (h, s) = ?never (h, push_cont j s'))
      | Inl Panic \<Rightarrow> True
      | Inl r \<Rightarrow> ?never (h, s) = Inl r"
      using step_round less.prems(1) by (fastforce simp: exec_rel_def)
    show ?case
    proof (cases ?step)
      case (Inr x)
      then obtain h' s' t' where x: "x = (h', s')" and t': "exec_rel related s' (t' :: 'd vm exec_state)"
        using sim by (auto elim!: rel_sum.cases rel_prod.cases)
      then show ?thesis
        using outer.IH [of m s' t' h'] less.prems(2) round m Inr by (simp add: step_loop_round [of _ _ _ _ _ h s])
    next
      case (Inl y)
      show ?thesis
      proof (cases "\<exists>h' s' c. y = Ok (h', s', StoppedAt c)")
        case True
        then obtain h' s' c where y: "y = Ok (h', s', StoppedAt c)" by blast
        obtain t' :: "'d vm exec_state" where t': "exec_rel related (resume_context c s') t'"
          using fast_step.stopped_rel [OF less.prems(1) assms(2) Inl [unfolded y]] by blast
        have "step_loop E fast_observer H (fast E) K h' (resume_context c s') = Some (run_outputs r)"
        proof (cases "?never (h, s) = Inr (h', with_cont c s')")
          case True
          then have "rounds E fast_observer H (fast E) never_stopper K m (h', with_cont c s') = Inl r"
            using less.prems(2) m by simp
          then obtain m' where "m' \<le> m" "rounds E fast_observer H (fast E) never_stopper K m' (h', resume_context c s') = Inl r"
            using leave_forests_rounds resume_context_simps(1) by metis
          then show ?thesis
            using outer.IH [OF _ t', of m' h'] m by simp
        next
          case False
          then obtain k ks j where j: "conts s = k # ks" "c = Some j" "increments_clk j" "h' = h"
              "left_in_block (current_forest s') j < left_in_block (current_forest s) k" "?never (h, s) = ?never (h, push_cont j s')"
            using round by (auto simp: Inl y)
          then have "rounds E fast_observer H (fast E) never_stopper K n (h, push_cont j s') = Inl r"
            using less.prems(2) m by simp
          then show ?thesis
            using less.hyps [of "push_cont j s'" t' h] t' j by (simp add: resume_context_simps(2))
        qed
        then show ?thesis
          by (simp add: step_loop_round [of _ _ _ _ _ h s] Inl y)
      next
        case False
        then have y: "?never (h, s) = Inl y" "y = r"
          using round less.prems(2) m sim
          by (auto simp: Inl elim: rel_sum.cases split: outcome.splits run_end.splits)
        show ?thesis
        proof (cases y)
          case (Ok z)
          then obtain h' s' out where z: "z = (h', s', Outputs out)" "stack_outputs (stk (abs_vm (proc s'))) = Some out"
            using round_end [of E fast_observer H "fast E" K h s] y(1) by (cases z) (auto simp: fast_observer_def)
          then have "current_stack_outputs fast_observer (proc s') = Ok out"
            by (simp add: current_stack_outputs_def fast_observer_def)
          then show ?thesis
            using Ok y(2) z(1) by (simp add: step_loop_round [of _ _ _ _ _ h s] Inl run_outputs_def)
        qed (use y(2) in \<open>simp_all add: step_loop_round [of _ _ _ _ _ h s] Inl run_outputs_def\<close>)
      qed
    qed
  qed
qed

text \<open>C3: Executing a program one clock cycle at a time is running it: \<open>execute_by_step_sync\<close>, which stops after every
  cycle and resumes from the continuation it was left with, ends as \<open>execute_sync\<close> does, with the same outputs, the same
  final state and the same state of the host, or with the same error.\<close>

theorem stepping_is_running:
  assumes "runnable prog p" "host_ok H"
  shows "execute_by_step_sync E fast_observer H (fast E) prog h p =
    map_option run_outputs (execute_sync E fast_observer H (fast E) prog h p)"
  using initial_context [OF assms(1)]
proof (elim sim_cases)
  fix s and t :: "'a vm exec_state" assume s: "get_initial_resume_context prog p = Ok s"
    and rel: "exec_rel (timed (unat (clk p)) (options p)) s t"
  obtain n r r' where "rounds E fast_observer H (fast E) never_stopper (pr_kernel prog) n (h, s) = Inl r"
      "run_impl E fast_observer H (fast E) never_stopper (pr_kernel prog) h s = Some r" "sim (end_rel related) r r'"
    by (rule run_sim_halts [OF rel assms(2), where E = E])
  then show ?thesis
    using steps_as_run [OF timed_related [OF rel] assms(2)] s
    by (simp add: execute_by_step_sync_def execute_sync_def)
qed (simp_all add: execute_by_step_sync_def execute_sync_def run_outputs_def)

theorem stepping_is_running_witness:
  "\<exists>p h s. runnable example_program p \<and>
    execute_by_step_sync example_env fast_observer example_host (fast example_env) example_program () p = Some (Ok (h, s, 7 # replicate 15 0))"
proof -
  obtain p :: "unit fast_processor" where p: "runnable example_program p"
    "\<exists>s. execute_sync example_env ref_observer example_host (ref example_env) example_program () (abs_vm p) =
      Some (Ok ((), s, Outputs (7 # replicate 15 0)))"
    by (rule example_start) blast
  have "\<exists>h s. execute_sync example_env fast_observer example_host (fast example_env) example_program () p =
      Some (Ok (h, s, Outputs (7 # replicate 15 0)))"
    using example_fast_run [OF p] .
  then show ?thesis
    using stepping_is_running [OF p(1) example_ok(1), of example_env "()"] p(1) by (auto simp: run_outputs_def)
qed

section \<open>Contexts\<close>

text \<open>The example behind a system call: after two rounds the return is pending, after two more the run has ended.\<close>

lemma example_call_rounds:
  fixes v :: "unit vm"
  assumes "stk v = 3 # 4 # replicate 14 0" "options v = default_options" "clk v = 0" "saved v = []" "system_call_state_stack v = []"
  defines "w \<equiv> v\<lparr>stk := 7 # replicate 15 0, clk := 5, saved := [[]], system_call_state_stack := [(ctx v, caller_hash v)], ctx := 0\<rparr>"
  shows "rounds example_env ref_observer example_host (ref example_env) never_stopper (pr_kernel example_call) (Suc (Suc 0))
      ((), \<lparr>proc = v, conts = [StartNode 1], current_forest = example_call_forest\<rparr>) =
    Inr ((), \<lparr>proc = w, conts = [FinishCall 1], current_forest = example_call_forest\<rparr>)"
    "rounds example_env ref_observer example_host (ref example_env) never_stopper (pr_kernel example_call) (Suc (Suc 0))
      ((), \<lparr>proc = w, conts = [FinishCall 1], current_forest = example_call_forest\<rparr>) =
    Inl (Ok ((), \<lparr>proc = v\<lparr>stk := 7 # replicate 15 0, clk := 6\<rparr>, conts = [], current_forest = example_call_forest\<rparr>,
      Outputs (7 # replicate 15 0)))"
proof -
  let ?u = "v\<lparr>saved := [[]], system_call_state_stack := [(ctx v, caller_hash v)], ctx := 0, clk := 1\<rparr>"
  have methods: "stk_start_context (stack (ref example_env)) = vm_start_context"
    "stk_restore_context (stack (ref example_env)) = vm_restore_context" "sys_save_call_state (system (ref example_env)) = save_call_state"
    "sys_restore_call_state (system (ref example_env)) = restore_call_state"
    "sys_set_ctx (system (ref example_env)) = (\<lambda>p c. p\<lparr>ctx := c\<rparr>)"
    by (simp_all add: processor_sel vm_stack_def)
  have start: "execute_continuation (ref example_env) never_stopper (pr_kernel example_call) (StartNode 1)
      \<lparr>proc = v, conts = [], current_forest = example_call_forest\<rparr> =
    Ok (Continue \<lparr>proc = ?u, conts = [StartNode 0, FinishCall 1], current_forest = example_call_forest\<rparr>)"
    using assms(1-5)
    by (simp add: execute_continuation_def start_node_def unwrap_node_def example_call_forest_def get_node_by_id_def start_call_node_def
        methods vm_start_context_def save_call_state_def get_digest_by_id_def option_map_break_reason_def
        example_call_def contains_proc_def node_digest_def example_node_def finalize_clock_cycle_def example_cycle)
  show "rounds example_env ref_observer example_host (ref example_env) never_stopper (pr_kernel example_call) (Suc (Suc 0))
      ((), \<lparr>proc = v, conts = [StartNode 1], current_forest = example_call_forest\<rparr>) =
    Inr ((), \<lparr>proc = w, conts = [FinishCall 1], current_forest = example_call_forest\<rparr>)"
    using start example_block [of ?u "[FinishCall 1]" example_call_forest "pr_kernel example_call"] assms(1-3)
    by (simp add: next_state_def after_break_def w_def example_call_forest_def get_node_by_id_def)
  show "rounds example_env ref_observer example_host (ref example_env) never_stopper (pr_kernel example_call) (Suc (Suc 0))
      ((), \<lparr>proc = w, conts = [FinishCall 1], current_forest = example_call_forest\<rparr>) =
    Inl (Ok ((), \<lparr>proc = v\<lparr>stk := 7 # replicate 15 0, clk := 6\<rparr>, conts = [], current_forest = example_call_forest\<rparr>,
      Outputs (7 # replicate 15 0)))"
    using assms(1-5)
    by (simp add: next_state_def after_break_def w_def execute_continuation_def finish_call_node_def leave_context_def methods
        vm_restore_context_def restore_call_state_def example_cycle final_outputs_def ref_observer_def
        stack_outputs_def MIN_STACK_DEPTH_def Let_def)
qed

definition no_calls :: "'d fast_processor \<Rightarrow> bool" where
  "no_calls p \<longleftrightarrow> saved (abs_vm p) = [] \<and> system_call_state_stack p = []"

lemma initial_balanced:
  assumes "runnable prog p" "no_calls p" "get_initial_resume_context prog p = Ok s"
  shows "balanced_exec (ctx p, caller_hash p) s"
proof -
  obtain a where s: "s = \<lparr>proc = p\<lparr>advice_st := a\<rparr>, conts = [StartNode (pr_entrypoint prog)], current_forest = pr_forest prog\<rparr>"
    using assms(3) by (auto simp: get_initial_resume_context_def set_advice_def bindO_eq_Ok)
  have "good (proc s)"
    using initial_context [OF assms(1)] assms(3) by (auto simp: exec_rel_def framed_def related_def)
  then show ?thesis
    using assms(2) by (simp add: s balanced_exec_def balanced_def no_calls_def)
qed

text \<open>C4: Calls and returns are balanced: a run that starts without open calls and succeeds ends without open calls, in the
  context and with the caller hash it started with, whatever calls, system calls and dynamic calls it made.\<close>

theorem program_returns:
  assumes "runnable prog p" "host_ok H" "no_calls p"
    and run: "execute_sync E fast_observer H (fast E) prog h p = Some (Ok (h', s', e))"
  shows "no_calls (proc s') \<and> ctx (proc s') = ctx p \<and> caller_hash (proc s') = caller_hash p"
  using initial_context [OF assms(1)]
proof (elim sim_cases)
  fix s and t :: "'a vm exec_state" assume s: "get_initial_resume_context prog p = Ok s"
    and rel: "exec_rel (timed (unat (clk p)) (options p)) s t"
  obtain n r r' where n: "rounds E fast_observer H (fast E) never_stopper (pr_kernel prog) n (h, s) = Inl r"
      "run_impl E fast_observer H (fast E) never_stopper (pr_kernel prog) h s = Some r" "sim (end_rel related) r r'"
    by (rule run_sim_halts [OF rel assms(2), where E = E])
  have "r = Ok (h', s', e)"
    using run n(2) by (simp add: execute_sync_def s)
  from balanced_rounds [OF initial_balanced [OF assms(1,3) s] assms(2) n(1) [unfolded this]]
  show ?thesis by (auto simp: balanced_def no_calls_def)
qed (use run in \<open>simp add: execute_sync_def\<close>)

lemma example_call_run:
  obtains p :: "unit fast_processor" and s s' :: "unit fast_processor exec_state" and n where
    "runnable example_call p" "no_calls p" "get_initial_resume_context example_call p = Ok s"
    "rounds example_env fast_observer example_host (fast example_env) never_stopper (pr_kernel example_call) n ((), s) = Inr ((), s')"
    "conts s' = [FinishCall 1]" "length (stk (abs_vm (proc s'))) = 16"
    "\<exists>h s. execute_sync example_env fast_observer example_host (fast example_env) example_call () p =
      Some (Ok (h, s, Outputs (7 # replicate 15 0)))"
proof -
  obtain p :: "unit fast_processor" where p: "runnable example_call p" "saved (abs_vm p) = []" "system_call_state_stack p = []"
      "stk (abs_vm p) = 3 # 4 # replicate 14 0" "options p = default_options" "clk p = 0" "wf_advice (advice_st p)"
    by (rule example_start)
  let ?t = "\<lparr>proc = abs_vm p, conts = [StartNode 1], current_forest = example_call_forest\<rparr>"
  have t: "get_initial_resume_context example_call (abs_vm p) = Ok ?t"
    using example_context [of "abs_vm p" example_call] p(7) by (simp add: example_call_def example_call_forest_def)
  then obtain s where s: "get_initial_resume_context example_call p = Ok s" "exec_rel related s ?t"
    using initial_context [OF p(1)] by (elim sim_cases) (auto dest: timed_related)
  let ?run = "rounds example_env fast_observer example_host (fast example_env) never_stopper (pr_kernel example_call) (Suc (Suc 0))"
  have two: "rel_sum (sim (end_rel related)) (rel_prod (=) (exec_rel related)) (?run ((), s))
      (rounds example_env ref_observer example_host (ref example_env) never_stopper (pr_kernel example_call) (Suc (Suc 0)) ((), t))"
    if "exec_rel related s t" for s and t :: "unit vm exec_state"
    by (rule fast_run.rounds_sim [OF that example_ok(1)])
  note ref = example_call_rounds [of "abs_vm p"]
  obtain s' t' where s': "?run ((), s) = Inr ((), s')" "exec_rel related s' t'" "conts t' = [FinishCall 1]" "length (stk (proc t')) = 16"
      "rounds example_env ref_observer example_host (ref example_env) never_stopper (pr_kernel example_call) (Suc (Suc 0)) ((), t') =
        Inl (Ok ((), \<lparr>proc = (abs_vm p)\<lparr>stk := 7 # replicate 15 0, clk := 6\<rparr>, conts = [], current_forest = example_call_forest\<rparr>,
          Outputs (7 # replicate 15 0)))"
    using two [OF s(2)] ref p(2-6) by (auto elim!: rel_sum.cases rel_prod.cases simp del: rounds.simps)
  obtain h2 s2 where run: "?run ((), s') = Inl (Ok (h2, s2, Outputs (7 # replicate 15 0)))"
    using two [OF s'(2)] s'(5) by (auto elim!: rel_sum.cases sim_cases simp del: rounds.simps)
  then have "execute_sync example_env fast_observer example_host (fast example_env) example_call () p =
      Some (Ok (h2, s2, Outputs (7 # replicate 15 0)))"
    using run_impl_rounds(2) [OF s'(1)] run_impl_rounds(1) [OF run] s(1) by (simp add: execute_sync_def)
  then show ?thesis
    using that [of p s "Suc (Suc 0)" s'] p(1-3) s(1) s' by (auto simp: no_calls_def exec_rel_def related_def simp del: rounds.simps)
qed

theorem program_returns_witness:
  "\<exists>p h s. runnable example_call p \<and> no_calls p \<and>
    execute_sync example_env fast_observer example_host (fast example_env) example_call () p =
      Some (Ok (h, s, Outputs (7 # replicate 15 0))) \<and> no_calls (proc s)"
proof -
  obtain p :: "unit fast_processor" and h s where p: "runnable example_call p" "no_calls p"
      "execute_sync example_env fast_observer example_host (fast example_env) example_call () p = Some (Ok (h, s, Outputs (7 # replicate 15 0)))"
    by (rule example_call_run) blast
  then show ?thesis
    using program_returns [OF p(1) example_ok(1) p(2,3)] by blast
qed

text \<open>C5: A return cannot find its context missing: when the end of a call, of a system call or of a dynamic call that
  opened a context is next in a run that started without open calls, leaving the context fails only if the callee left more than sixteen elements, with \<open>InvalidStackDepthOnReturn\<close>
  and the depth; otherwise the elements of the caller below the sixteenth are back under the callee's.\<close>

theorem return_errors:
  assumes "runnable prog p" "host_ok H" "no_calls p" "get_initial_resume_context prog p = Ok s"
    "rounds E fast_observer H (fast E) never_stopper (pr_kernel prog) n (h, s) = Inr (h', s')" "conts s' = k # ks"
    "k = FinishCall m \<or> (k = FinishDyn m \<and> get_node_by_id (current_forest s') m = Some (Dyn d) \<and> is_dyncall d)"
  shows "let v = abs_vm (proc s') in
    if length (stk v) > 16
    then leave_context (fast E) (proc s') = Err (OperationErr (InvalidStackDepthOnReturn (length (stk v))))
    else \<exists>p' xs rest. leave_context (fast E) (proc s') = Ok p' \<and> good p' \<and> saved v = xs # rest \<and>
      stk (abs_vm p') = stk v @ xs \<and> saved (abs_vm p') = rest"
proof -
  have b: "balanced_exec (ctx p, caller_hash p) s'"
    by (rule balanced_rounds_on [OF initial_balanced [OF assms(1,3,4)] assms(2,5)])
  then have b': "balanced (ctx p, caller_hash p) (Suc (open_calls (current_forest s') ks)) (proc s')"
    using assms(6,7) by (auto simp: balanced_exec_def)
  show ?thesis
    using return_cases [OF b', of E] by (simp add: Let_def)
qed

theorem return_errors_witness:
  "\<exists>p s s' n. runnable example_call p \<and> no_calls p \<and> get_initial_resume_context example_call p = Ok s \<and>
    rounds example_env fast_observer example_host (fast example_env) never_stopper (pr_kernel example_call) n ((), s) = Inr ((), s') \<and>
    (\<exists>p'. leave_context (fast example_env) (proc s') = Ok p')"
proof -
  obtain p :: "unit fast_processor" and s s' :: "unit fast_processor exec_state" and n where
    p: "runnable example_call p" "no_calls p" "get_initial_resume_context example_call p = Ok s"
      "rounds example_env fast_observer example_host (fast example_env) never_stopper (pr_kernel example_call) n ((), s) = Inr ((), s')"
      "conts s' = [FinishCall 1]" "length (stk (abs_vm (proc s'))) = 16"
    by (rule example_call_run)
  show ?thesis
    using return_errors [OF p(1) example_ok(1) p(2-5), of 1 undefined] p by (auto simp: Let_def)
qed

text \<open>C9: No operation touches the registers of the control flow: an operation that succeeds leaves the clock, the
  context, the caller hash, the saved registers, the options and the saved stacks of the callers as they were.\<close>

theorem operation_frame:
  assumes "good p" "execute_op (fast E) op p = Ok (h, p')"
  shows "clk p' = clk p \<and> ctx p' = ctx p \<and> caller_hash p' = caller_hash p \<and>
    system_call_state_stack p' = system_call_state_stack p \<and> options p' = options p \<and> saved (abs_vm p') = saved (abs_vm p)"
  using execute_op_frame [OF assms] by (simp add: frame_of_def)

theorem operation_frame_witness:
  "\<exists>p h p'. good p \<and> execute_op (fast example_env) Add p = Ok (h, p') \<and> clk p' = clk p"
proof -
  obtain p :: "unit fast_processor" where p: "good p" "stk (abs_vm p) = 3 # 4 # replicate 14 0"
    using start_exists [of "[3, 4]" "()"] by auto
  obtain h w where "execute_op (ref example_env) Add (abs_vm p) = Ok (h, w)"
    using example_ops [OF p(2)] by blast
  then obtain p' where "execute_op (fast example_env) Add p = Ok (h, p')"
    using fast_ref.execute_op_sim [OF p(1), of Add example_env] by (auto simp: rel_prod_sel simp del: execute_op.simps elim: sim_cases)
  then show ?thesis
    using operation_frame [OF p(1)] p(1) by blast
qed

end
