(* ===== verification/Spec2Isabelle.thy ===== *)
theory Spec2Isabelle
  imports Block_Valid Mmr_Valid Program_Correct
begin

text \<open>
  A verification of the execution of programs by the Miden virtual machine: the machine that runs programs
  (\<open>processor/\<close>), the programs and the instruction set it runs (\<open>core/\<close>), and what both are built on (\<open>crates/field\<close>,
  \<open>crates/crypto\<close>). Paths are relative to \<open>src/\<close>.

  \<^bold>\<open>The program.\<close> A program is a forest of nodes (\<open>core/src/mast\<close>): blocks of operations, joins, splits, loops, calls,
  dynamic calls and references to other forests. \<open>FastProcessor\<close> (\<open>processor/src/fast\<close>) runs it. Its operand stack is a
  window of a large buffer that is written in place; beside it are the clock, the context registers, a memory, an advice
  provider and a deferred state. The execution loop (\<open>processor/src/execution\<close>) pops continuations from a stack and calls
  the handler of the node, which calls \<open>execute_op\<close> for the operations of a block. The loop is left when it needs the
  host: to emit an event, or to load a forest.

  \<^bold>\<open>The model.\<close> A Rust function is a function to \<open>outcome\<close>: \<open>Ok\<close>, \<open>Err\<close> with the error, or \<open>Panic\<close> for a failed index,
  unwrap, assertion or arithmetic overflow, those of debug builds included (theory \<open>Prelude\<close>). State is passed explicitly in records named after the
  structs. The traits of \<open>processor/src/processor.rs\<close> are records of methods (\<open>Processor_If\<close>), and the operations and
  node handlers take such a record, as the generic Rust functions do. Two machines implement it: \<open>fast E\<close>, the model of
  \<open>FastProcessor\<close>, and \<open>ref E\<close>, a machine whose stack is a list. The argument \<open>E\<close> holds the permutation of the hash
  function and the deferred state, whose code is not modelled; the host is the argument \<open>H\<close>.

  \<^item> \<open>Prelude\<close>: outcomes, loops that may fail, slices, named collections.
  \<^item> \<open>Felt\<close>, \<open>QuadFelt\<close>: \<open>crates/field/src/native\<close>; the modulus is proved prime, elements are a field, and the
    constant-time reduction returns the canonical value.
  \<^item> \<open>Vm_Types\<close>: words, errors, helper registers.
  \<^item> \<open>Sponge\<close>: \<open>crates/crypto/src/hash/algebraic_sponge\<close>; hashing in place is the sponge on a list of blocks.
  \<^item> \<open>Memory\<close>: \<open>processor/src/fast/memory.rs\<close>; reads after writes, alignment, limits.
  \<^item> \<open>Merkle\<close>: \<open>crates/crypto/src/merkle/{index,path,store}\<close>; a path the store returns verifies, an added path is found.
  \<^item> \<open>Forest\<close>, \<open>Mmr\<close>, \<open>Mmr_Correct\<close>, \<open>Mmr_Valid\<close>: \<open>crates/crypto/src/merkle/mmr/{forest,full,peaks,proof}.rs\<close>; the nodes a
    mountain range stores for a list of leaves, openings at every size, what an accepted opening binds and what it does
    not, validation of a serialized range.
  \<^item> \<open>Advice\<close>: \<open>processor/src/host/advice\<close>, \<open>core/src/advice\<close>; byte counts are exact and batches of mutations atomic.
  \<^item> \<open>Machine\<close>, \<open>Fast_Stack\<close>, \<open>Stack_Spec\<close>: options, system state, the buffer of the fast processor and the list machine.
  \<^item> \<open>Ops_Core\<close>, \<open>Ops_U32\<close>, \<open>Ops_Io\<close>, \<open>Ops_Fri\<close>, \<open>Ops_Crypto\<close>, \<open>Ops_Ace\<close>, \<open>Operation_Set\<close>, \<open>Dispatch\<close>: every operation of
    \<open>processor/src/execution/operations\<close> and \<open>execute_op\<close>.
  \<^item> \<open>Op_Batch\<close>, \<open>Op_Batch_Spec\<close>, \<open>Block_Spec\<close>, \<open>Block_Valid\<close>: blocks of \<open>core/src/mast/node/basic_block_node\<close>, packing,
    reading, index translation and validation.
  \<^item> \<open>Mast\<close>: nodes, digests, forests and their checks, kernels.
  \<^item> \<open>Sys_Events\<close>: \<open>core/src/events/sys_events.rs\<close>, \<open>processor/src/fast/basic_block\<close>.
  \<^item> \<open>Execution\<close>: \<open>processor/src/continuation_stack.rs\<close>, \<open>processor/src/execution\<close>, \<open>processor/src/fast/{step,execution_api}.rs\<close>.

  \<^bold>\<open>The contracts.\<close> \<open>stack_sim\<close>, \<open>processor_sim\<close> and \<open>machine_sim\<close> (\<open>Simulation\<close>) say what a processor must promise for an
  operation or a node to behave on it as on another one; \<open>exec_sim\<close> (\<open>Exec_Sim\<close>) adds the stopper and \<open>run_sim\<close>
  (\<open>Run_Sim\<close>) what the host sees. Every handler is proved once, in these locales, to preserve a relation of the two
  states. \<open>Fast_Refine\<close>, \<open>Fast_Depth\<close> and \<open>Fast_Sim\<close> discharge the contract for the buffer and the list, and
  \<open>Fast_Run\<close> interprets it three times: with the invariant alone, with the registers an operation must not touch, and with a
  lower bound on the clock. The last one makes every run end (\<open>Fast_Halt\<close>).
  \<open>Step_Run\<close> relates a run to its single steps, \<open>Context_Run\<close> the calls that are open to the saved contexts. The node buffer
  of a mountain range is reached through \<open>append_vector\<close> (\<open>Mmr\<close>), the contract of a vector that only grows.

  \<^bold>\<open>The theorems.\<close> \<open>Program_Correct\<close>: whole programs. This theory: single operations, and the effect of the operations
  on the stack against \<open>Isa_Spec\<close>, the documented instruction set. \<open>Ops_Correct\<close>: the operations that reach beyond the
  stack, through \<open>Ops_Spec\<close>. \<open>Block_Valid\<close>: blocks. \<open>Advice\<close>, \<open>Memory\<close>, \<open>Merkle\<close>,
  \<open>Mmr_Correct\<close>, \<open>Mmr_Valid\<close>, \<open>Sponge\<close>, \<open>Felt\<close>: their components.

  \<^bold>\<open>Bounds and loops.\<close> The loops of a run are \<open>partial_function (option)\<close>, so that not returning is \<open>None\<close>, and there is no
  fuel. The invariant of the processor includes \<open>max_stack_depth < 2^32\<close> (depths are field elements when pushed) and, for
  runs, \<open>max_cycles < 2^32 - 1\<close>; the constructor of the options limits both further. Clock, addresses, contexts
  and digits of the 32-bit operations are words of their width; \<open>usize\<close> is a natural number with its overflow checks
  where an operation could reach them. A mountain range has at most
  \<open>2^32 - 1\<close> leaves, the limit of the code on a 64-bit target. A forest given to a run must be well-formed: children and roots are nodes
  and blocks have a batch.

  \<^bold>\<open>Not modelled.\<close> The permutation and byte-oriented hash functions; the deferred state and precompiles, of which the
  processor sees a root and a log; tracing, which only observes (\<open>Tracer\<close>), and the parallel building of traces from
  it; source locations and debugging data attached to errors; the asynchronous copies of the loop, which differ from the
  synchronous ones in awaiting the host. Outside the processor: the assembler, the constraint system, proving and
  verification, packages, tools and the remaining cryptography, which are separate programs with their own state.
\<close>

section \<open>Execution of an operation\<close>

text \<open>C6: One operation of the fast processor is the same operation of the reference machine: on a state of the
  invariant \<open>execute_op\<close> never panics, returns the same helper registers or the same error as the machine whose
  stack is a list, and leaves a state of the invariant that stands for the state of that machine.\<close>

theorem execute_op_refines:
  assumes "good p" "op \<noteq> Emit"
  shows "case execute_op (fast E) op p of
      Ok (h, p') \<Rightarrow> good p' \<and> execute_op (ref E) op (abs_vm p) = Ok (h, abs_vm p')
    | Err e \<Rightarrow> execute_op (ref E) op (abs_vm p) = Err e
    | Panic \<Rightarrow> False"
  using fast_ref.execute_op_sim [OF assms, of E] by (elim sim_cases) (auto simp: related_def)

theorem execute_op_refines_witness:
  "\<exists>p p' h. good p \<and> execute_op (fast example_env) Add p = Ok (h, p') \<and> good p'"
proof -
  obtain p :: "unit fast_processor" where p: "good p" "stk (abs_vm p) = 3 # 4 # replicate 14 0"
    using start_exists [of "[3, 4]" "()"] by auto
  have "\<exists>h v. execute_op (ref example_env) Add (abs_vm p) = Ok (h, v)"
    using all_follow [of "abs_vm p" example_env Add] p(2) by (auto simp: follows_def)
  then show ?thesis
    using execute_op_refines [OF p(1), where op = Add and E = example_env] p(1) by (auto split: outcome.splits)
qed



section \<open>The initial state\<close>

text \<open>C20: A processor made by \<open>new_with_options\<close> from at most sixteen inputs satisfies the invariant that every
  operation keeps, and its stack holds the inputs, the first one on top, over zeros.\<close>

theorem initial_processor:
  assumes "length xs \<le> 16" "16 \<le> max_stack_depth opts" "max_stack_depth opts < 2 ^ 32"
    "opt_max_advice_size_bytes opts \<le> usize_max" "new_with_options d tbl xs adv_s adv_m adv_n opts = Ok p"
  shows "good p \<and> stk (abs_vm p) = xs @ replicate (16 - length xs) 0 \<and> saved (abs_vm p) = []"
  using start_good [OF assms(5,1-4)] new_with_options_wf [OF assms(1-3,5)] by simp

theorem initial_processor_witness:
  "\<exists>p. new_with_options () [] [5] [] fmempty [] default_options = Ok p \<and> good p \<and>
    stk (abs_vm p) = [5] @ replicate 15 (0 :: felt)"
proof -
  obtain p where p: "new_with_options () [] [5] [] fmempty [] default_options = Ok p"
    using start_exists [of "[5]" "()"] by auto
  have "16 \<le> max_stack_depth default_options" "max_stack_depth default_options < 2 ^ 32"
    "opt_max_advice_size_bytes default_options \<le> usize_max"
    by (simp_all add: default_options_def usize_max_def)
  then show ?thesis
    using initial_processor [OF _ _ _ _ p] p by simp
qed

end
